(* ===== verification/Prelude.thy ===== *)
theory Prelude
  imports Complex_Main "HOL-Library.Multiset" "HOL-Library.AList"
begin

text \<open>
  Shared vocabulary of the development.

  \<^item> \<open>exn\<close>: the Python exceptions the modelled code raises (and \<open>NativeFault\<close>, a call into the
    native library with a handle that was freed, which has no defined result), and \<open>'a result\<close>, the value of a
    call that may raise one of them.
  \<^item> \<open>('s, 'a) outcome\<close>: the result of a method call on an object: the object's state after the
    call together with the returned value or the exception.  Python keeps the mutations made
    before a \<open>raise\<close>, so the state is there in both cases.  \<open>sbind\<close> sequences two such calls.
  \<^item> Python's \<open>range\<close>, indexing with negative indices, and the iteration protocol.
  \<^item> \<open>chunks\<close>: the reference definition of cutting a list into consecutive blocks, against which
    the batching components are compared.
\<close>

named_theorems py_simps \<open>unfolding rules of the Python vocabulary\<close>

section \<open>Exceptions and results\<close>

datatype exn =
    StopIteration
  | AssertionError
  | ValueError
  | IndexError
  | KeyError
  | TypeError
  | AttributeError
  | RuntimeError
  | NotImplementedError
  | ZeroDivisionError
  | StructError
  | UserWarning
  | MXNetError
  | OSError
  | DeferredInitializationError
  | NativeFault

type_synonym 'a result = "exn + 'a"

type_synonym ('s, 'a) outcome = "'s \<times> (exn + 'a)"

definition rbind :: "'a result \<Rightarrow> ('a \<Rightarrow> 'b result) \<Rightarrow> 'b result" where
  "rbind r f = (case r of Inl e \<Rightarrow> Inl e | Inr a \<Rightarrow> f a)"

definition sbind :: "('s, 'a) outcome \<Rightarrow> ('s \<Rightarrow> 'a \<Rightarrow> ('s, 'b) outcome) \<Rightarrow> ('s, 'b) outcome" where
  "sbind r f = (case r of (s, Inl e) \<Rightarrow> (s, Inl e) | (s, Inr a) \<Rightarrow> f s a)"

lemma rbind_simps [simp, py_simps]:
  "rbind (Inl e) f = Inl e"
  "rbind (Inr a) f = f a"
  by (simp_all add: rbind_def)

lemma sbind_simps [simp, py_simps]:
  "sbind (s, Inl e) f = (s, Inl e)"
  "sbind (s, Inr a) f = f s a"
  by (simp_all add: sbind_def)

lemma rbind_assoc [simp]: "rbind (rbind r f) g = rbind r (\<lambda>a. rbind (f a) g)"
  by (cases r) auto

lemma rbind_eq_Inr [simp]: "rbind r f = Inr b \<longleftrightarrow> (\<exists>a. r = Inr a \<and> f a = Inr b)"
  by (cases r) auto

lemma case_rbind_eq_Inr [simp]:
  "(case r of (s, x) \<Rightarrow> rbind x (f s)) = Inr b \<longleftrightarrow> (\<exists>s a. r = (s, Inr a) \<and> f s a = Inr b)"
  by (cases r) auto

text \<open>A Python list comprehension whose element expression may raise.\<close>

fun mapM :: "('a \<Rightarrow> 'b result) \<Rightarrow> 'a list \<Rightarrow> 'b list result" where
  "mapM f [] = Inr []"
| "mapM f (x # xs) = rbind (f x) (\<lambda>y. rbind (mapM f xs) (\<lambda>ys. Inr (y # ys)))"

lemma rbind_cong [fundef_cong]:
  "r = r' \<Longrightarrow> (\<And>a. r' = Inr a \<Longrightarrow> f a = g a) \<Longrightarrow> rbind r f = rbind r' g"
  by (cases r') (simp_all add: rbind_def)

lemma mapM_cong [fundef_cong]:
  "xs = ys \<Longrightarrow> (\<And>x. x \<in> set ys \<Longrightarrow> f x = g x) \<Longrightarrow> mapM f xs = mapM g ys"
  by (induction ys arbitrary: xs) simp_all

lemma mapM_Inr: "(\<And>x. x \<in> set xs \<Longrightarrow> f x = Inr (g x)) \<Longrightarrow> mapM f xs = Inr (map g xs)"
  by (induction xs) auto

lemma mapM_length: "mapM f xs = Inr ys \<Longrightarrow> length ys = length xs"
  by (induction xs arbitrary: ys) auto

lemma mapM_nth: "mapM f xs = Inr ys \<Longrightarrow> i < length xs \<Longrightarrow> f (xs ! i) = Inr (ys ! i)"
proof (induction xs arbitrary: ys i)
  case Nil
  then show ?case by simp
next
  case (Cons x xs)
  then show ?case by (cases i) auto
qed

section \<open>Python sequences\<close>

text \<open>\<open>range(n)\<close>, and \<open>range(a, b, s)\<close> with its \<open>ValueError\<close> for a zero step.\<close>

definition py_range :: "int \<Rightarrow> int list" where
  "py_range n = map int [0..<nat n]"

definition py_range3 :: "int \<Rightarrow> int \<Rightarrow> int \<Rightarrow> int list result" where
  "py_range3 a b s =
     (if s = 0 then Inl ValueError
      else if 0 < s then Inr (map (\<lambda>k. a + int k * s) [0..<nat ((b - a + s - 1) div s)])
      else Inr (map (\<lambda>k. a + int k * s) [0..<nat ((a - b - s - 1) div (- s))]))"

lemma length_py_range [simp]: "length (py_range n) = nat n"
  by (simp add: py_range_def)

lemma set_py_range [simp]: "set (py_range n) = {0..<n}"
proof -
  have "int ` {0..<nat n} = {0..<n}"
  proof (intro equalityI subsetI)
    fix x assume "x \<in> {0..<n}"
    then have "x = int (nat x)" and "nat x \<in> {0..<nat n}" by auto
    then show "x \<in> int ` {0..<nat n}" by blast
  qed auto
  then show ?thesis by (simp add: py_range_def)
qed

lemma distinct_py_range [simp]: "distinct (py_range n)"
  by (simp add: py_range_def distinct_map)

text \<open>\<open>xs[i]\<close>: a negative index counts from the end; out of range raises \<open>IndexError\<close>.\<close>

definition py_get :: "'a list \<Rightarrow> int \<Rightarrow> 'a result" where
  "py_get xs i =
     (let n = int (length xs); j = (if i < 0 then i + n else i)
      in if 0 \<le> j \<and> j < n then Inr (xs ! nat j) else Inl IndexError)"

lemma py_get_nat [simp]: "k < length xs \<Longrightarrow> py_get xs (int k) = Inr (xs ! k)"
  by (simp add: py_get_def)

lemma py_get_in: "0 \<le> i \<Longrightarrow> i < int (length xs) \<Longrightarrow> py_get xs i = Inr (xs ! nat i)"
  by (simp add: py_get_def)

lemma py_get_out: "int (length xs) \<le> i \<Longrightarrow> py_get xs i = Inl IndexError"
  by (simp add: py_get_def)

lemma py_get_in_set: "py_get xs i = Inr x \<Longrightarrow> x \<in> set xs"
  by (auto simp: py_get_def Let_def split: if_splits)

lemma py_get_map: "py_get (map f xs) i = rbind (py_get xs i) (\<lambda>x. Inr (f x))"
  by (auto simp: py_get_def Let_def)

text \<open>
  \<open>d[k]\<close> on a dict, and \<open>d.get(k, default)\<close>.  A dict whose order is never read is a map.
\<close>

definition dict_get :: "('k \<rightharpoonup> 'v) \<Rightarrow> 'k \<Rightarrow> 'v result" where
  "dict_get m k = (case m k of None \<Rightarrow> Inl KeyError | Some v \<Rightarrow> Inr v)"

definition dict_get_default :: "('k \<rightharpoonup> 'v) \<Rightarrow> 'k \<Rightarrow> 'v \<Rightarrow> 'v" where
  "dict_get_default m k d = (case m k of None \<Rightarrow> d | Some v \<Rightarrow> v)"

section \<open>Iterators\<close>

text \<open>
  \<open>for b in it\<close>: call \<open>next\<close> until it raises.  The fuel bounds the number of calls; running out
  of it is \<open>None\<close>.  The result is the state afterwards, the items in order and the exception
  that ended the loop, which is \<open>StopIteration\<close> for a loop that ends normally.
\<close>

fun drain :: "nat \<Rightarrow> ('s \<Rightarrow> ('s, 'b) outcome) \<Rightarrow> 's \<Rightarrow> ('s \<times> 'b list \<times> exn) option" where
  "drain 0 nxt s = None"
| "drain (Suc f) nxt s =
     (case nxt s of
        (s', Inl e) \<Rightarrow> Some (s', [], e)
      | (s', Inr b) \<Rightarrow> map_option (\<lambda>(s'', bs, e). (s'', b # bs, e)) (drain f nxt s'))"

lemma drain_more:
  "drain f nxt s = Some r \<Longrightarrow> f \<le> g \<Longrightarrow> drain g nxt s = Some r"
proof (induction f arbitrary: s r g)
  case 0
  then show ?case by simp
next
  case (Suc f)
  from Suc.prems(2) obtain g' where g: "g = Suc g'" "f \<le> g'" by (cases g) auto
  show ?case
  proof (cases "nxt s")
    case (Pair s' r')
    show ?thesis
    proof (cases r')
      case (Inl e)
      with Pair Suc.prems(1) show ?thesis by (simp add: g(1))
    next
      case (Inr b)
      with Pair Suc.prems(1) obtain q where q: "drain f nxt s' = Some q"
        and r: "r = (\<lambda>(s'', bs, e). (s'', b # bs, e)) q"
        by auto
      from Suc.IH [OF q g(2)] Pair Inr r show ?thesis by (simp add: g(1))
    qed
  qed
qed

lemma drain_step:
  assumes "nxt s = (s', Inr b)" and "drain f nxt s' = Some (t, bs, e)"
  shows "drain (Suc f) nxt s = Some (t, b # bs, e)"
  using assms by simp

lemma drain_stop: "nxt s = (s', Inl e) \<Longrightarrow> drain (Suc f) nxt s = Some (s', [], e)"
  by simp

section \<open>Integer division\<close>

lemma le_div_int_iff:
  fixes j k a :: int
  assumes "0 < k"
  shows "j \<le> a div k \<longleftrightarrow> j * k \<le> a"
proof
  assume "j \<le> a div k"
  then have "j * k \<le> a div k * k" using assms by simp
  also have "\<dots> \<le> a" using div_mult_mod_eq [of a k] pos_mod_sign [OF assms, of a] by linarith
  finally show "j * k \<le> a" .
next
  assume "j * k \<le> a"
  from zdiv_mono1 [OF this assms] assms show "j \<le> a div k" by simp
qed

lemma ceil_div_less:
  fixes j k m :: int
  assumes "0 < k"
  shows "j < (m + k - 1) div k \<longleftrightarrow> j * k < m"
proof -
  have "j < (m + k - 1) div k \<longleftrightarrow> j + 1 \<le> (m + k - 1) div k" by linarith
  also have "\<dots> \<longleftrightarrow> (j + 1) * k \<le> m + k - 1"
    by (rule le_div_int_iff [OF assms])
  also have "\<dots> \<longleftrightarrow> j * k < m" by (simp add: algebra_simps) linarith
  finally show ?thesis .
qed

lemma ceil_div_int:
  fixes m n :: int
  assumes "0 < n"
  shows "(m + n - 1) div n = m div n + (if m mod n = 0 then 0 else 1)"
proof -
  define r where "r = m mod n"
  have r: "0 \<le> r" "r < n" using assms by (simp_all add: r_def)
  have split: "m + n - 1 = (r + n - 1) + m div n * n"
    using div_mult_mod_eq [of m n] by (simp add: r_def)
  have "(m + n - 1) div n = m div n + (r + n - 1) div n"
    using assms by (subst split) (rule div_mult_self1, simp)
  moreover have "(r + n - 1) div n = (if r = 0 then 0 else 1)"
    using r assms int_div_pos_eq [of "r + n - 1" n 1 "r - 1"] by auto
  ultimately show ?thesis by (simp add: r_def)
qed

section \<open>Consecutive blocks\<close>

function chunks :: "nat \<Rightarrow> 'a list \<Rightarrow> 'a list list" where
  "chunks n xs = (if n = 0 \<or> xs = [] then [] else take n xs # chunks n (drop n xs))"
  by pat_completeness auto
termination
  by (relation "measure (\<lambda>(n, xs). length xs)") auto

declare chunks.simps [simp del]

lemma chunks_Nil [simp]: "chunks n [] = []"
  by (simp add: chunks.simps)

lemma chunks_step: "0 < n \<Longrightarrow> xs \<noteq> [] \<Longrightarrow> chunks n xs = take n xs # chunks n (drop n xs)"
  by (subst chunks.simps) simp

lemma concat_chunks: "0 < n \<Longrightarrow> concat (chunks n xs) = xs"
proof (induction n xs rule: chunks.induct)
  case (1 n xs)
  show ?case
  proof (cases "xs = []")
    case False
    then have "concat (chunks n xs) = take n xs @ concat (chunks n (drop n xs))"
      using "1.prems" by (subst chunks_step) simp_all
    with False 1 show ?thesis by simp
  qed simp
qed

lemma length_chunks: "0 < n \<Longrightarrow> length (chunks n xs) = (length xs + n - 1) div n"
proof (induction n xs rule: chunks.induct)
  case (1 n xs)
  show ?case
  proof (cases "xs = []")
    case True
    with "1.prems" show ?thesis by simp
  next
    case False
    have len: "length (chunks n (drop n xs)) = (length xs - n + n - 1) div n"
      using "1.IH" "1.prems" False by simp
    show ?thesis
    proof (cases "n \<le> length xs")
      case True
      define k where "k = length xs - n + n - 1"
      have split: "length xs + n - 1 = k + n"
        using True "1.prems" by (simp add: k_def)
      have "(length xs + n - 1) div n = Suc (k div n)"
        unfolding split using "1.prems" by simp
      moreover have "length (chunks n xs) = Suc (length (chunks n (drop n xs)))"
        using False "1.prems" by (subst chunks_step) simp_all
      ultimately show ?thesis using len by (simp only: k_def)
    next
      case small: False
      then have "(length xs + n - 1) div n = 1"
        using False "1.prems" by (intro div_nat_eqI) (auto simp: neq_Nil_conv)
      moreover have "chunks n xs = [xs]"
        using False small "1.prems" by (subst chunks_step) simp_all
      ultimately show ?thesis by simp
    qed
  qed
qed

lemma chunks_nonempty: "y \<in> set (chunks n xs) \<Longrightarrow> y \<noteq> []"
proof (induction n xs rule: chunks.induct)
  case (1 n xs)
  then show ?case by (subst (asm) (2) chunks.simps) (auto split: if_splits)
qed

lemma chunks_map: "chunks n (map f xs) = map (map f) (chunks n xs)"
proof (induction n xs rule: chunks.induct)
  case (1 n xs)
  then show ?case
    by (subst chunks.simps, subst (2) chunks.simps) (simp add: take_map drop_map)
qed

lemma chunks_full:
  assumes "0 < n" and "length xs = n"
  shows "chunks n (xs @ ys) = xs # chunks n ys"
proof -
  have "xs @ ys \<noteq> []" using assms by auto
  then show ?thesis using assms by (subst chunks_step) simp_all
qed

lemma chunks_small: "0 < length xs \<Longrightarrow> length xs \<le> n \<Longrightarrow> chunks n xs = [xs]"
  by (subst chunks_step) (auto intro: less_le_trans)

lemma chunks_append_full:
  assumes "0 < n" and "k * n \<le> length xs"
  shows "chunks n (xs @ ys)
       = map (\<lambda>i. take n (drop (i * n) xs)) [0..<k] @ chunks n (drop (k * n) xs @ ys)"
  using assms(2)
proof (induction k arbitrary: xs)
  case 0
  then show ?case by simp
next
  case (Suc k)
  have le: "n \<le> length xs" and le': "k * n \<le> length (drop n xs)" using Suc.prems by auto
  have "chunks n (xs @ ys) = take n xs # chunks n (drop n xs @ ys)"
    using chunks_full [of n "take n xs" "drop n xs @ ys"] assms(1) le
    by (simp flip: append_assoc)
  also have "chunks n (drop n xs @ ys)
      = map (\<lambda>i. take n (drop (i * n) (drop n xs))) [0..<k] @ chunks n (drop (k * n) (drop n xs) @ ys)"
    by (rule Suc.IH [OF le'])
  finally show ?case
    by (simp add: map_upt_Suc add.commute del: upt_Suc)
qed

lemma chunks_take_full:
  assumes "0 < n" and "k * n \<le> length xs"
  shows "chunks n (take (k * n) xs) = map (\<lambda>i. take n (drop (i * n) xs)) [0..<k]"
proof -
  have "chunks n (take (k * n) xs) = map (\<lambda>i. take n (drop (i * n) (take (k * n) xs))) [0..<k]"
    using chunks_append_full [of n k "take (k * n) xs" "[]"] assms by simp
  also have "\<dots> = map (\<lambda>i. take n (drop (i * n) xs)) [0..<k]"
  proof (rule map_cong [OF refl])
    fix i assume "i \<in> set [0..<k]"
    then have "Suc i * n \<le> k * n" by (intro mult_le_mono1) simp
    then show "take n (drop (i * n) (take (k * n) xs)) = take n (drop (i * n) xs)"
      by (simp add: drop_take)
  qed
  finally show ?thesis .
qed

lemma concat_blocks:
  assumes "0 < n" and "k * n \<le> length xs"
  shows "concat (map (\<lambda>i. take n (drop (i * n) xs)) [0..<k]) = take (k * n) xs"
  using chunks_take_full [OF assms] concat_chunks [OF assms(1), of "take (k * n) xs"] by simp

lemma length_blocks:
  assumes "k * n \<le> length xs" and "i < k"
  shows "length (take n (drop (i * n) xs)) = n"
proof -
  have "Suc i * n \<le> k * n" using assms(2) by (intro mult_le_mono1) simp
  then show ?thesis using assms(1) by simp
qed

section \<open>Dictionaries\<close>

text \<open>An insertion-ordered dict is an association list; a new key goes to its end.\<close>

lemma update_fresh: "k \<notin> fst ` set xs \<Longrightarrow> AList.update k v xs = xs @ [(k, v)]"
  by (induction xs) auto

lemma fold_update_fresh:
  "distinct (map key xs) \<Longrightarrow> fst ` set acc \<inter> key ` set xs = {} \<Longrightarrow>
   foldl (\<lambda>m x. AList.update (key x) (val x) m) acc xs = acc @ map (\<lambda>x. (key x, val x)) xs"
  by (induction xs arbitrary: acc) (auto simp: update_fresh)

end
