(* ===== verification/Samplers.thy ===== *)
theory Samplers
  imports Prelude
begin

text \<open>
  The samplers of \<open>python/mxnet/gluon/data/sampler.py\<close> and
  \<open>python/mxnet/gluon/contrib/data/sampler.py\<close>.

  A sampler is an object with \<open>__iter__\<close> and \<open>__len__\<close>; its model is a pair of functions of the
  constructor's arguments, the first giving the list of the yielded indices.
  \<open>numpy.random.shuffle\<close> is the parameter \<open>shuffle\<close> of \<open>RandomSampler\<close>'s model.
  \<open>BatchSampler\<close> keeps \<open>_prev\<close> between two iterations and has a record for its state; its
  \<open>__iter__\<close>, a generator, is modelled by everything it yields until it is exhausted.

  The locale \<open>index_sampler\<close> is the contract the data loader relies on: one iteration visits
  every index below \<open>len\<close> exactly once.  It is interpreted on the three index samplers.
\<close>

section \<open>Index samplers\<close>

definition SequentialSampler_iter :: "int \<Rightarrow> int list" where
  "SequentialSampler_iter n = py_range n"

definition SequentialSampler_len :: "int \<Rightarrow> int" where
  "SequentialSampler_len n = n"

definition RandomSampler_iter :: "(int list \<Rightarrow> int list) \<Rightarrow> int \<Rightarrow> int list" where
  "RandomSampler_iter shuffle n = shuffle (py_range n)"

definition RandomSampler_len :: "int \<Rightarrow> int" where
  "RandomSampler_len n = n"

record interval_sampler =
  is_length :: int
  is_interval :: int
  is_rollover :: bool

definition IntervalSampler_init :: "int \<Rightarrow> int \<Rightarrow> bool \<Rightarrow> interval_sampler result" where
  "IntervalSampler_init n k r =
     (if k \<le> n then Inr \<lparr>is_length = n, is_interval = k, is_rollover = r\<rparr> else Inl AssertionError)"

definition IntervalSampler_iter :: "interval_sampler \<Rightarrow> int list result" where
  "IntervalSampler_iter s =
     rbind (mapM (\<lambda>i. py_range3 i (is_length s) (is_interval s))
              (py_range (if is_rollover s then is_interval s else 1)))
       (\<lambda>xss. Inr (concat xss))"

definition IntervalSampler_len :: "interval_sampler \<Rightarrow> int" where
  "IntervalSampler_len s = is_length s"

section \<open>Batch sampler\<close>

record 'a batch_sampler =
  bs_batch_size :: int
  bs_last_batch :: string
  bs_prev :: "'a list"

definition BatchSampler_init :: "int \<Rightarrow> string \<Rightarrow> 'a batch_sampler" where
  "BatchSampler_init n lb = \<lparr>bs_batch_size = n, bs_last_batch = lb, bs_prev = []\<rparr>"

text \<open>The \<open>for\<close> loop of \<open>__iter__\<close>: the yielded batches and the unfinished batch at its end.\<close>

fun batch_loop :: "int \<Rightarrow> 'a list \<Rightarrow> 'a list \<Rightarrow> 'a list list \<times> 'a list" where
  "batch_loop n batch [] = ([], batch)"
| "batch_loop n batch (i # is) =
     (let batch = batch @ [i]
      in if int (length batch) = n
         then (let (ys, rest) = batch_loop n [] is in (batch # ys, rest))
         else batch_loop n batch is)"

text \<open>
  One iteration over the items \<open>is\<close> of the source sampler: the state afterwards, the batches
  yielded, and the exception that the generator raises instead of finishing, if any.
\<close>

definition BatchSampler_iter ::
  "'a batch_sampler \<Rightarrow> 'a list \<Rightarrow> 'a batch_sampler \<times> 'a list list \<times> exn option" where
  "BatchSampler_iter s is =
     (let (ys, batch) = batch_loop (bs_batch_size s) (bs_prev s) is;
          s = s\<lparr>bs_prev := []\<rparr>
      in if batch \<noteq> []
         then if bs_last_batch s = ''keep'' then (s, ys @ [batch], None)
              else if bs_last_batch s = ''discard'' then (s, ys, None)
              else if bs_last_batch s = ''rollover'' then (s\<lparr>bs_prev := batch\<rparr>, ys, None)
              else (s, ys, Some ValueError)
         else (s, ys, None))"

definition BatchSampler_len :: "'a batch_sampler \<Rightarrow> int \<Rightarrow> int result" where
  "BatchSampler_len s n =
     (if bs_last_batch s \<notin> {''keep'', ''discard'', ''rollover''} then Inl ValueError
      else if bs_batch_size s = 0 then Inl ZeroDivisionError
      else if bs_last_batch s = ''keep''
        then Inr ((n + bs_batch_size s - 1) div bs_batch_size s)
      else if bs_last_batch s = ''discard'' then Inr (n div bs_batch_size s)
      else Inr ((int (length (bs_prev s)) + n) div bs_batch_size s))"

text \<open>Consecutive iterations of one \<open>BatchSampler\<close> object, one per epoch.\<close>

fun BatchSampler_epochs :: "'a batch_sampler \<Rightarrow> 'a list list \<Rightarrow> 'a batch_sampler \<times> 'a list list" where
  "BatchSampler_epochs s [] = (s, [])"
| "BatchSampler_epochs s (is # iss) =
     (let (s, ys, _) = BatchSampler_iter s is; (s, zs) = BatchSampler_epochs s iss
      in (s, ys @ zs))"

section \<open>Lemmas on the batching loop\<close>

lemma batch_loop_concat:
  "batch_loop n batch is = (ys, rest) \<Longrightarrow> concat ys @ rest = batch @ is"
proof (induction n batch "is" arbitrary: ys rest rule: batch_loop.induct)
  case (1 n batch)
  then show ?case by simp
next
  case (2 n batch i "is")
  show ?case
  proof (cases "int (length (batch @ [i])) = n")
    case True
    obtain zs r where zs: "batch_loop n [] is = (zs, r)" by (cases "batch_loop n [] is")
    with "2.prems" True have "ys = (batch @ [i]) # zs" "rest = r"
      by (auto simp: Let_def)
    moreover have "concat zs @ r = is" using "2.IH"(1) [OF refl True zs] by simp
    ultimately show ?thesis by simp
  next
    case False
    with "2.prems" have "batch_loop n (batch @ [i]) is = (ys, rest)" by (simp add: Let_def)
    from "2.IH"(2) [OF refl False this] show ?thesis by simp
  qed
qed

lemma batch_loop_lengths:
  assumes "batch_loop n batch is = (ys, rest)" and "int (length batch) < n"
  shows "(\<forall>y \<in> set ys. int (length y) = n) \<and> int (length rest) < n"
  using assms
proof (induction n batch "is" arbitrary: ys rest rule: batch_loop.induct)
  case (1 n batch)
  then show ?case by simp
next
  case (2 n batch i "is")
  show ?case
  proof (cases "int (length (batch @ [i])) = n")
    case True
    obtain zs r where zs: "batch_loop n [] is = (zs, r)" by (cases "batch_loop n [] is")
    with "2.prems" True have ys: "ys = (batch @ [i]) # zs" "rest = r"
      by (auto simp: Let_def)
    have "(\<forall>y \<in> set zs. int (length y) = n) \<and> int (length r) < n"
      using "2.IH"(1) [OF refl True zs] "2.prems"(2) by simp
    with ys True show ?thesis by simp
  next
    case False
    with "2.prems" have "batch_loop n (batch @ [i]) is = (ys, rest)" by (simp add: Let_def)
    with "2.IH"(2) [OF refl False] "2.prems"(2) False show ?thesis by simp
  qed
qed

lemma length_concat_uniform: "\<forall>y \<in> set ys. length y = n \<Longrightarrow> length (concat ys) = n * length ys"
  by (induction ys) auto

lemma batch_loop_count:
  assumes "batch_loop n batch is = (ys, rest)" and "int (length batch) < n"
  shows "int (length ys) = int (length (batch @ is)) div n"
    and "int (length rest) = int (length (batch @ is)) mod n"
proof -
  have len: "\<forall>y \<in> set ys. length y = nat n" and rest: "int (length rest) < n"
    using batch_loop_lengths [OF assms] by auto
  have n: "int (nat n) = n" using assms(2) by simp
  have "length (batch @ is) = length (concat ys @ rest)"
    by (simp only: batch_loop_concat [OF assms(1)])
  also have "\<dots> = nat n * length ys + length rest"
    by (simp add: length_concat_uniform [OF len])
  finally have eq: "int (length (batch @ is)) = n * int (length ys) + int (length rest)"
    using n by simp
  have "0 \<le> int (length rest)" by simp
  from int_div_pos_eq [OF eq this rest] int_mod_pos_eq [OF eq this rest]
  show "int (length ys) = int (length (batch @ is)) div n"
    and "int (length rest) = int (length (batch @ is)) mod n" by simp_all
qed

text \<open>The loop cuts the pending items and the new ones into consecutive blocks.\<close>

lemma chunks_blocks:
  assumes "0 < n" and "\<forall>y \<in> set ys. length y = n" and "length rest < n"
  shows "chunks n (concat ys @ rest) = ys @ (if rest = [] then [] else [rest])"
  using assms(2)
proof (induction ys)
  case Nil
  then show ?case using assms(1,3) by (simp add: chunks_small)
next
  case (Cons y ys)
  then show ?case using assms(1) by (simp add: chunks_full)
qed

lemma batch_loop_chunks:
  assumes "int (length batch) < n" and "batch_loop n batch is = (ys, rest)"
  shows "chunks (nat n) (batch @ is) = ys @ (if rest = [] then [] else [rest])"
proof -
  have n: "0 < nat n" using assms(1) by simp
  have "\<forall>y \<in> set ys. length y = nat n" and "length rest < nat n"
    using batch_loop_lengths [OF assms(2,1)] by auto
  from chunks_blocks [OF n this] batch_loop_concat [OF assms(2)] show ?thesis by simp
qed


section \<open>The interval sampler's blocks\<close>

definition stride :: "int \<Rightarrow> int \<Rightarrow> int \<Rightarrow> int list" where
  "stride n k i = map (\<lambda>j. i + int j * k) [0..<nat ((n - i + k - 1) div k)]"

lemma py_range3_stride: "0 < k \<Longrightarrow> py_range3 i n k = Inr (stride n k i)"
  by (simp add: py_range3_def stride_def)

lemma length_stride: "length (stride n k i) = nat ((n - i + k - 1) div k)"
  by (simp add: stride_def)

lemma set_stride:
  assumes "0 < k" and "0 \<le> i" and "i < k"
  shows "set (stride n k i) = {x. 0 \<le> x \<and> x < n \<and> x mod k = i}"
proof (intro equalityI subsetI)
  fix x assume "x \<in> set (stride n k i)"
  then obtain j where j: "int j < (n - i + k - 1) div k" and x: "x = i + int j * k"
    unfolding stride_def by (auto simp: zless_nat_eq_int_zless simp del: of_nat_less_iff)
  from j have "int j * k < n - i" using ceil_div_less [OF assms(1)] by simp
  with x assms show "x \<in> {x. 0 \<le> x \<and> x < n \<and> x mod k = i}" by simp
next
  fix x assume "x \<in> {x. 0 \<le> x \<and> x < n \<and> x mod k = i}"
  then have x: "0 \<le> x" "x < n" "x mod k = i" by auto
  define j where "j = nat (x div k)"
  have j0: "int j = x div k" using x(1) assms(1) by (simp add: j_def pos_imp_zdiv_nonneg_iff)
  then have xj: "x = i + int j * k" using x(3) by (metis add.commute div_mult_mod_eq)
  then have "int j * k < n - i" using x(2) by simp
  then have "int j < (n - i + k - 1) div k" using ceil_div_less [OF assms(1)] by simp
  with xj show "x \<in> set (stride n k i)" by (auto simp: stride_def image_iff)
qed

lemma distinct_stride: "0 < k \<Longrightarrow> distinct (stride n k i)"
  by (auto simp: stride_def distinct_map inj_on_def)

lemma hd_stride: "0 < k \<Longrightarrow> i < n \<Longrightarrow> stride n k i \<noteq> [] \<and> hd (stride n k i) = i"
proof -
  assume k: "0 < k" and i: "i < n"
  have "0 < (n - i + k - 1) div k" using ceil_div_less [OF k, of 0 "n - i"] i by simp
  then obtain m where "nat ((n - i + k - 1) div k) = Suc m"
    by (metis Suc_pred zero_less_nat_eq)
  then show ?thesis by (simp add: stride_def upt_conv_Cons del: upt_Suc)
qed

lemma mset_strides:
  assumes "0 < k" and "k \<le> n"
  shows "mset (concat (map (stride n k) (py_range k))) = mset (py_range n)"
proof -
  have inj: "inj_on (stride n k) {0..<k}"
    by (rule inj_onI) (metis atLeastLessThan_iff assms hd_stride order_less_le_trans)
  have "distinct (concat (map (stride n k) (py_range k)))"
  proof (rule distinct_concat)
    show "distinct (map (stride n k) (py_range k))" using inj by (simp add: distinct_map)
    show "distinct ys" if "ys \<in> set (map (stride n k) (py_range k))" for ys
      using that assms by (auto simp: distinct_stride)
    show "set ys \<inter> set zs = {}"
      if "ys \<in> set (map (stride n k) (py_range k))"
        "zs \<in> set (map (stride n k) (py_range k))" "ys \<noteq> zs" for ys zs
      using that by (auto simp: set_stride)
  qed
  moreover have "set (concat (map (stride n k) (py_range k))) = set (py_range n)"
    using assms(1) by (auto simp: set_stride)
  ultimately show ?thesis
    by (metis distinct_py_range set_eq_iff_mset_eq_distinct)
qed

section \<open>Contract of the index samplers\<close>

text \<open>
  A sampler configuration \<open>c\<close> that is valid yields, in one iteration, a rearrangement of the
  indices below its length.
\<close>

locale index_sampler =
  fixes valid :: "'c \<Rightarrow> bool"
    and sample :: "'c \<Rightarrow> int list"
    and len :: "'c \<Rightarrow> int"
  assumes sample_perm: "valid c \<Longrightarrow> mset (sample c) = mset (py_range (len c))"
begin

lemma set_sample: "valid c \<Longrightarrow> set (sample c) = {0..<len c}"
  using sample_perm by (metis set_mset_mset set_py_range)

lemma distinct_sample: "valid c \<Longrightarrow> distinct (sample c)"
  using sample_perm by (metis distinct_py_range mset_eq_imp_distinct_iff)

lemma length_sample: "valid c \<Longrightarrow> length (sample c) = nat (len c)"
  using sample_perm by (metis length_py_range size_mset)

text \<open>Batching with \<open>keep\<close> visits every index exactly once per epoch.\<close>

lemma keep_covers:
  assumes "valid c" and "0 < n"
  shows "\<exists>ys. BatchSampler_iter (BatchSampler_init n ''keep'') (sample c)
               = (BatchSampler_init n ''keep'', ys, None)
             \<and> mset (concat ys) = mset (py_range (len c))
             \<and> (\<forall>y \<in> set ys. y \<noteq> [] \<and> int (length y) \<le> n)"
proof -
  obtain ys rest where l: "batch_loop n [] (sample c) = (ys, rest)"
    by (cases "batch_loop n [] (sample c)")
  have len: "\<forall>y \<in> set ys. int (length y) = n" and r: "int (length rest) < n"
    using batch_loop_lengths [OF l] assms(2) by auto
  from len assms(2) have ne: "\<forall>y \<in> set ys. y \<noteq> []" by fastforce
  have cat: "concat ys @ rest = sample c" using batch_loop_concat [OF l] by simp
  let ?out = "if rest = [] then ys else ys @ [rest]"
  have "concat ?out = sample c" using cat by auto
  then have "mset (concat ?out) = mset (py_range (len c))"
    using sample_perm [OF assms(1)] by simp
  moreover have "BatchSampler_iter (BatchSampler_init n ''keep'') (sample c)
    = (BatchSampler_init n ''keep'', ?out, None)"
    using l by (simp add: BatchSampler_iter_def BatchSampler_init_def)
  moreover have "\<forall>y \<in> set ?out. y \<noteq> [] \<and> int (length y) \<le> n"
    using len r ne by auto
  ultimately show ?thesis by blast
qed

end

interpretation sequential: index_sampler "\<lambda>n. True" SequentialSampler_iter SequentialSampler_len
  by unfold_locales (simp add: SequentialSampler_iter_def SequentialSampler_len_def)

interpretation random: index_sampler
  "\<lambda>(shuffle, n). \<forall>xs. mset (shuffle xs) = mset xs"
  "\<lambda>(shuffle, n). RandomSampler_iter shuffle n" "\<lambda>(shuffle, n). RandomSampler_len n"
  by unfold_locales (auto simp: RandomSampler_iter_def RandomSampler_len_def)

lemma IntervalSampler_iter_rollover:
  assumes "is_rollover s" and "0 < is_interval s"
  shows "IntervalSampler_iter s =
    Inr (concat (map (stride (is_length s) (is_interval s)) (py_range (is_interval s))))"
proof -
  have "mapM (\<lambda>i. py_range3 i (is_length s) (is_interval s)) (py_range (is_interval s))
    = Inr (map (stride (is_length s) (is_interval s)) (py_range (is_interval s)))"
    using assms by (intro mapM_Inr) (simp add: py_range3_stride)
  then show ?thesis using assms by (simp add: IntervalSampler_iter_def)
qed

interpretation interval: index_sampler
  "\<lambda>s. is_rollover s \<and> 0 < is_interval s \<and> is_interval s \<le> is_length s"
  "\<lambda>s. case IntervalSampler_iter s of Inr xs \<Rightarrow> xs | Inl _ \<Rightarrow> []" IntervalSampler_len
  by unfold_locales
    (simp add: IntervalSampler_iter_rollover IntervalSampler_len_def mset_strides del: mset_concat)


section \<open>Properties\<close>

lemma BatchSampler_iter_loop:
  assumes "batch_loop (bs_batch_size s) (bs_prev s) is = (ys, rest)"
  shows "BatchSampler_iter s is =
    (if rest = [] then (s\<lparr>bs_prev := []\<rparr>, ys, None)
     else if bs_last_batch s = ''keep'' then (s\<lparr>bs_prev := []\<rparr>, ys @ [rest], None)
     else if bs_last_batch s = ''discard'' then (s\<lparr>bs_prev := []\<rparr>, ys, None)
     else if bs_last_batch s = ''rollover'' then (s\<lparr>bs_prev := rest\<rparr>, ys, None)
     else (s\<lparr>bs_prev := []\<rparr>, ys, Some ValueError))"
  using assms by (simp add: BatchSampler_iter_def)

text \<open>
   \<open>BatchSampler.__len__\<close> is exact: in each of the three modes, read before an iteration it
  is the number of batches the iteration then yields, and the iteration ends normally.
\<close>

theorem BatchSampler_len_exact:
  assumes "bs_last_batch s \<in> {''keep'', ''discard'', ''rollover''}"
    and "int (length (bs_prev s)) < bs_batch_size s"
    and "bs_last_batch s = ''rollover'' \<or> bs_prev s = []"
  shows "\<exists>s' ys. BatchSampler_iter s is = (s', ys, None)
           \<and> BatchSampler_len s (int (length is)) = Inr (int (length ys))"
proof -
  obtain ys rest where l: "batch_loop (bs_batch_size s) (bs_prev s) is = (ys, rest)"
    by (cases "batch_loop (bs_batch_size s) (bs_prev s) is")
  note cnt = batch_loop_count [OF l assms(2)]
  define n m where "n = bs_batch_size s" and "m = int (length (bs_prev s @ is))"
  have n: "0 < n" using assms(2) by (simp add: n_def)
  have ceil: "(m + n - 1) div n = m div n + (if rest = [] then 0 else 1)"
  proof -
    have "rest = [] \<longleftrightarrow> m mod n = 0" using cnt(2) by (auto simp: m_def n_def)
    moreover have "(m + n - 1) div n = m div n + (if m mod n = 0 then 0 else 1)"
      by (rule ceil_div_int [OF n])
    ultimately show ?thesis by simp
  qed
  show ?thesis
    using assms(1,3) n cnt(1) ceil
    by (auto simp: BatchSampler_iter_loop [OF l] BatchSampler_len_def n_def m_def)
qed

theorem BatchSampler_len_exact_witness:
  "\<exists>s' ys. BatchSampler_iter (BatchSampler_init 3 ''keep'' :: int batch_sampler) [0..9] = (s', ys, None)
     \<and> BatchSampler_len (BatchSampler_init 3 ''keep'' :: int batch_sampler) (int (length [0::int..9]))
       = Inr (int (length ys))"
  by (rule BatchSampler_len_exact) (simp_all add: BatchSampler_init_def)

text \<open>
  C6.  Rolling over loses and duplicates nothing: over any number of epochs the batches,
  followed by what is still pending, are the pending items at the start followed by the items of
  all epochs, in order; every batch is full and fewer than a batch of items is pending.
\<close>

theorem BatchSampler_rollover_conserves:
  assumes "bs_last_batch s = ''rollover''"
    and "int (length (bs_prev s)) < bs_batch_size s"
    and "BatchSampler_epochs s iss = (s', ys)"
  shows "concat ys @ bs_prev s' = bs_prev s @ concat iss
    \<and> (\<forall>y \<in> set ys. int (length y) = bs_batch_size s)
    \<and> int (length (bs_prev s')) < bs_batch_size s"
  using assms
proof (induction iss arbitrary: s ys)
  case Nil
  then show ?case by simp
next
  case (Cons xs iss)
  obtain zs rest where l: "batch_loop (bs_batch_size s) (bs_prev s) xs = (zs, rest)"
    by (cases "batch_loop (bs_batch_size s) (bs_prev s) xs")
  define t where "t = s\<lparr>bs_prev := rest\<rparr>"
  have it: "BatchSampler_iter s xs = (t, zs, None)"
    using Cons.prems(1) by (auto simp: BatchSampler_iter_loop [OF l] t_def)
  obtain us where rest': "BatchSampler_epochs t iss = (s', us)" and ys: "ys = zs @ us"
    using Cons.prems(3) it by (auto split: prod.splits)
  have len: "\<forall>y \<in> set zs. int (length y) = bs_batch_size s" "int (length rest) < bs_batch_size s"
    using batch_loop_lengths [OF l Cons.prems(2)] by auto
  have "concat us @ bs_prev s' = bs_prev t @ concat iss
    \<and> (\<forall>y \<in> set us. int (length y) = bs_batch_size t)
    \<and> int (length (bs_prev s')) < bs_batch_size t"
    using Cons.IH [OF _ _ rest'] Cons.prems(1) len(2) by (simp add: t_def)
  with batch_loop_concat [OF l] len ys show ?case by (auto simp: t_def)
qed

theorem BatchSampler_rollover_conserves_witness:
  "BatchSampler_epochs (BatchSampler_init 3 ''rollover'') [[0..3], [4..7], [8..11 :: int]]
     = (BatchSampler_init 3 ''rollover'', [[0,1,2],[3,4,5],[6,7,8],[9,10,11]])
   \<and> concat [[0,1,2],[3,4,5],[6,7,8],[9,10,11 :: int]] @ [] = [] @ concat [[0..3], [4..7], [8..11]]"
proof -
  have run: "BatchSampler_epochs (BatchSampler_init 3 ''rollover'') [[0..3], [4..7], [8..11 :: int]]
     = (BatchSampler_init 3 ''rollover'', [[0,1,2],[3,4,5],[6,7,8],[9,10,11]])"
    by code_simp
  show ?thesis
    using run BatchSampler_rollover_conserves [OF _ _ run] by (simp add: BatchSampler_init_def)
qed

text \<open>
  With \<open>keep\<close> a sampler yields the consecutive blocks of the source's items; with
  \<open>discard\<close> those of them that are full.  Both leave the sampler as it was.
\<close>

theorem BatchSampler_iter_blocks:
  assumes "0 < bs_batch_size s" and "bs_prev s = []"
  shows "(bs_last_batch s = ''keep'' \<longrightarrow>
            BatchSampler_iter s is = (s, chunks (nat (bs_batch_size s)) is, None))
    \<and> (bs_last_batch s = ''discard'' \<longrightarrow>
            BatchSampler_iter s is =
              (s, filter (\<lambda>b. int (length b) = bs_batch_size s) (chunks (nat (bs_batch_size s)) is), None))"
proof -
  obtain ys rest where l: "batch_loop (bs_batch_size s) (bs_prev s) is = (ys, rest)"
    by (cases "batch_loop (bs_batch_size s) (bs_prev s) is")
  have small: "int (length (bs_prev s)) < bs_batch_size s" using assms by simp
  have same: "s\<lparr>bs_prev := []\<rparr> = s" using assms(2) by (cases s) simp
  have "chunks (nat (bs_batch_size s)) is = ys @ (if rest = [] then [] else [rest])"
    using batch_loop_chunks [OF small l] assms(2) by simp
  moreover have "filter (\<lambda>b. int (length b) = bs_batch_size s) ys = ys"
    and "int (length rest) < bs_batch_size s"
    using batch_loop_lengths [OF l small] by (auto simp: filter_id_conv)
  ultimately show ?thesis
    by (auto simp: BatchSampler_iter_loop [OF l] same)
qed

theorem BatchSampler_iter_blocks_witness:
  "BatchSampler_iter (BatchSampler_init 3 ''discard'') [0..9 :: int]
     = (BatchSampler_init 3 ''discard'', [[0,1,2],[3,4,5],[6,7,8]], None)"
proof -
  have "filter (\<lambda>b. int (length b) = 3) (chunks (nat 3) [0..9 :: int]) = [[0,1,2],[3,4,5],[6,7,8]]"
    by code_simp
  then show ?thesis
    using BatchSampler_iter_blocks [of "BatchSampler_init 3 ''discard''" "[0..9 :: int]"]
    by (simp add: BatchSampler_init_def)
qed

text \<open>
  \<open>IntervalSampler\<close> with \<open>rollover\<close> visits every index below its length exactly once, for
  every interval its constructor accepts that is positive.
\<close>

theorem IntervalSampler_rollover_perm:
  assumes "IntervalSampler_init n k True = Inr s" and "0 < k"
  shows "\<exists>xs. IntervalSampler_iter s = Inr xs \<and> mset xs = mset (py_range (IntervalSampler_len s))"
proof -
  have s: "is_length s = n" "is_interval s = k" "is_rollover s" and "k \<le> n"
    using assms(1) by (auto simp: IntervalSampler_init_def split: if_splits)
  then have "is_rollover s \<and> 0 < is_interval s \<and> is_interval s \<le> is_length s"
    using assms(2) by simp
  from interval.sample_perm [OF this] IntervalSampler_iter_rollover [of s] s assms(2)
  show ?thesis by simp
qed

theorem IntervalSampler_rollover_perm_witness:
  "\<exists>s. IntervalSampler_init 13 3 True = Inr s
     \<and> (\<exists>xs. IntervalSampler_iter s = Inr xs \<and> mset xs = mset (py_range (IntervalSampler_len s)))"
  using IntervalSampler_rollover_perm [of 13 3] by (simp add: IntervalSampler_init_def)

text \<open>
   Without \<open>rollover\<close> the sampler yields only \<open>\<lceil>length / interval\<rceil>\<close> indices, while
  \<open>__len__\<close> still answers \<open>length\<close>: for every interval above one the two differ.
\<close>

theorem IntervalSampler_len_overstates:
  assumes "IntervalSampler_init n k False = Inr s" and "1 < k"
  shows "\<exists>xs. IntervalSampler_iter s = Inr xs
    \<and> int (length xs) = (n + k - 1) div k \<and> int (length xs) < IntervalSampler_len s"
proof -
  have s: "is_length s = n" "is_interval s = k" "\<not> is_rollover s" and kn: "k \<le> n"
    using assms(1) by (auto simp: IntervalSampler_init_def split: if_splits)
  have "py_range 1 = [0]" by (simp add: py_range_def)
  then have it: "IntervalSampler_iter s = Inr (stride n k 0)"
    using s assms(2) by (simp add: IntervalSampler_iter_def py_range3_stride)
  have nn: "0 \<le> (n + k - 1) div k" using assms(2) kn by (simp add: pos_imp_zdiv_nonneg_iff)
  have "\<not> n - 1 < (n + k - 1) div k"
  proof -
    have "n - 1 < (n + k - 1) div k \<longleftrightarrow> (n - 1) * k < n" using ceil_div_less [of k "n - 1" n] assms(2) by simp
    moreover have "n \<le> (n - 1) * 2" using assms(2) kn by simp
    moreover have "(n - 1) * 2 \<le> (n - 1) * k" using assms(2) kn by (intro mult_left_mono) auto
    ultimately show ?thesis by linarith
  qed
  with it nn s show ?thesis by (simp add: length_stride IntervalSampler_len_def)
qed

theorem IntervalSampler_len_overstates_witness:
  "\<exists>s xs. IntervalSampler_init 13 3 False = Inr s \<and> IntervalSampler_iter s = Inr xs
     \<and> int (length xs) = (13 + 3 - 1) div 3 \<and> int (length xs) < IntervalSampler_len s"
  using IntervalSampler_len_overstates [of 13 3] by (simp add: IntervalSampler_init_def)

text \<open>
  A data loader with \<open>shuffle=True\<close> and the default \<open>keep\<close> sees every sample exactly once
  per epoch, whatever permutation \<open>numpy.random.shuffle\<close> chooses, in non-empty batches of at most
  \<open>batch_size\<close>.
\<close>

theorem RandomSampler_batches_cover:
  assumes "\<forall>xs. mset (shuffle xs) = mset xs" and "0 < n"
  shows "\<exists>ys. BatchSampler_iter (BatchSampler_init n ''keep'') (RandomSampler_iter shuffle len)
               = (BatchSampler_init n ''keep'', ys, None)
    \<and> mset (concat ys) = mset (py_range (RandomSampler_len len))
    \<and> (\<forall>y \<in> set ys. y \<noteq> [] \<and> int (length y) \<le> n)"
  using random.keep_covers [of "(shuffle, len)" n] assms by simp

theorem RandomSampler_batches_cover_witness:
  "\<exists>ys. BatchSampler_iter (BatchSampler_init 4 ''keep'') (RandomSampler_iter rev 10)
               = (BatchSampler_init 4 ''keep'', ys, None)
    \<and> mset (concat ys) = mset (py_range (RandomSampler_len 10))
    \<and> (\<forall>y \<in> set ys. y \<noteq> [] \<and> int (length y) \<le> 4)"
  by (rule RandomSampler_batches_cover) simp_all

end
