(* ===== verification/NDArray_Index.thy ===== *)
theory NDArray_Index
  imports Prelude
begin

text \<open>
  The index arithmetic of \<open>python/mxnet/ndarray/ndarray.py\<close>: which elements a slice selects,
  how many there are, which shapes broadcast, and slicing along the first axis as
  \<open>x[start:stop]\<close> does it.

  An index or slice bound that may be \<open>None\<close> is an \<open>int option\<close>.  An array seen along its first
  axis is the list of its rows; the native \<open>MXNDArraySlice\<close> (\<open>NDArray::Slice\<close> of
  \<open>src/ndarray/ndarray.cc\<close>) checks \<open>begin \<le> end\<close> and \<open>end \<le> shape[0]\<close> and returns the rows between.
\<close>

definition get_index_range ::
  "int option \<Rightarrow> int option \<Rightarrow> int \<Rightarrow> int option \<Rightarrow> (int \<times> int \<times> int) result" where
  "get_index_range start stop len step =
     (if step = Some 0 then Inl ValueError
      else if len < 0 then Inl ValueError
      else
       (let step = (case step of None \<Rightarrow> 1 | Some s \<Rightarrow> s) in
        rbind (case start of
                 None \<Rightarrow> Inr (if 0 < step then 0 else len - 1)
               | Some a \<Rightarrow>
                   if a < 0 then (if a + len < 0 then Inl IndexError else Inr (a + len))
                   else if len \<le> a then Inl IndexError
                   else Inr a)
         (\<lambda>start.
        rbind (case stop of
                 None \<Rightarrow> Inr (if 0 < step then len else - 1)
               | Some b \<Rightarrow>
                   if b < 0 then (if b + len < 0 then Inl IndexError else Inr (b + len))
                   else if len < b then Inl IndexError
                   else Inr b)
         (\<lambda>stop. Inr (start, stop, step)))))"

definition get_dim_size :: "int \<Rightarrow> int \<Rightarrow> int \<Rightarrow> int result" where
  "get_dim_size start stop step =
     (if step = 0 then Inl AssertionError
      else if 0 < step
      then (if start < stop then Inr ((stop - start - 1) div step + 1) else Inl AssertionError)
      else (if stop < start then Inr ((start - stop - 1) div (- step) + 1) else Inl AssertionError))"

definition get_oshape_of_gather_nd_op :: "nat list \<Rightarrow> nat list \<Rightarrow> nat list result" where
  "get_oshape_of_gather_nd_op dshape ishape =
     (if dshape = [] \<or> ishape = [] then Inl AssertionError
      else Inr (tl ishape @ (if hd ishape < length dshape then drop (hd ishape) dshape else [])))"

text \<open>
  The loop of \<open>_get_broadcast_shape\<close> walks both shapes from the last axis and overwrites
  \<open>shape[i]\<close>, \<open>i\<close> counting down from the last axis of the longer one.
\<close>

fun broadcast_loop :: "nat list \<Rightarrow> nat \<Rightarrow> (nat \<times> nat) list \<Rightarrow> nat list result" where
  "broadcast_loop shape i [] = Inr shape"
| "broadcast_loop shape i ((a, b) # ps) =
     (if a \<noteq> 1 \<and> b \<noteq> 1 \<and> a \<noteq> b then Inl ValueError
      else broadcast_loop (shape[i := max a b]) (i - 1) ps)"

definition get_broadcast_shape :: "nat list \<Rightarrow> nat list \<Rightarrow> nat list result" where
  "get_broadcast_shape shape1 shape2 =
     (if shape1 = shape2 then Inr shape1
      else broadcast_loop (if length shape2 < length shape1 then shape1 else shape2)
             (max (length shape1) (length shape2) - 1) (zip (rev shape1) (rev shape2)))"

text \<open>\<open>x[start:stop]\<close> along the first axis: \<open>NDArray._slice\<close>.\<close>

definition nd_slice :: "'a list \<Rightarrow> int option \<Rightarrow> int option \<Rightarrow> 'a list result" where
  "nd_slice rows start stop =
     rbind (get_index_range start stop (int (length rows)) (Some 1)) (\<lambda>(a, b, _).
       if a \<le> b then Inr (take (nat (b - a)) (drop (nat a) rows)) else Inl MXNetError)"

text \<open>\<open>x[i]\<close> for an integer: \<open>_get_nd_basic_indexing\<close>'s first branch and \<open>NDArray._at\<close>.\<close>

definition nd_at :: "'a list \<Rightarrow> int \<Rightarrow> 'a result" where
  "nd_at rows key =
     (if int (length rows) - 1 < key then Inl IndexError
      else if key < 0
      then (if key + int (length rows) < 0 then Inl IndexError
            else Inr (rows ! nat (key + int (length rows))))
      else Inr (rows ! nat key))"

section \<open>Lemmas\<close>

lemma nd_slice_range:
  assumes "0 \<le> a" and "a \<le> b" and "b \<le> int (length rows)" and "a < int (length rows)"
  shows "nd_slice rows (Some a) (Some b) = Inr (take (nat b - nat a) (drop (nat a) rows))"
  using assms by (simp add: nd_slice_def get_index_range_def nat_diff_distrib)

lemma nd_slice_stop_beyond:
  assumes "0 \<le> a" and "a < int (length rows)" and "int (length rows) < b"
  shows "nd_slice rows (Some a) (Some b) = Inl IndexError"
  using assms by (simp add: nd_slice_def get_index_range_def)

lemma nd_slice_start_beyond:
  assumes "int (length rows) \<le> a" and "0 \<le> a"
  shows "nd_slice rows (Some a) (Some b) = Inl IndexError"
  using assms by (simp add: nd_slice_def get_index_range_def)


text \<open>The shape two shapes broadcast to, from the last axis: the reference definition.\<close>

fun bcast_rev :: "nat list \<Rightarrow> nat list \<Rightarrow> nat list result" where
  "bcast_rev [] ys = Inr ys"
| "bcast_rev xs [] = Inr xs"
| "bcast_rev (a # xs) (b # ys) =
     (if a = b \<or> a = 1 \<or> b = 1
      then rbind (bcast_rev xs ys) (\<lambda>zs. Inr (max a b # zs))
      else Inl ValueError)"

lemma bcast_rev_self: "bcast_rev xs xs = Inr xs"
  by (induction xs) auto

lemma bcast_rev_Nil2 [simp]: "bcast_rev xs [] = Inr xs"
  by (cases xs) auto

lemma bcast_rev_comm: "bcast_rev xs ys = bcast_rev ys xs"
  by (induction xs ys rule: bcast_rev.induct) (auto simp: max.commute)

lemma broadcast_loop_first:
  "length r2 \<le> length r1 \<Longrightarrow>
   broadcast_loop (rev r1 @ d) (length r1 - 1) (zip r1 r2)
     = rbind (bcast_rev r1 r2) (\<lambda>zs. Inr (rev zs @ d))"
proof (induction r1 arbitrary: r2 d)
  case Nil
  then show ?case by simp
next
  case (Cons a xs)
  show ?case
  proof (cases r2)
    case Nil
    then show ?thesis by simp
  next
    case r2: (Cons b ys)
    have "(rev xs @ a # d)[length xs := max a b] = rev xs @ max a b # d"
      by (simp add: list_update_append)
    then show ?thesis using Cons r2 by simp
  qed
qed

lemma broadcast_loop_second:
  "length r1 \<le> length r2 \<Longrightarrow>
   broadcast_loop (rev r2 @ d) (length r2 - 1) (zip r1 r2)
     = rbind (bcast_rev r1 r2) (\<lambda>zs. Inr (rev zs @ d))"
proof (induction r2 arbitrary: r1 d)
  case Nil
  then show ?case by simp
next
  case (Cons b ys)
  show ?case
  proof (cases r1)
    case Nil
    then show ?thesis by simp
  next
    case r1: (Cons a xs)
    have "(rev ys @ b # d)[length ys := max a b] = rev ys @ max a b # d"
      by (simp add: list_update_append)
    then show ?thesis using Cons r1 by simp
  qed
qed

lemma step_count:
  fixes m s :: int
  assumes "0 < s" and "0 < m"
  shows "(m - 1) div s + 1 = (m + s - 1) div s"
proof -
  have "(m + s - 1) div s = ((m - 1) + 1 * s) div s" by (simp add: algebra_simps)
  also have "\<dots> = 1 + (m - 1) div s" using assms(1) by (intro div_mult_self1) simp
  finally show ?thesis by simp
qed

section \<open>Properties\<close>

text \<open>
   Broadcasting of shapes follows the rule that axes are aligned from the last one, an axis
  of one shape must equal the other's or one of them be 1, and missing axes are filled from the
  longer shape; in particular the order of the two shapes does not matter.
\<close>

theorem get_broadcast_shape_rule:
  "get_broadcast_shape s1 s2 = rbind (bcast_rev (rev s1) (rev s2)) (\<lambda>zs. Inr (rev zs))
   \<and> get_broadcast_shape s1 s2 = get_broadcast_shape s2 s1"
proof -
  have rule: "get_broadcast_shape a b = rbind (bcast_rev (rev a) (rev b)) (\<lambda>zs. Inr (rev zs))" for a b
  proof (cases "a = b")
    case True
    then show ?thesis by (simp add: get_broadcast_shape_def bcast_rev_self)
  next
    case False
    with broadcast_loop_first [of "rev b" "rev a" "[]"] broadcast_loop_second [of "rev a" "rev b" "[]"]
    show ?thesis by (auto simp: get_broadcast_shape_def max_def)
  qed
  show ?thesis unfolding rule using bcast_rev_comm by metis
qed

text \<open>
   A slice normalised by \<open>_get_index_range\<close> that \<open>_get_dim_size\<close> accepts selects exactly
  \<open>_get_dim_size\<close> elements, all of them inside the axis.
\<close>

theorem slice_size_and_bounds:
  assumes "get_index_range start stop len step = Inr (a, b, s)"
    and "get_dim_size a b s = Inr d"
  shows "\<exists>xs. py_range3 a b s = Inr xs \<and> int (length xs) = d \<and> (\<forall>x \<in> set xs. 0 \<le> x \<and> x < len)"
proof -
  have s0: "s \<noteq> 0" and a: "0 \<le> a \<or> s < 0" "a < len \<or> 0 < s" "0 \<le> len"
    and b: "- 1 \<le> b" "b \<le> len" "0 \<le> b \<or> s < 0" "a < len"
    using assms by (auto simp: get_index_range_def get_dim_size_def Let_def
        split: if_splits option.splits)
  show ?thesis
  proof (cases "0 < s")
    case True
    then have ab: "a < b" and d: "d = (b - a - 1) div s + 1"
      using assms(2) by (auto simp: get_dim_size_def split: if_splits)
    define xs where "xs = map (\<lambda>k. a + int k * s) [0..<nat ((b - a + s - 1) div s)]"
    have "py_range3 a b s = Inr xs" using True by (simp add: py_range3_def xs_def)
    moreover have "int (length xs) = d"
      using d step_count [OF True, of "b - a"] ab True by (simp add: xs_def pos_imp_zdiv_nonneg_iff)
    moreover have "0 \<le> x \<and> x < len" if x: "x \<in> set xs" for x
    proof -
      obtain k where k: "k < nat ((b - a + s - 1) div s)" "x = a + int k * s"
        using x by (auto simp: xs_def)
      then have "int k * s < b - a" using ceil_div_less [OF True, of "int k" "b - a"]
        by (simp add: zless_nat_eq_int_zless)
      moreover have "0 \<le> int k * s" using True by simp
      ultimately show ?thesis using k(2) a b True by linarith
    qed
    ultimately show ?thesis by blast
  next
    case False
    with s0 have neg: "0 < - s" by simp
    then have ab: "b < a" and d: "d = (a - b - 1) div (- s) + 1"
      using assms(2) by (auto simp: get_dim_size_def split: if_splits)
    define xs where "xs = map (\<lambda>k. a + int k * s) [0..<nat ((a - b - s - 1) div (- s))]"
    have "py_range3 a b s = Inr xs" using False s0 by (simp add: py_range3_def xs_def)
    moreover have "int (length xs) = d"
      using d step_count [OF neg, of "a - b"] ab neg by (simp add: xs_def pos_imp_zdiv_nonneg_iff)
    moreover have "0 \<le> x \<and> x < len" if x: "x \<in> set xs" for x
    proof -
      obtain k where k: "k < nat ((a - b + - s - 1) div (- s))" "x = a + int k * s"
        using x by (auto simp: xs_def)
      then have "int k * (- s) < a - b" using ceil_div_less [OF neg, of "int k" "a - b"]
        by (simp add: zless_nat_eq_int_zless)
      moreover have "0 \<le> int k * (- s)" using neg by (intro mult_nonneg_nonneg) auto
      ultimately show ?thesis using k(2) a b neg by linarith
    qed
    ultimately show ?thesis by blast
  qed
qed

theorem slice_size_and_bounds_witness:
  "\<exists>xs. py_range3 5 (- 1) (- 2) = Inr xs \<and> int (length xs) = 3 \<and> (\<forall>x \<in> set xs. 0 \<le> x \<and> x < 6)"
  by (rule slice_size_and_bounds [of None None 6 "Some (- 2)"])
    (simp_all add: get_index_range_def get_dim_size_def)

end
