(* ===== verification/Py_Text.thy ===== *)
theory Py_Text
  imports Prelude
begin

text \<open>
  Python's text operations as far as the library uses them: decimal numbers (\<open>str\<close> and \<open>int\<close>),
  \<open>str.strip\<close>, \<open>str.split\<close> with a separator character, \<open>str.lower\<close>, and reading a file line by line.  \<open>int\<close> takes an
  optional sign and decimal digits; the digit separator of newer Pythons is not modelled.
\<close>

section \<open>Decimal numbers\<close>

definition digit :: "nat \<Rightarrow> char" where
  "digit d = char_of (48 + d)"

fun str_of_nat :: "nat \<Rightarrow> string" where
  "str_of_nat n = (if n < 10 then [digit n] else str_of_nat (n div 10) @ [digit (n mod 10)])"

declare str_of_nat.simps [simp del]

definition str_of_int :: "int \<Rightarrow> string" where
  "str_of_int i = (if i < 0 then CHR ''-'' # str_of_nat (nat (- i)) else str_of_nat (nat i))"

definition digit_val :: "char \<Rightarrow> nat option" where
  "digit_val c =
     (let n = of_char c :: nat in if 48 \<le> n \<and> n \<le> 57 then Some (n - 48) else None)"

fun parse_digits :: "nat \<Rightarrow> string \<Rightarrow> nat option" where
  "parse_digits acc [] = Some acc"
| "parse_digits acc (c # cs) =
     (case digit_val c of None \<Rightarrow> None | Some d \<Rightarrow> parse_digits (10 * acc + d) cs)"

definition parse_nat :: "string \<Rightarrow> nat result" where
  "parse_nat s =
     (if s = [] then Inl ValueError
      else case parse_digits 0 s of None \<Rightarrow> Inl ValueError | Some n \<Rightarrow> Inr n)"

definition is_space :: "char \<Rightarrow> bool" where
  "is_space c = (let n = of_char c :: nat in n = 32 \<or> (9 \<le> n \<and> n \<le> 13))"

definition py_strip :: "string \<Rightarrow> string" where
  "py_strip s = rev (dropWhile is_space (rev (dropWhile is_space s)))"

definition py_int :: "string \<Rightarrow> int result" where
  "py_int s =
     (case py_strip s of
        [] \<Rightarrow> Inl ValueError
      | c # cs \<Rightarrow>
          if c = CHR ''-'' then rbind (parse_nat cs) (\<lambda>n. Inr (- int n))
          else if c = CHR ''+'' then rbind (parse_nat cs) (\<lambda>n. Inr (int n))
          else rbind (parse_nat (c # cs)) (\<lambda>n. Inr (int n)))"

section \<open>Splitting\<close>

fun py_split :: "char \<Rightarrow> string \<Rightarrow> string list" where
  "py_split sep [] = [[]]"
| "py_split sep (c # cs) =
     (if c = sep then [] # py_split sep cs
      else (case py_split sep cs of [] \<Rightarrow> [[c]] | w # ws \<Rightarrow> (c # w) # ws))"

definition tab :: char where "tab = char_of (9 :: nat)"
definition newline :: char where "newline = char_of (10 :: nat)"

text \<open>\<open>str.lower\<close> on ASCII text.\<close>

definition lower_char :: "char \<Rightarrow> char" where
  "lower_char c = (let n = of_char c :: nat in if 65 \<le> n \<and> n \<le> 90 then char_of (n + 32) else c)"

definition lower :: "string \<Rightarrow> string" where
  "lower s = map lower_char s"

text \<open>\<open>iter(f.readline, '')\<close>: the lines with their newlines; the last one may lack it.\<close>

function py_lines :: "string \<Rightarrow> string list" where
  "py_lines s =
     (if s = [] then []
      else let line = takeWhile (\<lambda>c. c \<noteq> newline) s;
               rest = dropWhile (\<lambda>c. c \<noteq> newline) s
           in case rest of
                [] \<Rightarrow> [line]
              | nl # rest' \<Rightarrow> (line @ [nl]) # py_lines rest')"
  by pat_completeness auto
termination
proof (relation "measure length")
  fix s line rest nl rest' 
  assume "s \<noteq> []" and rest: "rest = dropWhile (\<lambda>c. c \<noteq> newline) s" "rest = nl # rest'"
  then have "length (nl # rest') \<le> length s" by (metis length_dropWhile_le)
  then show "(rest', s) \<in> measure length" by simp
qed simp

declare py_lines.simps [simp del]

section \<open>Printing and parsing numbers\<close>

lemma of_char_digit [simp]: "d < 10 \<Longrightarrow> of_char (digit d) = 48 + d"
  by (simp add: digit_def of_char_of)

lemma digit_val_digit [simp]: "d < 10 \<Longrightarrow> digit_val (digit d) = Some d"
  by (simp add: digit_val_def)

lemma parse_digits_append:
  "parse_digits acc (xs @ ys)
     = (case parse_digits acc xs of None \<Rightarrow> None | Some a \<Rightarrow> parse_digits a ys)"
  by (induction xs arbitrary: acc) (auto split: option.splits)

lemma parse_str_of_nat: "parse_digits 0 (str_of_nat n) = Some n"
proof (induction n rule: str_of_nat.induct)
  case (1 n)
  then show ?case
    by (subst str_of_nat.simps) (auto simp: parse_digits_append)
qed

definition digit_char :: "char \<Rightarrow> bool" where
  "digit_char c \<longleftrightarrow> (\<exists>d < 10. c = digit d)"

lemma digit_char_digit [simp]: "d < 10 \<Longrightarrow> digit_char (digit d)"
  by (auto simp: digit_char_def)

lemma str_of_nat_digits: "\<forall>c \<in> set (str_of_nat n). digit_char c"
proof (induction n rule: str_of_nat.induct)
  case (1 n)
  then show ?case
    by (subst str_of_nat.simps) auto
qed

lemma str_of_nat_not_Nil [simp]: "str_of_nat n \<noteq> []"
  by (subst str_of_nat.simps) simp

lemma digit_char_facts:
  assumes "digit_char c"
  shows "\<not> is_space c" "c \<noteq> CHR ''-''" "c \<noteq> CHR ''+''" "c \<noteq> tab" "c \<noteq> newline"
proof -
  from assms obtain d where d: "d < 10" "c = digit d" by (auto simp: digit_char_def)
  then have n: "of_char c = 48 + d" "48 + d < (58::nat)" by simp_all
  show "\<not> is_space c" using n by (simp add: is_space_def Let_def)
  have "of_char (CHR ''-'') = (45::nat)" "of_char (CHR ''+'') = (43::nat)"
    "of_char tab = (9::nat)" "of_char newline = (10::nat)"
    by (simp_all add: tab_def newline_def of_char_of)
  then show "c \<noteq> CHR ''-''" "c \<noteq> CHR ''+''" "c \<noteq> tab" "c \<noteq> newline"
    using n by auto
qed

lemma dropWhile_none: "\<forall>c \<in> set s. \<not> P c \<Longrightarrow> dropWhile P s = s"
  by (cases s) auto

lemma py_strip_id: "\<forall>c \<in> set s. \<not> is_space c \<Longrightarrow> py_strip s = s"
  by (simp add: py_strip_def dropWhile_none)

lemma minus_not_space [simp]: "\<not> is_space (CHR ''-'')"
  by (simp add: is_space_def)

lemma tab_newline_space [simp]: "is_space tab" "is_space newline"
  by (simp_all add: is_space_def tab_def newline_def of_char_of)

lemma newline_not_tab [simp]: "newline \<noteq> tab" "tab \<noteq> newline"
proof -
  have "of_char newline \<noteq> (of_char tab :: nat)" by (simp add: tab_def newline_def of_char_of)
  then show "newline \<noteq> tab" "tab \<noteq> newline" by auto
qed

text \<open>The characters of a printed integer.\<close>

lemma str_of_int_chars:
  assumes "c \<in> set (str_of_int i)"
  shows "\<not> is_space c" "c \<noteq> tab" "c \<noteq> newline"
proof -
  have "c = CHR ''-'' \<or> digit_char c"
    using assms str_of_nat_digits by (auto simp: str_of_int_def split: if_splits)
  then show "\<not> is_space c" using digit_char_facts(1) [of c] by auto
  then show "c \<noteq> tab" "c \<noteq> newline" by auto
qed

lemma str_of_int_separators [simp]: "tab \<notin> set (str_of_int i)" "newline \<notin> set (str_of_int i)"
  using str_of_int_chars(2,3) by blast+

lemma py_int_str: "py_int (str_of_int i) = Inr i"
proof -
  have strip: "py_strip (str_of_int i) = str_of_int i"
    using str_of_int_chars(1) by (intro py_strip_id) blast
  have parse: "parse_nat (str_of_nat n) = Inr n" for n
    by (simp add: parse_nat_def parse_str_of_nat)
  show ?thesis
  proof (cases "i < 0")
    case True
    then show ?thesis using parse by (simp add: py_int_def strip) (simp add: str_of_int_def)
  next
    case False
    obtain c cs where c: "str_of_nat (nat i) = c # cs" by (cases "str_of_nat (nat i)") auto
    have "digit_char c" using str_of_nat_digits [of "nat i"] c by simp
    with digit_char_facts(2,3) [of c] parse [of "nat i"] False c show ?thesis
      by (simp add: py_int_def strip) (simp add: str_of_int_def)
  qed
qed

section \<open>Lines and fields\<close>

lemma py_split_none: "sep \<notin> set s \<Longrightarrow> py_split sep s = [s]"
  by (induction s) auto

lemma py_split_field: "sep \<notin> set s \<Longrightarrow> py_split sep (s @ sep # t) = s # py_split sep t"
  by (induction s) auto

lemma py_lines_cons:
  assumes "newline \<notin> set line"
  shows "py_lines (line @ newline # rest) = (line @ [newline]) # py_lines rest"
proof -
  have "takeWhile (\<lambda>c. c \<noteq> newline) (line @ newline # rest) = line"
    "dropWhile (\<lambda>c. c \<noteq> newline) (line @ newline # rest) = newline # rest"
    using assms by (auto simp: takeWhile_append dropWhile_append takeWhile_eq_all_conv
        dropWhile_eq_Nil_conv)
  then show ?thesis by (subst py_lines.simps) simp
qed

lemma py_lines_Nil [simp]: "py_lines [] = []"
  by (simp add: py_lines.simps)

lemma py_strip_line:
  assumes "s \<noteq> []" and "\<not> is_space (hd s)" and "\<not> is_space (last s)" and "is_space nl"
  shows "py_strip (s @ [nl]) = s"
proof -
  have "dropWhile is_space (s @ [nl]) = s @ [nl]" using assms(1,2) by (cases s) auto
  moreover have "dropWhile is_space (rev s) = rev s"
    using assms(1,3) by (cases "rev s") (auto simp: last_rev hd_rev dest: arg_cong [of _ _ last]
        split: if_splits simp flip: hd_rev)
  ultimately show ?thesis using assms(4) by (simp add: py_strip_def)
qed

end
