(* ===== verification/Data_Iters.thy ===== *)
theory Data_Iters
  imports NDArray_Index Py_Text "HOL-Library.List_Lexorder" "HOL-Library.Char_ord"
begin

text \<open>
  The in-memory data iterator of \<open>python/mxnet/io/io.py\<close> and its helpers in \<open>io/utils.py\<close>.

  An array (\<open>'a nd\<close>) is the list of its rows along the first axis with the shape of a row, the
  element type and the storage kind.  \<open>NDArrayIter\<close> is the record \<open>ndarray_iter\<close> with the fields of
  the Python object; every method is a function from that state to an \<open>outcome\<close>.  The
  configuration is the one without \<open>h5py\<close> (the \<open>h5py = None\<close> branch of both modules).

  Two things come from outside: \<open>np.random.shuffle\<close>, whose \<open>k\<close>-th call is \<open>shuf k\<close> (the field
  \<open>draws\<close> counts the calls), and the native copy that converts a row to \<open>float32\<close>, the parameter
  \<open>cast\<close>, indexed by the element type the row had.
\<close>

section \<open>Arrays, descriptors and batches\<close>

datatype storage = Dense | CSR

record 'a nd =
  rows :: "'a list"
  item :: "nat list"
  dtype :: string
  stype :: storage

record data_desc =
  dd_name :: string
  dd_shape :: "int list"
  dd_dtype :: string
  dd_layout :: "string option"

definition mx_real_t :: string where
  "mx_real_t = ''float32''"

definition DataDesc :: "string \<Rightarrow> int list \<Rightarrow> string \<Rightarrow> data_desc" where
  "DataDesc name shape dt =
     \<lparr> dd_name = name, dd_shape = shape, dd_dtype = dt, dd_layout = Some ''NCHW'' \<rparr>"

fun str_find :: "string \<Rightarrow> char \<Rightarrow> int" where
  "str_find [] c = - 1"
| "str_find (x # xs) c =
     (if x = c then 0 else (let r = str_find xs c in if r = - 1 then - 1 else r + 1))"

definition get_batch_axis :: "string option \<Rightarrow> int" where
  "get_batch_axis layout = (case layout of None \<Rightarrow> 0 | Some l \<Rightarrow> str_find l CHR ''N'')"

definition DataDesc_get_list ::
  "(string \<times> int list) list \<Rightarrow> (string \<times> string) list option \<Rightarrow> data_desc list result" where
  "DataDesc_get_list shapes types =
     (case types of
        Some ts \<Rightarrow>
          mapM (\<lambda>(k, sh). rbind (dict_get (map_of (rev ts)) k) (\<lambda>dt. Inr (DataDesc k sh dt))) shapes
      | None \<Rightarrow> Inr (map (\<lambda>(k, sh). DataDesc k sh mx_real_t) shapes))"

record 'a data_batch =
  b_data :: "'a nd list"
  b_label :: "'a nd list"
  b_pad :: int

section \<open>Canonical form of the input\<close>

text \<open>
  What a caller may pass for one array, and for \<open>data\<close> or \<open>label\<close>.  \<open>ArrayLike\<close> is a numpy array
  or a nested sequence, which \<open>array(v)\<close> copies to a \<open>float32\<close> array; on an \<open>Opaque\<close> value
  \<open>array(v)\<close> raises.
\<close>

datatype 'a source_array = NDArr "'a nd" | ArrayLike "'a nd" | Opaque

datatype 'a source =
    NoSource
  | OneArray "'a source_array"
  | ArrayList "'a source_array list"
  | ArrayDict "(string \<times> 'a source_array) list"
  | OtherSource

definition nd_array :: "(string \<Rightarrow> 'a \<Rightarrow> 'a) \<Rightarrow> 'a nd \<Rightarrow> 'a nd" where
  "nd_array cast v = v\<lparr> rows := map (cast (dtype v)) (rows v), dtype := mx_real_t \<rparr>"

definition init_value :: "(string \<Rightarrow> 'a \<Rightarrow> 'a) \<Rightarrow> 'a source_array \<Rightarrow> 'a nd result" where
  "init_value cast v =
     (case v of NDArr a \<Rightarrow> Inr a | ArrayLike a \<Rightarrow> Inr (nd_array cast a) | Opaque \<Rightarrow> Inl TypeError)"

definition name_sources :: "'a source_array list \<Rightarrow> string \<Rightarrow> (string \<times> 'a source_array) list" where
  "name_sources ds default_name =
     (case ds of
        [d] \<Rightarrow> [(default_name, d)]
      | _ \<Rightarrow> map (\<lambda>(i, d). (''_'' @ str_of_nat i @ ''_'' @ default_name, d)) (enumerate 0 ds))"

definition init_dict ::
  "(string \<Rightarrow> 'a \<Rightarrow> 'a) \<Rightarrow> (string \<times> 'a source_array) list \<Rightarrow> (string \<times> 'a nd) list result" where
  "init_dict cast kvs =
     rbind (mapM (\<lambda>(k, v). rbind (init_value cast v) (\<lambda>a. Inr (k, a))) kvs)
       (\<lambda>items. Inr (sort_key fst items))"

definition init_data ::
  "(string \<Rightarrow> 'a \<Rightarrow> 'a) \<Rightarrow> 'a source \<Rightarrow> bool \<Rightarrow> string \<Rightarrow> (string \<times> 'a nd) list result" where
  "init_data cast data allow_empty default_name =
     (case data of
        NoSource \<Rightarrow>
          if allow_empty then init_dict cast (name_sources [] default_name)
          else Inl AssertionError
      | OneArray (NDArr a) \<Rightarrow> init_dict cast (name_sources [NDArr a] default_name)
      | OneArray (ArrayLike a) \<Rightarrow> init_dict cast (name_sources [ArrayLike a] default_name)
      | OneArray Opaque \<Rightarrow> Inl TypeError
      | ArrayList ds \<Rightarrow>
          if \<not> allow_empty \<and> ds = [] then Inl AssertionError
          else init_dict cast (name_sources ds default_name)
      | ArrayDict kvs \<Rightarrow> init_dict cast kvs
      | OtherSource \<Rightarrow> Inl TypeError)"

definition has_csr :: "(string \<times> 'a nd) list \<Rightarrow> bool" where
  "has_csr data = (\<exists>(k, v) \<in> set data. stype v = CSR)"

definition getdata_by_idx ::
  "(string \<Rightarrow> 'a \<Rightarrow> 'a) \<Rightarrow> (string \<times> 'a nd) list \<Rightarrow> nat list \<Rightarrow> (string \<times> 'a nd) list result" where
  "getdata_by_idx cast data idx =
     mapM (\<lambda>(k, v).
       rbind (mapM (\<lambda>i. py_get (rows v) (int i)) idx) (\<lambda>rs.
         let v' = v\<lparr> rows := rs \<rparr> in
         Inr (k, if stype v = CSR then v' else nd_array cast v'))) data"

section \<open>NDArrayIter\<close>

record 'a ndarray_iter =
  ni_data :: "(string \<times> 'a nd) list"
  ni_label :: "(string \<times> 'a nd) list"
  ni_idx :: "nat list"
  ni_shuffle :: bool
  last_batch_handle :: string
  batch_size :: int
  cursor :: int
  num_data :: int
  cache_data :: "'a nd list option"
  cache_label :: "'a nd list option"
  draws :: nat

definition shuffle_data ::
  "(string \<Rightarrow> 'a \<Rightarrow> 'a) \<Rightarrow> (nat \<Rightarrow> nat list \<Rightarrow> nat list) \<Rightarrow> 'a ndarray_iter \<Rightarrow>
   ('a ndarray_iter, unit) outcome" where
  "shuffle_data cast shuf s =
     (let idx = shuf (draws s) (ni_idx s);
          s1 = s\<lparr> ni_idx := idx, draws := draws s + 1 \<rparr>
      in case getdata_by_idx cast (ni_data s1) idx of
           Inl e \<Rightarrow> (s1, Inl e)
         | Inr d \<Rightarrow>
             (case getdata_by_idx cast (ni_label s1) idx of
                Inl e \<Rightarrow> (s1\<lparr> ni_data := d \<rparr>, Inl e)
              | Inr l \<Rightarrow> (s1\<lparr> ni_data := d, ni_label := l \<rparr>, Inr ())))"

definition NDArrayIter_reset ::
  "(string \<Rightarrow> 'a \<Rightarrow> 'a) \<Rightarrow> (nat \<Rightarrow> nat list \<Rightarrow> nat list) \<Rightarrow> 'a ndarray_iter \<Rightarrow>
   ('a ndarray_iter, unit) outcome" where
  "NDArrayIter_reset cast shuf s =
     sbind (if ni_shuffle s then shuffle_data cast shuf s else (s, Inr ())) (\<lambda>s _.
       if last_batch_handle s = ''roll_over''
          \<and> num_data s - batch_size s < cursor s \<and> cursor s < num_data s
       then (s\<lparr> cursor := cursor s - num_data s - batch_size s \<rparr>, Inr ())
       else (s\<lparr> cursor := - batch_size s \<rparr>, Inr ()))"

definition NDArrayIter_hard_reset ::
  "(string \<Rightarrow> 'a \<Rightarrow> 'a) \<Rightarrow> (nat \<Rightarrow> nat list \<Rightarrow> nat list) \<Rightarrow> 'a ndarray_iter \<Rightarrow>
   ('a ndarray_iter, unit) outcome" where
  "NDArrayIter_hard_reset cast shuf s =
     sbind (if ni_shuffle s then shuffle_data cast shuf s else (s, Inr ())) (\<lambda>s _.
       (s\<lparr> cursor := - batch_size s, cache_data := None, cache_label := None \<rparr>, Inr ()))"

text \<open>\<open>__init__\<close>; the object is only visible to the caller when it does not raise.\<close>

definition NDArrayIter_init ::
  "(string \<Rightarrow> 'a \<Rightarrow> 'a) \<Rightarrow> (nat \<Rightarrow> nat list \<Rightarrow> nat list) \<Rightarrow> 'a source \<Rightarrow> 'a source \<Rightarrow>
   int \<Rightarrow> bool \<Rightarrow> string \<Rightarrow> string \<Rightarrow> string \<Rightarrow> 'a ndarray_iter result" where
  "NDArrayIter_init cast shuf data label bs shuffle handle data_name label_name =
     rbind (init_data cast data False data_name) (\<lambda>d.
     rbind (init_data cast label True label_name) (\<lambda>l.
     if (has_csr d \<or> has_csr l) \<and> handle \<noteq> ''discard'' then Inl NotImplementedError
     else rbind (py_get d 0) (\<lambda>(_, v).
       let n = length (rows v);
           s = \<lparr> ni_data = d, ni_label = l, ni_idx = [0..<n], ni_shuffle = shuffle,
                 last_batch_handle = handle, batch_size = bs, cursor = - bs,
                 num_data = int n, cache_data = None, cache_label = None, draws = 0 \<rparr>
       in (case NDArrayIter_reset cast shuf s of
             (s', r) \<Rightarrow>
               rbind r (\<lambda>_. Inr (s'\<lparr> cache_data := None, cache_label := None \<rparr>))))))"

definition NDArrayIter_provide_data :: "'a ndarray_iter \<Rightarrow> data_desc list" where
  "NDArrayIter_provide_data s =
     map (\<lambda>(k, v). DataDesc k (batch_size s # map int (item v)) (dtype v)) (ni_data s)"

definition NDArrayIter_provide_label :: "'a ndarray_iter \<Rightarrow> data_desc list" where
  "NDArrayIter_provide_label s =
     map (\<lambda>(k, v). DataDesc k (batch_size s # map int (item v)) (dtype v)) (ni_label s)"

definition NDArrayIter_iter_next :: "'a ndarray_iter \<Rightarrow> 'a ndarray_iter \<times> bool" where
  "NDArrayIter_iter_next s =
     (let s = s\<lparr> cursor := cursor s + batch_size s \<rparr> in (s, cursor s < num_data s))"

definition getdata_range ::
  "(string \<times> 'a nd) list \<Rightarrow> int option \<Rightarrow> int option \<Rightarrow> 'a nd list result" where
  "getdata_range data_source start stop =
     (if start = None \<and> stop = None then Inl AssertionError
      else
       (let start = (case start of None \<Rightarrow> 0 | Some a \<Rightarrow> a);
            stop = (case stop of
                      None \<Rightarrow> (case data_source of [] \<Rightarrow> 0 | (_, v) # _ \<Rightarrow> int (length (rows v)))
                    | Some b \<Rightarrow> b)
        in mapM (\<lambda>(k, v). rbind (nd_slice (rows v) (Some start) (Some stop))
                   (\<lambda>rs. Inr (v\<lparr> rows := rs \<rparr>))) data_source))"

definition nd_concat :: "'a nd \<Rightarrow> 'a nd \<Rightarrow> 'a nd" where
  "nd_concat a b = a\<lparr> rows := rows a @ rows b \<rparr>"

definition concat_sources :: "'a nd list \<Rightarrow> 'a nd list \<Rightarrow> 'a nd list result" where
  "concat_sources first second =
     (if length first \<noteq> length second then Inl AssertionError
      else Inr (map (\<lambda>(a, b). nd_concat a b) (zip first second)))"

definition batchify ::
  "'a ndarray_iter \<Rightarrow> (string \<times> 'a nd) list \<Rightarrow> ('a ndarray_iter, 'a nd list) outcome" where
  "batchify s data_source =
     (if \<not> cursor s < num_data s then (s, Inl AssertionError)
      else if last_batch_handle s = ''roll_over'' \<and> - batch_size s < cursor s \<and> cursor s < 0
      then
       (case (cache_data s, cache_label s) of
          (None, None) \<Rightarrow> (s, Inl AssertionError)
        | (Some cache, _) \<Rightarrow>
            (case getdata_range data_source None (Some (cursor s + batch_size s)) of
               Inl e \<Rightarrow> (s, Inl e)
             | Inr second \<Rightarrow> (s\<lparr> cache_data := None \<rparr>, concat_sources cache second))
        | (None, Some cache) \<Rightarrow>
            (case getdata_range data_source None (Some (cursor s + batch_size s)) of
               Inl e \<Rightarrow> (s, Inl e)
             | Inr second \<Rightarrow> (s\<lparr> cache_label := None \<rparr>, concat_sources cache second)))
      else if last_batch_handle s = ''pad'' \<and> num_data s < cursor s + batch_size s
      then
       (s, rbind (getdata_range data_source (Some (cursor s)) None) (\<lambda>first.
           rbind (getdata_range data_source None
                    (Some (batch_size s - num_data s + cursor s))) (\<lambda>second.
           concat_sources first second)))
      else
       (s, getdata_range data_source (Some (cursor s))
             (Some (if cursor s + batch_size s < num_data s then cursor s + batch_size s
                    else num_data s))))"

definition NDArrayIter_getpad :: "'a ndarray_iter \<Rightarrow> int" where
  "NDArrayIter_getpad s =
     (if last_batch_handle s = ''pad'' \<and> num_data s < cursor s + batch_size s
      then cursor s + batch_size s - num_data s
      else if last_batch_handle s = ''roll_over'' \<and> - batch_size s < cursor s \<and> cursor s < 0
      then - cursor s
      else 0)"

definition NDArrayIter_next :: "'a ndarray_iter \<Rightarrow> ('a ndarray_iter, 'a data_batch) outcome" where
  "NDArrayIter_next s =
     (let (s, more) = NDArrayIter_iter_next s in
      if \<not> more then (s, Inl StopIteration)
      else
       sbind (batchify s (ni_data s)) (\<lambda>s data.
       sbind (batchify s (ni_label s)) (\<lambda>s label.
       case py_get data 0 of
         Inl e \<Rightarrow> (s, Inl e)
       | Inr d0 \<Rightarrow>
           if int (length (rows d0)) \<noteq> batch_size s
           then (s\<lparr> cache_data := Some data, cache_label := Some label \<rparr>, Inl StopIteration)
           else (s, Inr \<lparr> b_data = data, b_label = label, b_pad = NDArrayIter_getpad s \<rparr>))))"

section \<open>Well-formed iterators\<close>

text \<open>
  The sources have a common number of rows, which \<open>num_data\<close> records, and \<open>idx\<close> is a permutation of
  the row numbers.  \<open>cut v a b\<close> is rows \<open>a\<close> to \<open>b\<close> of a source.
\<close>

definition same_rows :: "nat \<Rightarrow> (string \<times> 'a nd) list \<Rightarrow> bool" where
  "same_rows n src = (\<forall>(k, v) \<in> set src. length (rows v) = n)"

definition ni_ok :: "nat \<Rightarrow> nat \<Rightarrow> 'a ndarray_iter \<Rightarrow> bool" where
  "ni_ok n bs s \<longleftrightarrow>
     ni_data s \<noteq> [] \<and> same_rows n (ni_data s) \<and> same_rows n (ni_label s)
     \<and> num_data s = int n \<and> batch_size s = int bs \<and> 0 < n \<and> 0 < bs
     \<and> mset (ni_idx s) = mset [0..<n]"

definition cut :: "nat \<Rightarrow> nat \<Rightarrow> 'a nd \<Rightarrow> 'a nd" where
  "cut a b v = v\<lparr> rows := take (b - a) (drop a (rows v)) \<rparr>"

definition cuts :: "nat \<Rightarrow> nat \<Rightarrow> (string \<times> 'a nd) list \<Rightarrow> 'a nd list" where
  "cuts a b src = map (cut a b \<circ> snd) src"

lemma rows_cut [simp]: "rows (cut a b v) = take (b - a) (drop a (rows v))"
  by (simp add: cut_def)

lemma length_cuts [simp]: "length (cuts a b src) = length src"
  by (simp add: cuts_def)

lemma cuts_nth [simp]: "j < length src \<Longrightarrow> cuts a b src ! j = cut a b (snd (src ! j))"
  by (simp add: cuts_def)

lemma same_rows_nth: "same_rows n src \<Longrightarrow> j < length src \<Longrightarrow> length (rows (snd (src ! j))) = n"
  by (force simp: same_rows_def dest: nth_mem)

lemma getdata_range_cuts:
  assumes "same_rows n src" and "0 \<le> a" and "a \<le> b" and "b \<le> int n" and "a < int n"
  shows "getdata_range src (Some a) (Some b) = Inr (cuts (nat a) (nat b) src)"
    and "getdata_range src None (Some b) = Inr (cuts 0 (nat b) src)"
proof -
  have "mapM (\<lambda>(k, v). rbind (nd_slice (rows v) (Some x) (Some b)) (\<lambda>rs. Inr (v\<lparr>rows := rs\<rparr>))) src
      = Inr (cuts (nat x) (nat b) src)" if "0 \<le> x" "x \<le> a" for x
    unfolding cuts_def using assms that
    by (intro mapM_Inr) (auto simp: same_rows_def nd_slice_range cut_def)
  from this [of a] this [of 0] assms
  show "getdata_range src (Some a) (Some b) = Inr (cuts (nat a) (nat b) src)"
    and "getdata_range src None (Some b) = Inr (cuts 0 (nat b) src)"
    by (simp_all add: getdata_range_def)
qed

lemma getdata_range_from:
  assumes "same_rows n src" and "0 \<le> a" and "a < int n"
  shows "getdata_range src (Some a) None = Inr (cuts (nat a) n src)"
proof (cases src)
  case Nil
  then show ?thesis by (simp add: getdata_range_def cuts_def)
next
  case (Cons kv src')
  then have "getdata_range src (Some a) None = getdata_range src (Some a) (Some (int n))"
    using assms(1) by (cases kv) (simp add: getdata_range_def same_rows_def)
  then show ?thesis using getdata_range_cuts(1) [OF assms(1,2), of "int n"] assms by simp
qed

lemma concat_sources_cuts:
  "concat_sources (cuts a b src) (cuts c d src)
     = Inr (map (\<lambda>(_, v). nd_concat (cut a b v) (cut c d v)) src)"
  by (auto simp: concat_sources_def cuts_def zip_map_map zip_same_conv_map)

lemma getpad_nonneg: "0 < batch_size s \<Longrightarrow> 0 \<le> NDArrayIter_getpad s"
  by (simp add: NDArrayIter_getpad_def)

section \<open>One call of next\<close>

definition full_batch :: "'a ndarray_iter \<Rightarrow> nat \<Rightarrow> nat \<Rightarrow> 'a data_batch" where
  "full_batch s a b =
     \<lparr> b_data = cuts a b (ni_data s), b_label = cuts a b (ni_label s), b_pad = 0 \<rparr>"

lemma ni_okD:
  assumes "ni_ok n bs s"
  shows "ni_data s \<noteq> []" "same_rows n (ni_data s)" "same_rows n (ni_label s)"
    "num_data s = int n" "batch_size s = int bs" "0 < n" "0 < bs"
    "length (rows (snd (ni_data s ! 0))) = n"
  using assms same_rows_nth [of n "ni_data s" 0] by (auto simp: ni_ok_def)

lemma ni_ok_cursor [simp]: "ni_ok n bs (s\<lparr> cursor := c \<rparr>) = ni_ok n bs s"
  by (simp add: ni_ok_def)

lemma ni_ok_cache [simp]:
  "ni_ok n bs (s\<lparr> cache_data := c \<rparr>) = ni_ok n bs s"
  "ni_ok n bs (s\<lparr> cache_label := l \<rparr>) = ni_ok n bs s"
  by (simp_all add: ni_ok_def)

lemma py_get_hd: "xs \<noteq> [] \<Longrightarrow> py_get xs 0 = Inr (xs ! 0)"
  by (simp add: py_get_def)

lemma next_end:
  assumes "num_data s \<le> cursor s + batch_size s"
  shows "NDArrayIter_next s = (s\<lparr> cursor := cursor s + batch_size s \<rparr>, Inl StopIteration)"
  using assms by (simp add: NDArrayIter_next_def NDArrayIter_iter_next_def)

text \<open>The three branches of \<open>_batchify\<close>, and \<open>next\<close> assembled from its two calls of it.\<close>

lemma batchify_roll:
  assumes "cursor s < num_data s" and "last_batch_handle s = ''roll_over''"
    and "- batch_size s < cursor s" and "cursor s < 0"
    and "getdata_range src None (Some (cursor s + batch_size s)) = Inr second"
  shows "cache_data s = Some cache \<Longrightarrow>
           batchify s src = (s\<lparr> cache_data := None \<rparr>, concat_sources cache second)"
    and "cache_data s = None \<Longrightarrow> cache_label s = Some cache \<Longrightarrow>
           batchify s src = (s\<lparr> cache_label := None \<rparr>, concat_sources cache second)"
  using assms by (simp_all add: batchify_def)

lemma batchify_pad:
  assumes "cursor s < num_data s" and "last_batch_handle s = ''pad''"
    and "num_data s < cursor s + batch_size s"
    and "getdata_range src (Some (cursor s)) None = Inr first"
    and "batch_size s - num_data s + cursor s = p"
    and "getdata_range src None (Some p) = Inr second"
  shows "batchify s src = (s, concat_sources first second)"
  using assms by (simp add: batchify_def)

lemma batchify_mid:
  assumes "cursor s < num_data s" and "0 \<le> cursor s"
    and "last_batch_handle s = ''pad'' \<Longrightarrow> cursor s + batch_size s \<le> num_data s"
    and "e = min (cursor s + batch_size s) (num_data s)"
    and "getdata_range src (Some (cursor s)) (Some e) = Inr d"
  shows "batchify s src = (s, Inr d)"
proof -
  have "(if cursor s + batch_size s < num_data s then cursor s + batch_size s
         else num_data s) = e"
    using assms(4) by simp
  then show ?thesis using assms(1-3,5) by (auto simp: batchify_def)
qed

lemma next_assemble:
  assumes "cursor s + batch_size s < num_data s"
    and "batchify (s\<lparr> cursor := cursor s + batch_size s \<rparr>) (ni_data s) = (s2, Inr data)"
    and "batchify s2 (ni_label s2) = (s3, Inr label)" and "data \<noteq> []"
  shows "NDArrayIter_next s =
    (if int (length (rows (data ! 0))) \<noteq> batch_size s3
     then (s3\<lparr> cache_data := Some data, cache_label := Some label \<rparr>, Inl StopIteration)
     else (s3, Inr \<lparr> b_data = data, b_label = label, b_pad = NDArrayIter_getpad s3 \<rparr>))"
  using assms by (simp add: NDArrayIter_next_def NDArrayIter_iter_next_def py_get_hd)

lemma cuts_Nil_iff [simp]: "cuts a b src = [] \<longleftrightarrow> src = []"
  by (simp add: cuts_def)

lemma next_full:
  assumes ok: "ni_ok n bs s" and c: "cursor s + int bs = int c" and le: "c + bs \<le> n"
  shows "NDArrayIter_next s = (s\<lparr> cursor := int c \<rparr>, Inr (full_batch s c (c + bs)))"
proof -
  note d = ni_okD [OF ok]
  let ?s = "s\<lparr> cursor := int c \<rparr>"
  have b: "batchify ?s src = (?s, Inr (cuts c (c + bs) src))" if "same_rows n src" for src
  proof (rule batchify_mid [where e = "int (c + bs)"])
    show "getdata_range src (Some (cursor ?s)) (Some (int (c + bs))) = Inr (cuts c (c + bs) src)"
      using getdata_range_cuts(1) [OF that, of "int c" "int (c + bs)"] le d(7)
      by (simp add: nat_int_add)
  qed (use le d(4,5,7) in auto)
  have "NDArrayIter_getpad ?s = 0" using le by (simp add: NDArrayIter_getpad_def d(4,5))
  with next_assemble [of s ?s "cuts c (c + bs) (ni_data s)" ?s "cuts c (c + bs) (ni_label s)"]
  show ?thesis using le d(1,7,8) b [OF d(2)] b [OF d(3)]
    by (simp add: c d(4,5) full_batch_def)
qed

lemma next_short:
  assumes ok: "ni_ok n bs s" and c: "cursor s + int bs = int c"
    and lt: "c < n" "n < c + bs" and handle: "last_batch_handle s \<noteq> ''pad''"
  shows "NDArrayIter_next s =
    (s\<lparr> cursor := int c, cache_data := Some (cuts c n (ni_data s)),
        cache_label := Some (cuts c n (ni_label s)) \<rparr>, Inl StopIteration)"
proof -
  note d = ni_okD [OF ok]
  let ?s = "s\<lparr> cursor := int c \<rparr>"
  have b: "batchify ?s src = (?s, Inr (cuts c n src))" if "same_rows n src" for src
    using getdata_range_cuts(1) [OF that, of "int c" "int n"] lt handle
    by (intro batchify_mid [where e = "int n"]) (simp_all add: d(4,5))
  with next_assemble [of s ?s "cuts c n (ni_data s)" ?s "cuts c n (ni_label s)"]
  show ?thesis using lt d(1,7,8) b [OF d(2)] b [OF d(3)] by (simp add: c d(4,5))
qed

definition pad_batch :: "'a ndarray_iter \<Rightarrow> nat \<Rightarrow> nat \<Rightarrow> nat \<Rightarrow> 'a data_batch" where
  "pad_batch s c n p =
     \<lparr> b_data = map (\<lambda>(_, v). nd_concat (cut c n v) (cut 0 p v)) (ni_data s),
       b_label = map (\<lambda>(_, v). nd_concat (cut c n v) (cut 0 p v)) (ni_label s),
       b_pad = int p \<rparr>"

lemma next_pad:
  assumes ok: "ni_ok n bs s" and c: "cursor s + int bs = int c"
    and lt: "c < n" "n < c + bs" and fits: "c + bs - n \<le> n"
    and handle: "last_batch_handle s = ''pad''"
  shows "NDArrayIter_next s = (s\<lparr> cursor := int c \<rparr>, Inr (pad_batch s c n (c + bs - n)))"
proof -
  note d = ni_okD [OF ok]
  define p where "p = c + bs - n"
  have p: "int bs - int n + int c = int p" "int c + int bs - int n = int p" "p \<le> n" "0 < p"
    using lt fits by (simp_all add: p_def)
  let ?s = "s\<lparr> cursor := int c \<rparr>"
  let ?f = "\<lambda>src. map (\<lambda>(_, v). nd_concat (cut c n v) (cut 0 p v)) src"
  have b: "batchify ?s src = (?s, Inr (?f src))" if "same_rows n src" for src
    using getdata_range_from [OF that, of "int c"] getdata_range_cuts(2) [OF that, of 0 "int p"]
      lt p(2-) d(6) handle
    by (subst batchify_pad [where first = "cuts c n src" and second = "cuts 0 p src"
          and p = "int p"]) (simp_all add: d(4,5) p(1) concat_sources_cuts)
  have "length (rows (?f (ni_data s) ! 0)) = bs"
    using d(1,8) lt fits by (simp add: case_prod_unfold nd_concat_def p_def)
  moreover have "NDArrayIter_getpad ?s = int p"
    using lt handle by (simp add: NDArrayIter_getpad_def d(4,5) p(2))
  ultimately show ?thesis
    using next_assemble [of s ?s "?f (ni_data s)" ?s "?f (ni_label s)"]
      lt d(1) b [OF d(2)] b [OF d(3)]
    by (simp add: c d(4,5) p_def [symmetric] pad_batch_def)
qed

end
