(* ===== verification/Data_Epochs.thy ===== *)
theory Data_Epochs
  imports Data_Iters
begin

text \<open>
  Whole epochs of \<open>NDArrayIter\<close>: what a \<open>for\<close> loop over the iterator delivers in each of the modes
  \<open>pad\<close>, \<open>discard\<close> and \<open>roll_over\<close>, source by source, against \<open>chunks\<close>; what a sequence of epochs with
  \<open>reset\<close> between them delivers; and that shuffling keeps the rows of all sources aligned.
\<close>

section \<open>Runs of full batches\<close>

lemma full_batch_cursor [simp]: "full_batch (s\<lparr> cursor := c \<rparr>) = full_batch s"
  by (simp add: full_batch_def fun_eq_iff)

lemma pad_batch_cursor [simp]: "pad_batch (s\<lparr> cursor := c \<rparr>) = pad_batch s"
  by (simp add: pad_batch_def fun_eq_iff)

lemma run_full:
  assumes "ni_ok n bs s" and "cursor s + int bs = int c" and "c + k * bs \<le> n"
  shows "drain (k + f) NDArrayIter_next s
       = map_option (\<lambda>(t, bb, e).
           (t, map (\<lambda>i. full_batch s (c + i * bs) (c + i * bs + bs)) [0..<k] @ bb, e))
           (drain f NDArrayIter_next (s\<lparr> cursor := cursor s + int (k * bs) \<rparr>))"
  using assms
proof (induction k arbitrary: s c)
  case 0
  then show ?case by (simp add: option.map_id0 case_prod_unfold option.map_ident)
next
  case (Suc k)
  let ?s = "s\<lparr> cursor := int c \<rparr>"
  have step: "NDArrayIter_next s = (?s, Inr (full_batch s c (c + bs)))"
    using Suc.prems by (intro next_full) auto
  have IH: "drain (k + f) NDArrayIter_next ?s
      = map_option (\<lambda>(t, bb, e).
          (t, map (\<lambda>i. full_batch ?s (c + bs + i * bs) (c + bs + i * bs + bs)) [0..<k] @ bb, e))
          (drain f NDArrayIter_next (?s\<lparr> cursor := cursor ?s + int (k * bs) \<rparr>))"
    by (rule Suc.IH) (use Suc.prems in auto)
  have cur: "cursor s + int (Suc k * bs) = int c + int (k * bs)" using Suc.prems(2) by simp
  show ?case
    unfolding cur
    by (simp add: step IH option.map_comp comp_def case_prod_unfold map_upt_Suc add.assoc
        del: upt_Suc of_nat_mult)
qed

definition column :: "nat \<Rightarrow> 'a data_batch list \<Rightarrow> 'a list list" where
  "column j bb = map (\<lambda>b. rows (b_data b ! j)) bb"

definition label_column :: "nat \<Rightarrow> 'a data_batch list \<Rightarrow> 'a list list" where
  "label_column j bb = map (\<lambda>b. rows (b_label b ! j)) bb"

definition data_rows :: "'a ndarray_iter \<Rightarrow> nat \<Rightarrow> 'a list" where
  "data_rows s j = rows (snd (ni_data s ! j))"

definition label_rows :: "'a ndarray_iter \<Rightarrow> nat \<Rightarrow> 'a list" where
  "label_rows s j = rows (snd (ni_label s ! j))"

lemma column_simps [simp]:
  "column j [] = []" "column j (b # bb) = rows (b_data b ! j) # column j bb"
  "column j (xs @ ys) = column j xs @ column j ys"
  "label_column j [] = []" "label_column j (b # bb) = rows (b_label b ! j) # label_column j bb"
  "label_column j (xs @ ys) = label_column j xs @ label_column j ys"
  by (simp_all add: column_def label_column_def)

lemma column_full:
  "j < length (ni_data s) \<Longrightarrow>
   column j (map (\<lambda>i. full_batch s (c + i * bs) (c + i * bs + bs)) is)
     = map (\<lambda>i. take bs (drop (i * bs) (drop c (data_rows s j)))) is"
  "j < length (ni_label s) \<Longrightarrow>
   label_column j (map (\<lambda>i. full_batch s (c + i * bs) (c + i * bs + bs)) is)
     = map (\<lambda>i. take bs (drop (i * bs) (drop c (label_rows s j)))) is"
  by (simp_all add: column_def label_column_def full_batch_def data_rows_def label_rows_def
      add.commute)

lemma length_data_rows:
  assumes "ni_ok n bs s"
  shows "j < length (ni_data s) \<Longrightarrow> length (data_rows s j) = n"
    and "j < length (ni_label s) \<Longrightarrow> length (label_rows s j) = n"
  using ni_okD(2,3) [OF assms] by (simp_all add: data_rows_def label_rows_def same_rows_nth)

section \<open>Epochs with pad and with discard\<close>

definition pad_of :: "nat \<Rightarrow> nat \<Rightarrow> nat" where
  "pad_of n bs = (bs - n mod bs) mod bs"

lemma pad_of_cases:
  assumes "0 < bs"
  shows "n mod bs = 0 \<Longrightarrow> pad_of n bs = 0"
    and "n mod bs \<noteq> 0 \<Longrightarrow> pad_of n bs = n div bs * bs + bs - n"
proof -
  show "n mod bs = 0 \<Longrightarrow> pad_of n bs = 0" by (simp add: pad_of_def)
  assume r: "n mod bs \<noteq> 0"
  have "bs - n mod bs < bs" using r assms by simp
  then have "pad_of n bs = bs - n mod bs" by (simp add: pad_of_def)
  also have "\<dots> = n div bs * bs + bs - n" using div_mult_mod_eq [of n bs] by linarith
  finally show "pad_of n bs = n div bs * bs + bs - n" .
qed

lemma pad_of_fits:
  fixes n bs :: nat
  assumes "0 < bs" and "bs \<le> 2 * n" and "n mod bs \<noteq> 0"
  shows "n div bs * bs < n" "n < n div bs * bs + bs" "n div bs * bs + bs - n \<le> n"
proof -
  show lt: "n div bs * bs < n" "n < n div bs * bs + bs"
    using assms(1,3) div_mult_mod_eq [of n bs] mod_less_divisor [of bs n] by linarith+
  have "n div bs * bs = 0 \<or> bs \<le> n div bs * bs" by auto
  then show "n div bs * bs + bs - n \<le> n" using assms(2) lt by linarith
qed

lemma pad_column:
  assumes "ni_ok n bs s" and "c \<le> n"
  shows "j < length (ni_data s) \<Longrightarrow>
      rows (b_data (pad_batch s c n p) ! j) = drop c (data_rows s j) @ take p (data_rows s j)"
    and "j < length (ni_label s) \<Longrightarrow>
      rows (b_label (pad_batch s c n p) ! j) = drop c (label_rows s j) @ take p (label_rows s j)"
  using length_data_rows [OF assms(1), of j] assms(2)
  by (simp_all add: pad_batch_def case_prod_unfold nd_concat_def data_rows_def label_rows_def)

lemma last_batch_pad:
  assumes ok: "ni_ok n bs s" and cur: "cursor s + int bs = int (n div bs * bs)"
    and handle: "last_batch_handle s = ''pad''" and fits: "bs \<le> 2 * n"
  shows "drain 2 NDArrayIter_next s
    = (if n mod bs = 0
       then Some (s\<lparr> cursor := int n \<rparr>, [], StopIteration)
       else Some (s\<lparr> cursor := int (n div bs * bs + bs) \<rparr>,
                  [pad_batch s (n div bs * bs) n (pad_of n bs)], StopIteration))"
proof -
  note d = ni_okD [OF ok]
  define c where "c = n div bs * bs"
  have n: "n = c + n mod bs" by (simp add: c_def)
  have two: "drain 2 nxt s = drain (Suc (Suc 0)) nxt s" for nxt :: "'a ndarray_iter \<Rightarrow> _"
    by (simp add: numeral_2_eq_2)
  show ?thesis
  proof (cases "n mod bs = 0")
    case True
    then have "cursor s + batch_size s = int n" using cur n by (simp only: d(5) c_def)
    then show ?thesis using True by (simp add: two next_end d(4))
  next
    case False
    note lt = pad_of_fits [OF d(7) fits False, folded c_def]
    have "c + bs - n = pad_of n bs" using pad_of_cases(2) [OF d(7) False] by (simp add: c_def)
    then have "NDArrayIter_next s = (s\<lparr> cursor := int c \<rparr>, Inr (pad_batch s c n (pad_of n bs)))"
      using next_pad [OF ok _ lt] cur handle by (simp add: c_def)
    moreover have "NDArrayIter_next (s\<lparr> cursor := int c \<rparr>)
        = (s\<lparr> cursor := int (c + bs) \<rparr>, Inl StopIteration)"
      using lt by (subst next_end) (simp_all add: d(4,5))
    ultimately show ?thesis using False by (simp add: two c_def)
  qed
qed


text \<open>In mode \<open>discard\<close> (in every mode but \<open>pad\<close> and \<open>roll_over\<close>) an epoch from the start delivers
  the full blocks of every source and nothing of an incomplete last one, and no batch reports a
  pad.\<close>

theorem NDArrayIter_discard_epoch:
  assumes ok: "ni_ok n bs s" and start: "cursor s = - int bs"
    and handle: "last_batch_handle s = ''discard''"
  shows "\<exists>t bb. drain (n div bs + 1) NDArrayIter_next s = Some (t, bb, StopIteration)
    \<and> (\<forall>j < length (ni_data s). column j bb = chunks bs (take (n div bs * bs) (data_rows s j)))
    \<and> (\<forall>j < length (ni_label s).
          label_column j bb = chunks bs (take (n div bs * bs) (label_rows s j)))
    \<and> map b_pad bb = replicate (n div bs) 0"
proof -
  note d = ni_okD [OF ok]
  define k where "k = n div bs"
  define full where "full = map (\<lambda>i. full_batch s (0 + i * bs) (0 + i * bs + bs)) [0..<k]"
  let ?s = "s\<lparr> cursor := cursor s + int (k * bs) \<rparr>"
  have k: "k * bs \<le> n" by (simp add: k_def)
  have run: "drain (k + 1) NDArrayIter_next s
      = map_option (\<lambda>(t, bb, e). (t, full @ bb, e)) (drain 1 NDArrayIter_next ?s)"
    unfolding full_def by (rule run_full [OF ok]) (use start k in auto)
  have "\<exists>t. NDArrayIter_next ?s = (t, Inl StopIteration)"
  proof (cases "k * bs = n")
    case True
    then show ?thesis using start by (subst next_end) (auto simp: d(4,5) simp flip: of_nat_mult)
  next
    case False
    with k have "k * bs < n" by simp
    moreover have "n < k * bs + bs"
      using dividend_less_div_times [OF d(7), of n] by (simp add: k_def add.commute)
    ultimately show ?thesis
      using start handle ok next_short [of n bs ?s "k * bs"] by simp
  qed
  then obtain t where "drain 1 NDArrayIter_next ?s = Some (t, [], StopIteration)" by auto
  with run have "drain (k + 1) NDArrayIter_next s = Some (t, full, StopIteration)" by simp
  moreover have "map b_pad full = replicate k 0"
    by (simp add: full_def full_batch_def comp_def map_replicate_const)
  moreover have "column j full = chunks bs (take (k * bs) (data_rows s j))"
    if "j < length (ni_data s)" for j
    using column_full(1) [OF that, of 0 bs "[0..<k]"] chunks_take_full [OF d(7), of k "data_rows s j"]
      length_data_rows(1) [OF ok that] k by (simp add: full_def)
  moreover have "label_column j full = chunks bs (take (k * bs) (label_rows s j))"
    if "j < length (ni_label s)" for j
    using column_full(2) [OF that, of 0 bs "[0..<k]"] chunks_take_full [OF d(7), of k "label_rows s j"]
      length_data_rows(2) [OF ok that] k by (simp add: full_def)
  ultimately show ?thesis unfolding k_def [symmetric] by blast
qed

section \<open>Epochs with roll_over\<close>

text \<open>
  \<open>roll_wf r s\<close>: \<open>s\<close> is at the start of an epoch with \<open>r\<close> rows of every source left over from the
  previous one, held in the caches when \<open>r > 0\<close>.
\<close>

definition cached :: "nat \<Rightarrow> (string \<times> 'a nd) list \<Rightarrow> 'a nd list option \<Rightarrow> bool" where
  "cached r src c =
     (case c of None \<Rightarrow> False
      | Some vs \<Rightarrow> length vs = length src \<and> (\<forall>v \<in> set vs. length (rows v) = r))"

definition roll_wf :: "nat \<Rightarrow> 'a ndarray_iter \<Rightarrow> bool" where
  "roll_wf r s \<longleftrightarrow>
     cursor s = - int r - batch_size s \<and> int r < batch_size s
     \<and> (0 < r \<longrightarrow> cached r (ni_data s) (cache_data s) \<and> cached r (ni_label s) (cache_label s))"

definition pending_data :: "'a ndarray_iter \<Rightarrow> nat \<Rightarrow> 'a list" where
  "pending_data s j = (if cursor s = - batch_size s then [] else rows (the (cache_data s) ! j))"

definition pending_label :: "'a ndarray_iter \<Rightarrow> nat \<Rightarrow> 'a list" where
  "pending_label s j = (if cursor s = - batch_size s then [] else rows (the (cache_label s) ! j))"

definition roll_batch :: "'a ndarray_iter \<Rightarrow> nat \<Rightarrow> nat \<Rightarrow> 'a data_batch" where
  "roll_batch s r m =
     \<lparr> b_data = map (\<lambda>(a, b). nd_concat a b) (zip (the (cache_data s)) (cuts 0 m (ni_data s))),
       b_label = map (\<lambda>(a, b). nd_concat a b) (zip (the (cache_label s)) (cuts 0 m (ni_label s))),
       b_pad = int r \<rparr>"

lemma cached_length: "cached r src c \<Longrightarrow> \<exists>vs. c = Some vs \<and> length vs = length src
    \<and> (\<forall>j < length src. length (rows (vs ! j)) = r)"
  by (auto simp: cached_def split: option.splits)

lemma cached_cuts:
  assumes "same_rows n src" and "c \<le> n"
  shows "cached (n - c) src (Some (cuts c n src))"
  using assms by (auto simp: cached_def cuts_def same_rows_def)

lemma next_roll:
  assumes ok: "ni_ok n bs s" and wf: "roll_wf r s" and r: "0 < r"
    and handle: "last_batch_handle s = ''roll_over''" and fits: "bs - r \<le> n"
  shows "NDArrayIter_next s =
    (s\<lparr> cursor := - int r, cache_data := None, cache_label := None \<rparr>, Inr (roll_batch s r (bs - r)))"
proof -
  note d = ni_okD [OF ok]
  from wf r have cur: "cursor s + int bs = - int r" and lt: "r < bs"
    by (auto simp: roll_wf_def d(5))
  from wf r obtain cd cl where
    cd: "cache_data s = Some cd" "length cd = length (ni_data s)" "length (rows (cd ! 0)) = r"
    and cl: "cache_label s = Some cl" "length cl = length (ni_label s)"
    using cached_length [of r "ni_data s" "cache_data s"]
      cached_length [of r "ni_label s" "cache_label s"] d(1)
    by (auto simp: roll_wf_def)
  let ?s = "s\<lparr> cursor := - int r \<rparr>"
  have stop: "- int r + int bs = int (bs - r)" using lt by simp
  have get: "getdata_range src None (Some (int (bs - r))) = Inr (cuts 0 (bs - r) src)"
    if "same_rows n src" for src :: "(string \<times> 'a nd) list"
    using getdata_range_cuts(2) [OF that, of 0 "int (bs - r)"] fits d(6) by simp
  let ?f = "\<lambda>c src. map (\<lambda>(a, b). nd_concat a b) (zip c (cuts 0 (bs - r) src))"
  let ?s' = "?s\<lparr> cache_data := None \<rparr>"
  have one: "batchify ?s (ni_data s) = (?s', Inr (?f cd (ni_data s)))"
    using get [OF d(2)] r lt cd handle d(6)
    by (subst batchify_roll(1) [where cache = cd and second = "cuts 0 (bs - r) (ni_data s)"])
      (simp_all add: d(4,5) stop concat_sources_def)
  have two: "batchify ?s' (ni_label s) = (?s'\<lparr> cache_label := None \<rparr>, Inr (?f cl (ni_label s)))"
    using get [OF d(3)] r lt cl handle d(6)
    by (subst batchify_roll(2) [where cache = cl and second = "cuts 0 (bs - r) (ni_label s)"])
      (simp_all add: d(4,5) stop concat_sources_def)
  have "length (rows (?f cd (ni_data s) ! 0)) = bs"
    using cd lt fits d(1,8) by (simp add: nd_concat_def)
  moreover have "NDArrayIter_getpad (?s'\<lparr> cache_label := None \<rparr>) = int r"
    using lt r handle by (simp add: NDArrayIter_getpad_def d(4,5))
  moreover have "?f cd (ni_data s) \<noteq> []" using cd d(1) by (simp flip: length_greater_0_conv)
  ultimately show ?thesis
    using next_assemble [of s ?s' "?f cd (ni_data s)" "?s'\<lparr> cache_label := None \<rparr>"
        "?f cl (ni_label s)"] one two cd cl r
    by (simp add: cur d(4,5) roll_batch_def)
qed

text \<open>What \<open>next\<close> and an unshuffled \<open>reset\<close> leave alone.\<close>

definition same_sources :: "'a ndarray_iter \<Rightarrow> 'a ndarray_iter \<Rightarrow> bool" where
  "same_sources s t \<longleftrightarrow>
     ni_data t = ni_data s \<and> ni_label t = ni_label s \<and> ni_idx t = ni_idx s
     \<and> last_batch_handle t = last_batch_handle s \<and> ni_shuffle t = ni_shuffle s
     \<and> batch_size t = batch_size s \<and> num_data t = num_data s"

lemma same_sources_ok: "same_sources s t \<Longrightarrow> ni_ok n bs t = ni_ok n bs s"
  by (simp add: same_sources_def ni_ok_def)

lemma same_sources_trans: "same_sources s t \<Longrightarrow> same_sources t u \<Longrightarrow> same_sources s u"
  by (simp add: same_sources_def)

lemma same_sources_rows:
  "same_sources s t \<Longrightarrow> data_rows t = data_rows s" "same_sources s t \<Longrightarrow> label_rows t = label_rows s"
  by (simp_all add: same_sources_def data_rows_def label_rows_def fun_eq_iff)

lemma roll_tail:
  assumes ok: "ni_ok n bs s" and cur: "cursor s + int bs = int c" and le: "c \<le> n"
    and handle: "last_batch_handle s = ''roll_over''" and plain: "\<not> ni_shuffle s"
    and k: "k = (n - c) div bs"
  shows "\<exists>t u. drain (k + 1) NDArrayIter_next s
        = Some (t, map (\<lambda>i. full_batch s (c + i * bs) (c + i * bs + bs)) [0..<k], StopIteration)
    \<and> NDArrayIter_reset cast shuf t = (u, Inr ()) \<and> same_sources s u
    \<and> roll_wf ((n - c) mod bs) u
    \<and> (\<forall>j < length (ni_data s). pending_data u j = drop (c + k * bs) (data_rows s j))
    \<and> (\<forall>j < length (ni_label s). pending_label u j = drop (c + k * bs) (label_rows s j))"
proof -
  note d = ni_okD [OF ok]
  define e where "e = c + k * bs"
  have split: "n - c = k * bs + (n - c) mod bs" by (simp add: k)
  with le have e: "e \<le> n" "(n - c) mod bs = n - e" "n < e + bs"
    using mod_less_divisor [OF d(7), of "n - c"] by (simp_all add: e_def)
  let ?s = "s\<lparr> cursor := cursor s + int (k * bs) \<rparr>"
  have cur': "cursor ?s + int bs = int e" using cur by (simp add: e_def)
  have run: "drain (k + 1) NDArrayIter_next s
      = map_option (\<lambda>(t, bb, x).
          (t, map (\<lambda>i. full_batch s (c + i * bs) (c + i * bs + bs)) [0..<k] @ bb, x))
          (drain 1 NDArrayIter_next ?s)"
    using e(1) by (intro run_full [OF ok cur]) (simp add: e_def)
  show ?thesis
  proof (cases "e = n")
    case True
    have stop: "NDArrayIter_next ?s = (s\<lparr> cursor := int n \<rparr>, Inl StopIteration)"
      using cur' True by (subst next_end) (simp_all add: d(4,5))
    have "NDArrayIter_reset cast shuf (s\<lparr> cursor := int n \<rparr>) = (s\<lparr> cursor := - int bs \<rparr>, Inr ())"
      using plain by (simp add: NDArrayIter_reset_def d(4,5))
    then show ?thesis using run stop e True d(7) length_data_rows [OF ok]
      by (simp add: same_sources_def roll_wf_def d(5) pending_data_def pending_label_def
          e_def [symmetric])
  next
    case False
    define t where "t = s\<lparr> cursor := int e, cache_data := Some (cuts e n (ni_data s)),
        cache_label := Some (cuts e n (ni_label s)) \<rparr>"
    have stop: "NDArrayIter_next ?s = (t, Inl StopIteration)"
      using next_short [of n bs ?s e] ok cur' False e handle by (simp add: t_def)
    have "NDArrayIter_reset cast shuf t = (t\<lparr> cursor := int e - int n - int bs \<rparr>, Inr ())"
      using plain handle e False by (simp add: NDArrayIter_reset_def d(4,5) t_def)
    moreover have "roll_wf (n - e) (t\<lparr> cursor := int e - int n - int bs \<rparr>)"
      using e False cached_cuts [OF d(2) e(1)] cached_cuts [OF d(3) e(1)]
      by (simp add: roll_wf_def t_def d(5))
    ultimately show ?thesis using run stop e False length_data_rows [OF ok]
      by (simp add: same_sources_def d(5) pending_data_def pending_label_def t_def
          e_def [symmetric] data_rows_def label_rows_def)
  qed
qed

text \<open>
  One epoch against its contract: for every source, what was pending followed by the source's rows
  is what the batches hold followed by what is pending afterwards, and every batch is full.
\<close>

definition conserves :: "nat \<Rightarrow> 'a ndarray_iter \<Rightarrow> 'a data_batch list \<Rightarrow> 'a ndarray_iter \<Rightarrow> bool" where
  "conserves bs s bb u \<longleftrightarrow>
     (\<forall>j < length (ni_data s).
        concat (column j bb) @ pending_data u j = pending_data s j @ data_rows s j
        \<and> (\<forall>xs \<in> set (column j bb). length xs = bs))
     \<and> (\<forall>j < length (ni_label s).
        concat (label_column j bb) @ pending_label u j = pending_label s j @ label_rows s j
        \<and> (\<forall>xs \<in> set (label_column j bb). length xs = bs))"

lemma conserves_full:
  assumes ok: "ni_ok n bs s" and k: "c + k * bs \<le> n"
  defines "full \<equiv> map (\<lambda>i. full_batch s (c + i * bs) (c + i * bs + bs)) [0..<k]"
  shows "j < length (ni_data s) \<Longrightarrow>
           concat (column j full) @ drop (c + k * bs) (data_rows s j) = drop c (data_rows s j)
           \<and> (\<forall>xs \<in> set (column j full). length xs = bs)"
    and "j < length (ni_label s) \<Longrightarrow>
           concat (label_column j full) @ drop (c + k * bs) (label_rows s j) = drop c (label_rows s j)
           \<and> (\<forall>xs \<in> set (label_column j full). length xs = bs)"
proof -
  have gen: "concat (map (\<lambda>i. take bs (drop (i * bs) (drop c xs))) [0..<k]) @ drop (c + k * bs) xs
        = drop c xs
      \<and> (\<forall>ys \<in> set (map (\<lambda>i. take bs (drop (i * bs) (drop c xs))) [0..<k]). length ys = bs)"
    if "length xs = n" for xs :: "'a list"
  proof
    have le: "k * bs \<le> length (drop c xs)" using that k by simp
    show "concat (map (\<lambda>i. take bs (drop (i * bs) (drop c xs))) [0..<k]) @ drop (c + k * bs) xs
        = drop c xs"
      unfolding concat_blocks [OF ni_okD(7) [OF ok] le]
      by (metis append_take_drop_id drop_drop add.commute)
    show "\<forall>ys \<in> set (map (\<lambda>i. take bs (drop (i * bs) (drop c xs))) [0..<k]). length ys = bs"
      using length_blocks [OF le] by auto
  qed
  show "j < length (ni_data s) \<Longrightarrow>
           concat (column j full) @ drop (c + k * bs) (data_rows s j) = drop c (data_rows s j)
           \<and> (\<forall>xs \<in> set (column j full). length xs = bs)"
    unfolding full_def column_full(1) using gen length_data_rows(1) [OF ok] by blast
  show "j < length (ni_label s) \<Longrightarrow>
           concat (label_column j full) @ drop (c + k * bs) (label_rows s j) = drop c (label_rows s j)
           \<and> (\<forall>xs \<in> set (label_column j full). length xs = bs)"
    unfolding full_def column_full(2) using gen length_data_rows(2) [OF ok] by blast
qed

lemma roll_batch_rows:
  assumes ok: "ni_ok n bs s" and wf: "roll_wf r s" and r: "0 < r" and fits: "bs - r \<le> n"
  shows "j < length (ni_data s) \<Longrightarrow>
      rows (b_data (roll_batch s r (bs - r)) ! j) = pending_data s j @ take (bs - r) (data_rows s j)
      \<and> length (pending_data s j) = r"
    and "j < length (ni_label s) \<Longrightarrow>
      rows (b_label (roll_batch s r (bs - r)) ! j) = pending_label s j @ take (bs - r) (label_rows s j)
      \<and> length (pending_label s j) = r"
proof -
  from wf r obtain cd cl where "cache_data s = Some cd" "length cd = length (ni_data s)"
    "\<forall>j < length (ni_data s). length (rows (cd ! j)) = r"
    "cache_label s = Some cl" "length cl = length (ni_label s)"
    "\<forall>j < length (ni_label s). length (rows (cl ! j)) = r" "cursor s \<noteq> - batch_size s"
    using cached_length [of r "ni_data s" "cache_data s"]
      cached_length [of r "ni_label s" "cache_label s"]
    by (auto simp: roll_wf_def)
  then show "j < length (ni_data s) \<Longrightarrow>
      rows (b_data (roll_batch s r (bs - r)) ! j) = pending_data s j @ take (bs - r) (data_rows s j)
      \<and> length (pending_data s j) = r"
    and "j < length (ni_label s) \<Longrightarrow>
      rows (b_label (roll_batch s r (bs - r)) ! j) = pending_label s j @ take (bs - r) (label_rows s j)
      \<and> length (pending_label s j) = r"
    by (simp_all add: roll_batch_def nd_concat_def pending_data_def pending_label_def
        data_rows_def label_rows_def)
qed

lemma roll_epoch:
  assumes ok: "ni_ok n bs s" and wf: "roll_wf r s" and fits: "bs \<le> n"
    and handle: "last_batch_handle s = ''roll_over''" and plain: "\<not> ni_shuffle s"
  shows "\<exists>t u bb r'. drain (n div bs + 2) NDArrayIter_next s = Some (t, bb, StopIteration)
    \<and> NDArrayIter_reset cast shuf t = (u, Inr ()) \<and> same_sources s u \<and> roll_wf r' u
    \<and> conserves bs s bb u"
proof -
  note d = ni_okD [OF ok]
  show ?thesis
  proof (cases "r = 0")
    case True
    have cur: "cursor s + int bs = int 0" using wf True by (simp add: roll_wf_def d(5))
    define k where "k = (n - 0) div bs"
    have k: "0 + k * bs \<le> n" by (simp add: k_def)
    from roll_tail [OF ok cur _ handle plain k_def, of cast shuf] obtain t u where
      t: "drain (k + 1) NDArrayIter_next s = Some (t, map (\<lambda>i. full_batch s (0 + i * bs)
            (0 + i * bs + bs)) [0..<k], StopIteration)"
      and u: "NDArrayIter_reset cast shuf t = (u, Inr ())" "same_sources s u" "roll_wf ((n - 0) mod bs) u"
      and p: "\<forall>j < length (ni_data s). pending_data u j = drop (0 + k * bs) (data_rows s j)"
        "\<forall>j < length (ni_label s). pending_label u j = drop (0 + k * bs) (label_rows s j)"
      by auto
    have "cursor s = - batch_size s" using cur by (simp add: d(5))
    then have "conserves bs s (map (\<lambda>i. full_batch s (0 + i * bs) (0 + i * bs + bs)) [0..<k]) u"
      using conserves_full [OF ok k] p by (simp add: conserves_def pending_data_def pending_label_def)
    with drain_more [OF t, of "n div bs + 2"] u show ?thesis by (auto simp: k_def)
  next
    case False
    then have r: "0 < r" "r < bs" "bs - r \<le> n" using wf fits by (auto simp: roll_wf_def d(5))
    define s1 where "s1 = s\<lparr> cursor := - int r, cache_data := None, cache_label := None \<rparr>"
    have same: "same_sources s s1" by (simp add: s1_def same_sources_def)
    have ok1: "ni_ok n bs s1" using same_sources_ok [OF same] ok by simp
    have step: "NDArrayIter_next s = (s1, Inr (roll_batch s r (bs - r)))"
      using next_roll [OF ok wf r(1) handle r(3)] by (simp add: s1_def)
    have cur: "cursor s1 + int bs = int (bs - r)" using r by (simp add: s1_def)
    define k where "k = (n - (bs - r)) div bs"
    have k: "bs - r + k * bs \<le> n"
      unfolding k_def using r div_times_less_eq_dividend [of "n - (bs - r)" bs] by linarith
    have plain1: "last_batch_handle s1 = ''roll_over''" "\<not> ni_shuffle s1"
      using handle plain by (simp_all add: s1_def)
    define full where "full = map (\<lambda>i. full_batch s1 (bs - r + i * bs) (bs - r + i * bs + bs)) [0..<k]"
    from roll_tail [OF ok1 cur r(3) plain1 k_def, of cast shuf] obtain t u where
      t: "drain (k + 1) NDArrayIter_next s1 = Some (t, full, StopIteration)"
      and u: "NDArrayIter_reset cast shuf t = (u, Inr ())" "same_sources s1 u"
        "roll_wf ((n - (bs - r)) mod bs) u"
      and p: "\<forall>j < length (ni_data s1). pending_data u j = drop (bs - r + k * bs) (data_rows s1 j)"
        "\<forall>j < length (ni_label s1). pending_label u j = drop (bs - r + k * bs) (label_rows s1 j)"
      unfolding full_def by blast
    have "conserves bs s (roll_batch s r (bs - r) # full) u"
      using conserves_full [OF ok1 k, folded full_def] p roll_batch_rows [OF ok wf r(1,3)]
        same_sources_rows [OF same] same length_data_rows [OF ok] r
      by (auto simp: conserves_def same_sources_def)
    moreover have "Suc (k + 1) \<le> n div bs + 2" by (simp add: k_def div_le_mono)
    with drain_step [of NDArrayIter_next, OF step t]
    have "drain (n div bs + 2) NDArrayIter_next s
        = Some (t, roll_batch s r (bs - r) # full, StopIteration)"
      by (rule drain_more)
    ultimately show ?thesis
      using u same_sources_trans [OF same u(2)] by blast
  qed
qed

text \<open>
  A training loop: \<open>m\<close> times a \<open>for\<close> loop over the iterator followed by \<open>reset\<close>
  (\<open>BaseModule.fit\<close> drives its iterator this way).  \<open>f\<close> bounds the calls of \<open>next\<close> per epoch.
\<close>

fun NDArrayIter_epochs ::
  "(string \<Rightarrow> 'a \<Rightarrow> 'a) \<Rightarrow> (nat \<Rightarrow> nat list \<Rightarrow> nat list) \<Rightarrow> nat \<Rightarrow> nat \<Rightarrow> 'a ndarray_iter \<Rightarrow>
   ('a ndarray_iter \<times> 'a data_batch list) option" where
  "NDArrayIter_epochs cast shuf f 0 s = Some (s, [])"
| "NDArrayIter_epochs cast shuf f (Suc m) s =
     (case drain f NDArrayIter_next s of
        Some (t, bb, StopIteration) \<Rightarrow>
          (case NDArrayIter_reset cast shuf t of
             (u, Inr _) \<Rightarrow>
               map_option (\<lambda>(w, rest). (w, bb @ rest)) (NDArrayIter_epochs cast shuf f m u)
           | (u, Inl _) \<Rightarrow> None)
      | _ \<Rightarrow> None)"

lemma append_chain:
  assumes "xs @ p = q @ d" and "ys @ p' = p @ e"
  shows "(xs @ ys) @ p' = q @ d @ e"
proof -
  have "(xs @ ys) @ p' = (xs @ p) @ e" using assms(2) by simp
  then show ?thesis by (simp only: assms(1) append_assoc)
qed

lemma roll_epochs:
  assumes "ni_ok n bs s" and "roll_wf r s" and "bs \<le> n"
    and "last_batch_handle s = ''roll_over''" and "\<not> ni_shuffle s"
  shows "\<exists>t bb r'. NDArrayIter_epochs cast shuf (n div bs + 2) m s = Some (t, bb)
    \<and> roll_wf r' t \<and> same_sources s t
    \<and> (\<forall>j < length (ni_data s).
          concat (column j bb) @ pending_data t j
            = pending_data s j @ concat (replicate m (data_rows s j))
          \<and> (\<forall>xs \<in> set (column j bb). length xs = bs))
    \<and> (\<forall>j < length (ni_label s).
          concat (label_column j bb) @ pending_label t j
            = pending_label s j @ concat (replicate m (label_rows s j))
          \<and> (\<forall>xs \<in> set (label_column j bb). length xs = bs))"
  using assms
proof (induction m arbitrary: s r)
  case 0
  then show ?case by (auto simp: same_sources_def)
next
  case (Suc m)
  from roll_epoch [OF Suc.prems, of cast shuf] obtain t u b1 r1 where
    run: "drain (n div bs + 2) NDArrayIter_next s = Some (t, b1, StopIteration)"
      "NDArrayIter_reset cast shuf t = (u, Inr ())"
    and same: "same_sources s u" and wf: "roll_wf r1 u" and c: "conserves bs s b1 u"
    by auto
  have "ni_ok n bs u" "last_batch_handle u = ''roll_over''" "\<not> ni_shuffle u"
    using same_sources_ok [OF same] same Suc.prems by (auto simp: same_sources_def)
  from Suc.IH [OF this(1) wf Suc.prems(3) this(2,3)] obtain w b2 r2 where
    rest: "NDArrayIter_epochs cast shuf (n div bs + 2) m u = Some (w, b2)"
    and IH: "roll_wf r2 w" "same_sources u w"
      "\<forall>j < length (ni_data u). concat (column j b2) @ pending_data w j
          = pending_data u j @ concat (replicate m (data_rows u j))
          \<and> (\<forall>xs \<in> set (column j b2). length xs = bs)"
      "\<forall>j < length (ni_label u). concat (label_column j b2) @ pending_label w j
          = pending_label u j @ concat (replicate m (label_rows u j))
          \<and> (\<forall>xs \<in> set (label_column j b2). length xs = bs)"
    by auto
  have "NDArrayIter_epochs cast shuf (n div bs + 2) (Suc m) s = Some (w, b1 @ b2)"
    using run rest by simp
  moreover have "concat (column j (b1 @ b2)) @ pending_data w j
          = pending_data s j @ concat (replicate (Suc m) (data_rows s j))
          \<and> (\<forall>xs \<in> set (column j (b1 @ b2)). length xs = bs)" if "j < length (ni_data s)" for j
  proof -
    have "concat (column j b1) @ pending_data u j = pending_data s j @ data_rows s j"
      "\<forall>xs \<in> set (column j b1). length xs = bs"
      using c that by (simp_all add: conserves_def)
    moreover have "concat (column j b2) @ pending_data w j
        = pending_data u j @ concat (replicate m (data_rows s j))"
      "\<forall>xs \<in> set (column j b2). length xs = bs"
      using IH(3) that same same_sources_rows [OF same] by (simp_all add: same_sources_def)
    ultimately show ?thesis using append_chain by (auto simp: ball_Un)
  qed
  moreover have "concat (label_column j (b1 @ b2)) @ pending_label w j
          = pending_label s j @ concat (replicate (Suc m) (label_rows s j))
          \<and> (\<forall>xs \<in> set (label_column j (b1 @ b2)). length xs = bs)" if "j < length (ni_label s)" for j
  proof -
    have "concat (label_column j b1) @ pending_label u j = pending_label s j @ label_rows s j"
      "\<forall>xs \<in> set (label_column j b1). length xs = bs"
      using c that by (simp_all add: conserves_def)
    moreover have "concat (label_column j b2) @ pending_label w j
        = pending_label u j @ concat (replicate m (label_rows s j))"
      "\<forall>xs \<in> set (label_column j b2). length xs = bs"
      using IH(4) that same same_sources_rows [OF same] by (simp_all add: same_sources_def)
    ultimately show ?thesis using append_chain by (auto simp: ball_Un)
  qed
  ultimately show ?case using IH(1) same_sources_trans [OF same IH(2)] by blast
qed


section \<open>Shuffling\<close>

definition shuffled :: "(string \<Rightarrow> 'a \<Rightarrow> 'a) \<Rightarrow> nat list \<Rightarrow> 'a nd \<Rightarrow> 'a nd" where
  "shuffled cast p v =
     (let v' = v\<lparr> rows := map (\<lambda>i. rows v ! i) p \<rparr> in if stype v = CSR then v' else nd_array cast v')"

lemma mset_upt_set: "mset p = mset [0..<n] \<Longrightarrow> set p = {0..<n}"
  by (metis mset_eq_setD set_upt atLeast_upt)

lemma getdata_by_idx_ok:
  assumes "same_rows n src" and "mset p = mset [0..<n]"
  shows "getdata_by_idx cast src p = Inr (map (\<lambda>(k, v). (k, shuffled cast p v)) src)"
  unfolding getdata_by_idx_def
proof (rule mapM_Inr)
  fix kv assume "kv \<in> set src"
  then obtain k v where kv: "kv = (k, v)" "length (rows v) = n"
    using assms(1) by (cases kv) (auto simp: same_rows_def)
  have "mapM (\<lambda>i. py_get (rows v) (int i)) p = Inr (map (\<lambda>i. rows v ! i) p)"
    using mset_upt_set [OF assms(2)] kv(2) by (intro mapM_Inr) auto
  with kv show "(case kv of (k, v) \<Rightarrow> rbind (mapM (\<lambda>i. py_get (rows v) (int i)) p) (\<lambda>rs.
         let v' = v\<lparr> rows := rs \<rparr> in Inr (k, if stype v = CSR then v' else nd_array cast v')))
       = Inr (case kv of (k, v) \<Rightarrow> (k, shuffled cast p v))"
    by (simp add: shuffled_def Let_def)
qed

lemma length_rows_shuffled [simp]: "length (rows (shuffled cast p v)) = length p"
  by (simp add: shuffled_def nd_array_def Let_def)

lemma stype_shuffled [simp]: "stype (shuffled cast p v) = stype v"
  by (simp add: shuffled_def nd_array_def Let_def)

lemma same_rows_shuffled:
  "length p = n \<Longrightarrow> same_rows n (map (\<lambda>(k, v). (k, shuffled cast p v)) src)"
  by (auto simp: same_rows_def)

lemma shuffle_data_ok:
  assumes ok: "ni_ok n bs s" and perm: "mset (shuf (draws s) (ni_idx s)) = mset (ni_idx s)"
  defines "p \<equiv> shuf (draws s) (ni_idx s)"
  shows "shuffle_data cast shuf s
    = (s\<lparr> ni_idx := p, draws := draws s + 1,
          ni_data := map (\<lambda>(k, v). (k, shuffled cast p v)) (ni_data s),
          ni_label := map (\<lambda>(k, v). (k, shuffled cast p v)) (ni_label s) \<rparr>, Inr ())"
proof -
  have p: "mset p = mset [0..<n]" using ok perm by (simp add: ni_ok_def p_def)
  note get = getdata_by_idx_ok [OF _ p, of _ cast]
  show ?thesis
    using get [OF ni_okD(2) [OF ok]] get [OF ni_okD(3) [OF ok]]
    by (simp add: shuffle_data_def p_def Let_def)
qed

lemma NDArrayIter_reset_shuffle:
  assumes ok: "ni_ok n bs s" and on: "ni_shuffle s"
    and perm: "\<And>k xs. mset (shuf k xs) = mset xs"
  shows "\<exists>u p. NDArrayIter_reset cast shuf s = (u, Inr ()) \<and> ni_ok n bs u
    \<and> mset p = mset [0..<n]
    \<and> ni_data u = map (\<lambda>(k, v). (k, shuffled cast p v)) (ni_data s)
    \<and> ni_label u = map (\<lambda>(k, v). (k, shuffled cast p v)) (ni_label s)
    \<and> last_batch_handle u = last_batch_handle s \<and> ni_shuffle u = ni_shuffle s
    \<and> (last_batch_handle s \<noteq> ''roll_over'' \<longrightarrow> cursor u = - batch_size u)"
proof -
  define p where "p = shuf (draws s) (ni_idx s)"
  have p: "mset p = mset [0..<n]" using ok perm by (simp add: ni_ok_def p_def)
  then have len: "length p = n" by (metis length_upt mset_eq_length diff_zero)
  define t where "t = s\<lparr> ni_idx := p, draws := draws s + 1,
      ni_data := map (\<lambda>(k, v). (k, shuffled cast p v)) (ni_data s),
      ni_label := map (\<lambda>(k, v). (k, shuffled cast p v)) (ni_label s) \<rparr>"
  have t: "shuffle_data cast shuf s = (t, Inr ())"
    using shuffle_data_ok [where shuf = shuf, OF ok perm] by (simp add: t_def p_def)
  have ok_t: "ni_ok n bs (t\<lparr> cursor := c \<rparr>)" for c
    using ok p same_rows_shuffled [OF len] by (auto simp: ni_ok_def t_def)
  have "NDArrayIter_reset cast shuf s
      = (t\<lparr> cursor := (if last_batch_handle t = ''roll_over'' \<and> num_data t - batch_size t < cursor t
            \<and> cursor t < num_data t then cursor t - num_data t - batch_size t
            else - batch_size t) \<rparr>, Inr ())"
    using on t by (simp add: NDArrayIter_reset_def)
  moreover have "ni_data t = map (\<lambda>(k, v). (k, shuffled cast p v)) (ni_data s)"
    "ni_label t = map (\<lambda>(k, v). (k, shuffled cast p v)) (ni_label s)"
    "last_batch_handle t = last_batch_handle s" "ni_shuffle t = ni_shuffle s"
    by (simp_all add: t_def)
  ultimately show ?thesis using ok_t p by auto
qed

text \<open>C25. A \<open>reset\<close> of a shuffling iterator does not fail, keeps the iterator well formed, and
  reorders all data and label sources by one and the same permutation of the row numbers, so that
  row \<open>i\<close> of every source still belongs to the same example; dense sources come out converted to
  \<open>float32\<close>, whatever their element type was.\<close>

theorem NDArrayIter_shuffle_aligned:
  assumes ok: "ni_ok n bs s" and on: "ni_shuffle s"
    and perm: "\<And>k xs. mset (shuf k xs) = mset xs"
  shows "\<exists>u p. NDArrayIter_reset cast shuf s = (u, Inr ()) \<and> ni_ok n bs u
    \<and> mset p = mset [0..<n]
    \<and> map snd (ni_data u) = map (shuffled cast p \<circ> snd) (ni_data s)
    \<and> map snd (ni_label u) = map (shuffled cast p \<circ> snd) (ni_label s)
    \<and> (\<forall>v \<in> set (map snd (ni_data u @ ni_label u)). stype v = Dense \<longrightarrow> dtype v = mx_real_t)"
proof -
  from NDArrayIter_reset_shuffle [where shuf = shuf and cast = cast, OF ok on perm] obtain u p where
    u: "NDArrayIter_reset cast shuf s = (u, Inr ())" "ni_ok n bs u" "mset p = mset [0..<n]"
    and d: "ni_data u = map (\<lambda>(k, v). (k, shuffled cast p v)) (ni_data s)"
    and l: "ni_label u = map (\<lambda>(k, v). (k, shuffled cast p v)) (ni_label s)"
    by auto
  moreover have "stype (shuffled cast p v) = Dense \<longrightarrow> dtype (shuffled cast p v) = mx_real_t" for v
    by (simp add: shuffled_def nd_array_def Let_def)
  ultimately show ?thesis
    by (intro exI [of _ u] exI [of _ p]) (auto simp: d l)
qed

section \<open>Construction\<close>

fun source_rows :: "nat \<Rightarrow> 'a source_array \<Rightarrow> bool" where
  "source_rows n (NDArr a) = (length (rows a) = n)"
| "source_rows n (ArrayLike a) = (length (rows a) = n)"
| "source_rows n Opaque = True"

fun sources_rows :: "nat \<Rightarrow> 'a source \<Rightarrow> bool" where
  "sources_rows n (OneArray a) = source_rows n a"
| "sources_rows n (ArrayList ds) = (\<forall>a \<in> set ds. source_rows n a)"
| "sources_rows n (ArrayDict kvs) = (\<forall>(k, a) \<in> set kvs. source_rows n a)"
| "sources_rows n _ = True"

lemma init_dict_rows:
  assumes "init_dict cast kvs = Inr d" and "\<forall>(k, a) \<in> set kvs. source_rows n a"
  shows "same_rows n d"
proof -
  from assms(1) obtain items where
    items: "mapM (\<lambda>(k, v). rbind (init_value cast v) (\<lambda>a. Inr (k, a))) kvs = Inr items"
    and d: "d = sort_key fst items"
    by (auto simp: init_dict_def)
  have "length (rows (snd kv)) = n" if "kv \<in> set items" for kv
  proof -
    from that obtain i where i: "i < length kvs" "kv = items ! i"
      using mapM_length [OF items] by (auto simp: in_set_conv_nth)
    obtain k a where ka: "kvs ! i = (k, a)" "source_rows n a"
      using assms(2) nth_mem [OF i(1)] by (cases "kvs ! i") auto
    then obtain v where "init_value cast a = Inr v" "kv = (k, v)"
      using mapM_nth [OF items i(1)] i(2) by auto
    with ka(2) show ?thesis by (cases a) (auto simp: init_value_def nd_array_def)
  qed
  then show ?thesis by (auto simp: same_rows_def d)
qed

lemma name_sources_rows:
  "\<forall>a \<in> set ds. source_rows n a \<Longrightarrow> \<forall>(k, a) \<in> set (name_sources ds nm). source_rows n a"
  by (auto simp: name_sources_def in_set_enumerate_eq split: list.splits)

lemma init_named_rows:
  assumes "init_dict cast (name_sources ds nm) = Inr d" and "\<forall>a \<in> set ds. source_rows n a"
  shows "same_rows n d"
  by (rule init_dict_rows [OF assms(1) name_sources_rows [OF assms(2)]])

lemma init_data_rows:
  assumes "init_data cast src e nm = Inr d" and "sources_rows n src"
  shows "same_rows n d"
proof (cases src)
  case (OneArray a)
  then show ?thesis using assms init_named_rows [of cast "[a]" nm d n]
    by (cases a) (auto simp: init_data_def)
next
  case NoSource
  then show ?thesis using assms init_named_rows [of cast "[]" nm d n]
    by (auto simp: init_data_def split: if_splits)
next
  case (ArrayList ds)
  then show ?thesis using assms init_named_rows [of cast ds nm d n]
    by (auto simp: init_data_def split: if_splits)
next
  case (ArrayDict kvs)
  then show ?thesis using assms init_dict_rows [of cast kvs d n] by (auto simp: init_data_def)
next
  case OtherSource
  then show ?thesis using assms by (simp add: init_data_def)
qed


text \<open>In mode \<open>pad\<close> with more than twice as many places in a batch as there are rows, the first
  call of \<open>next\<close> raises \<open>IndexError\<close>: the padding is one slice from the start and does not wrap
  around again.\<close>

theorem NDArrayIter_pad_too_small:
  assumes ok: "ni_ok n bs s" and start: "cursor s = - int bs"
    and handle: "last_batch_handle s = ''pad''" and big: "2 * n < bs"
  shows "snd (NDArrayIter_next s) = Inl IndexError"
proof -
  note d = ni_okD [OF ok]
  let ?s = "s\<lparr> cursor := 0 \<rparr>"
  obtain k v src where src: "ni_data s = (k, v) # src" using d(1) by (cases "ni_data s") auto
  then have len: "length (rows v) = n" using d(8) by simp
  have "getdata_range (ni_data s) None (Some (int bs - int n)) = Inl IndexError"
    using src len d(6) big nd_slice_stop_beyond [of 0 "rows v" "int bs - int n"]
    by (simp add: getdata_range_def)
  then have "batchify ?s (ni_data s) = (?s, Inl IndexError)"
    using getdata_range_from [OF d(2), of 0] d(6) big handle
    by (simp add: batchify_def d(4,5))
  then show ?thesis using start d(6)
    by (simp add: NDArrayIter_next_def NDArrayIter_iter_next_def d(4,5))
qed

section \<open>Witnesses\<close>

definition demo_array :: "nat list \<Rightarrow> string \<Rightarrow> nat nd" where
  "demo_array xs dt = \<lparr> rows = xs, item = [], dtype = dt, stype = Dense \<rparr>"

definition demo_iter :: "string \<Rightarrow> nat \<Rightarrow> bool \<Rightarrow> nat ndarray_iter" where
  "demo_iter handle bs shuffle =
     \<lparr> ni_data = [(''data'', demo_array [10, 11, 12, 13, 14] ''float32'')],
       ni_label = [(''softmax_label'', demo_array [0, 1, 0, 1, 1] ''int32'')],
       ni_idx = [0..<5], ni_shuffle = shuffle, last_batch_handle = handle,
       batch_size = int bs, cursor = - int bs, num_data = 5,
       cache_data = None, cache_label = None, draws = 0 \<rparr>"

lemma demo_iter_ok: "0 < bs \<Longrightarrow> ni_ok 5 bs (demo_iter handle bs shuffle)"
  by (simp add: ni_ok_def demo_iter_def demo_array_def same_rows_def)


theorem NDArrayIter_discard_epoch_witness:
  "\<exists>t bb. drain 3 NDArrayIter_next (demo_iter ''discard'' 2 False) = Some (t, bb, StopIteration)
     \<and> column 0 bb = [[10, 11], [12, 13]]"
  using NDArrayIter_discard_epoch [OF demo_iter_ok, of 2 "''discard''" False]
  by (auto simp: demo_iter_def demo_array_def data_rows_def chunks.simps)


theorem NDArrayIter_shuffle_aligned_witness:
  "\<exists>u p. NDArrayIter_reset (\<lambda>_ x. x) (\<lambda>_. rev) (demo_iter ''pad'' 2 True) = (u, Inr ())
     \<and> mset p = mset [0..<5]
     \<and> map snd (ni_data u) = [shuffled (\<lambda>_ x. x) p (demo_array [10, 11, 12, 13, 14] ''float32'')]
     \<and> map snd (ni_label u) = [shuffled (\<lambda>_ x. x) p (demo_array [0, 1, 0, 1, 1] ''int32'')]"
proof -
  have "ni_ok 5 2 (demo_iter ''pad'' 2 True)" by (rule demo_iter_ok) simp
  from NDArrayIter_shuffle_aligned [OF this, of "\<lambda>_. rev" "\<lambda>_ x. x"] show ?thesis
    by (auto simp: demo_iter_def)
qed


theorem NDArrayIter_pad_too_small_witness:
  "snd (NDArrayIter_next (demo_iter ''pad'' 11 False)) = Inl IndexError"
  by (rule NDArrayIter_pad_too_small [OF demo_iter_ok]) (simp_all add: demo_iter_def)

end
