(* ===== verification/Iter_Adapters.thy ===== *)
theory Iter_Adapters
  imports Data_Epochs
begin

text \<open>
  The contract of \<open>DataIter\<close> (\<open>python/mxnet/io/io.py\<close>) as the locale \<open>data_iter\<close>, its instance
  \<open>NDArrayIter\<close>, and the adapter \<open>ResizeIter\<close>, which is written against that contract.

  The contract: some states are good; \<open>next\<close> keeps a good state and raises nothing but
  \<open>StopIteration\<close>; \<open>reset\<close> succeeds on a good state, and \<open>next\<close> right after it returns a batch.
  \<open>ResizeIter\<close> is a record over the state of the inner iterator; its inherited \<open>next\<close>
  (\<open>DataIter.next\<close>) builds the batch from the four \<open>get\<close> methods, which all read \<open>current_batch\<close>.
\<close>

section \<open>ResizeIter\<close>

record ('s, 'b) resize_iter =
  ri_iter :: 's
  ri_size :: int
  ri_reset_internal :: bool
  ri_cur :: int
  ri_current :: "'b option"

definition ResizeIter_init :: "'s \<Rightarrow> int \<Rightarrow> bool \<Rightarrow> ('s, 'b) resize_iter" where
  "ResizeIter_init it sz reset_internal =
     \<lparr> ri_iter = it, ri_size = sz, ri_reset_internal = reset_internal, ri_cur = 0,
       ri_current = None \<rparr>"

definition ResizeIter_reset ::
  "('s \<Rightarrow> ('s, unit) outcome) \<Rightarrow> ('s, 'b) resize_iter \<Rightarrow> (('s, 'b) resize_iter, unit) outcome" where
  "ResizeIter_reset rst s =
     (let s = s\<lparr> ri_cur := 0 \<rparr> in
      if ri_reset_internal s
      then (case rst (ri_iter s) of (it, r) \<Rightarrow> (s\<lparr> ri_iter := it \<rparr>, r))
      else (s, Inr ()))"

definition ResizeIter_iter_next ::
  "('s \<Rightarrow> ('s, 'b) outcome) \<Rightarrow> ('s \<Rightarrow> ('s, unit) outcome) \<Rightarrow> ('s, 'b) resize_iter \<Rightarrow>
   (('s, 'b) resize_iter, bool) outcome" where
  "ResizeIter_iter_next nxt rst s =
     (if ri_cur s = ri_size s then (s, Inr False)
      else
       (case nxt (ri_iter s) of
          (it, Inr b) \<Rightarrow>
            (s\<lparr> ri_iter := it, ri_current := Some b, ri_cur := ri_cur s + 1 \<rparr>, Inr True)
        | (it, Inl StopIteration) \<Rightarrow>
            (case rst it of
               (it1, Inl e) \<Rightarrow> (s\<lparr> ri_iter := it1 \<rparr>, Inl e)
             | (it1, Inr _) \<Rightarrow>
                 (case nxt it1 of
                    (it2, Inl e) \<Rightarrow> (s\<lparr> ri_iter := it2 \<rparr>, Inl e)
                  | (it2, Inr b) \<Rightarrow>
                      (s\<lparr> ri_iter := it2, ri_current := Some b, ri_cur := ri_cur s + 1 \<rparr>, Inr True)))
        | (it, Inl e) \<Rightarrow> (s\<lparr> ri_iter := it \<rparr>, Inl e)))"

definition ResizeIter_next ::
  "('s \<Rightarrow> ('s, 'b) outcome) \<Rightarrow> ('s \<Rightarrow> ('s, unit) outcome) \<Rightarrow> ('s, 'b) resize_iter \<Rightarrow>
   (('s, 'b) resize_iter, 'b) outcome" where
  "ResizeIter_next nxt rst s =
     sbind (ResizeIter_iter_next nxt rst s) (\<lambda>s more.
       if more
       then (case ri_current s of Some b \<Rightarrow> (s, Inr b) | None \<Rightarrow> (s, Inl TypeError))
       else (s, Inl StopIteration))"

section \<open>The contract of a data iterator\<close>

locale data_iter =
  fixes inv :: "'s \<Rightarrow> bool"
    and nxt :: "'s \<Rightarrow> ('s, 'b) outcome"
    and rst :: "'s \<Rightarrow> ('s, unit) outcome"
  assumes next_inv: "inv s \<Longrightarrow> inv (fst (nxt s))"
    and next_stop: "inv s \<Longrightarrow> snd (nxt s) = Inl e \<Longrightarrow> e = StopIteration"
    and reset_inv: "inv s \<Longrightarrow> inv (fst (rst s))"
    and reset_ok: "inv s \<Longrightarrow> snd (rst s) = Inr ()"
    and reset_fresh: "inv s \<Longrightarrow> \<exists>b. snd (nxt (fst (rst s))) = Inr b"
begin

definition rinv :: "('s, 'b) resize_iter \<Rightarrow> bool" where
  "rinv s \<longleftrightarrow> inv (ri_iter s) \<and> 0 < ri_size s \<and> 0 \<le> ri_cur s \<and> ri_cur s \<le> ri_size s"

text \<open>While fewer than \<open>size\<close> batches were delivered, \<open>ResizeIter.next\<close> delivers one.\<close>

lemma resize_step:
  assumes "inv (ri_iter s)" and "ri_cur s \<noteq> ri_size s"
  shows "\<exists>it b. ResizeIter_next nxt rst s
      = (s\<lparr> ri_iter := it, ri_current := Some b, ri_cur := ri_cur s + 1 \<rparr>, Inr b) \<and> inv it"
proof (cases "nxt (ri_iter s)")
  case (Pair it r)
  have it: "inv it" using next_inv [OF assms(1)] Pair by simp
  show ?thesis
  proof (cases r)
    case (Inr b)
    with Pair it assms show ?thesis by (auto simp: ResizeIter_next_def ResizeIter_iter_next_def)
  next
    case (Inl e)
    with next_stop [OF assms(1)] Pair have "e = StopIteration" by simp
    moreover obtain it1 where it1: "rst it = (it1, Inr ())" "inv it1"
      using reset_ok [OF it] reset_inv [OF it] by (cases "rst it") auto
    moreover obtain it2 b where "nxt it1 = (it2, Inr b)" "inv it2"
      using reset_fresh [OF it] it1 next_inv [OF it1(2)] by (cases "nxt it1") auto
    ultimately show ?thesis using Pair Inl assms
      by (auto simp: ResizeIter_next_def ResizeIter_iter_next_def)
  qed
qed

lemma resize_stop:
  "ri_cur s = ri_size s \<Longrightarrow> ResizeIter_next nxt rst s = (s, Inl StopIteration)"
  by (simp add: ResizeIter_next_def ResizeIter_iter_next_def)

lemma resize_run:
  assumes "inv (ri_iter s)" and "ri_cur s + int k = ri_size s"
  shows "\<exists>t bb. drain (k + 1) (ResizeIter_next nxt rst) s = Some (t, bb, StopIteration)
    \<and> length bb = k \<and> inv (ri_iter t)"
  using assms
proof (induction k arbitrary: s)
  case 0
  then show ?case using resize_stop [of s] by simp
next
  case (Suc k)
  then obtain it b where step: "ResizeIter_next nxt rst s
      = (s\<lparr> ri_iter := it, ri_current := Some b, ri_cur := ri_cur s + 1 \<rparr>, Inr b)" "inv it"
    using resize_step [of s] by auto
  from Suc.IH [of "s\<lparr> ri_iter := it, ri_current := Some b, ri_cur := ri_cur s + 1 \<rparr>"] step(2) Suc.prems
  obtain t bb where "drain (k + 1) (ResizeIter_next nxt rst)
        (s\<lparr> ri_iter := it, ri_current := Some b, ri_cur := ri_cur s + 1 \<rparr>) = Some (t, bb, StopIteration)"
    "length bb = k" "inv (ri_iter t)"
    by auto
  with step(1) show ?case by (auto simp: drain_step)
qed

lemma resize_reset_ok:
  assumes "inv (ri_iter s)"
  shows "\<exists>t. ResizeIter_reset rst s = (t, Inr ()) \<and> inv (ri_iter t) \<and> ri_cur t = 0
    \<and> ri_size t = ri_size s"
  using assms reset_ok [OF assms] reset_inv [OF assms]
  by (cases "rst (ri_iter s)") (auto simp: ResizeIter_reset_def Let_def)

text \<open>A resized iterator of positive size meets the contract itself.\<close>

lemma resize_data_iter: "data_iter rinv (ResizeIter_next nxt rst) (ResizeIter_reset rst)"
proof
  fix s :: "('s, 'b) resize_iter" assume s: "rinv s"
  then have i: "inv (ri_iter s)" by (simp add: rinv_def)
  show "rinv (fst (ResizeIter_next nxt rst s))"
  proof (cases "ri_cur s = ri_size s")
    case False
    with resize_step [OF i] s show ?thesis by (auto simp: rinv_def)
  qed (use s in \<open>simp add: resize_stop\<close>)
  show "e = StopIteration" if "snd (ResizeIter_next nxt rst s) = Inl e" for e
    using that resize_step [OF i] resize_stop [of s] by (cases "ri_cur s = ri_size s") auto
  from resize_reset_ok [OF i] obtain t where
    t: "ResizeIter_reset rst s = (t, Inr ())" "inv (ri_iter t)" "ri_cur t = 0" "ri_size t = ri_size s"
    by auto
  then show "rinv (fst (ResizeIter_reset rst s))" "snd (ResizeIter_reset rst s) = Inr ()"
    using s by (simp_all add: rinv_def)
  show "\<exists>b. snd (ResizeIter_next nxt rst (fst (ResizeIter_reset rst s))) = Inr b"
    using resize_step [OF t(2)] t s by (auto simp: rinv_def)
qed

end

section \<open>NDArrayIter meets the contract\<close>

definition nd_inv :: "(nat \<Rightarrow> nat list \<Rightarrow> nat list) \<Rightarrow> 'a ndarray_iter \<Rightarrow> bool" where
  "nd_inv shuf s \<longleftrightarrow>
     (\<exists>n bs. ni_ok n bs s \<and> bs \<le> n) \<and> - batch_size s \<le> cursor s
     \<and> last_batch_handle s \<in> {''pad'', ''discard''}
     \<and> (ni_shuffle s \<longrightarrow> (\<forall>k xs. mset (shuf k xs) = mset xs))"

lemma nd_next_cases:
  assumes "nd_inv shuf s"
  shows "\<exists>t r. NDArrayIter_next s = (t, r) \<and> same_sources s t
    \<and> 0 \<le> cursor t \<and> (\<forall>e. r = Inl e \<longrightarrow> e = StopIteration)
    \<and> (cursor s = - batch_size s \<longrightarrow> (\<exists>b. r = Inr b))"
proof -
  from assms obtain n bs where ok: "ni_ok n bs s" and le: "bs \<le> n"
    and lo: "- batch_size s \<le> cursor s"
    by (auto simp: nd_inv_def)
  note d = ni_okD [OF ok]
  have "0 \<le> cursor s + int bs" using lo d(5) by simp
  then obtain c where c: "cursor s + int bs = int c" by (metis zero_le_imp_eq_int)
  have first: "cursor s = - batch_size s \<Longrightarrow> c = 0" using c d(5) by simp
  consider "c + bs \<le> n" | "c < n" "n < c + bs" "last_batch_handle s = ''pad''"
    | "c < n" "n < c + bs" "last_batch_handle s \<noteq> ''pad''" | "n \<le> c"
    by linarith
  then show ?thesis
  proof cases
    case 1
    then show ?thesis by (simp add: next_full [OF ok c] same_sources_def)
  next
    case 2
    moreover have "c + bs - n \<le> n" using le 2 by simp
    ultimately show ?thesis by (simp add: next_pad [OF ok c] same_sources_def)
  next
    case 3
    then show ?thesis using first le by (auto simp: next_short [OF ok c] same_sources_def)
  next
    case 4
    then have "NDArrayIter_next s = (s\<lparr> cursor := int c \<rparr>, Inl StopIteration)"
      using c by (subst next_end) (simp_all add: d(4,5))
    then show ?thesis using first 4 d(6) by (auto simp: same_sources_def)
  qed
qed

lemma nd_reset_cases:
  assumes "nd_inv shuf s"
  shows "\<exists>t. NDArrayIter_reset cast shuf s = (t, Inr ()) \<and> nd_inv shuf t
    \<and> cursor t = - batch_size t"
proof -
  from assms obtain n bs where ok: "ni_ok n bs s" and le: "bs \<le> n"
    and h: "last_batch_handle s \<in> {''pad'', ''discard''}"
    by (auto simp: nd_inv_def)
  show ?thesis
  proof (cases "ni_shuffle s")
    case True
    then have perm: "\<And>k xs. mset (shuf k xs) = mset xs" using assms by (simp add: nd_inv_def)
    from NDArrayIter_reset_shuffle [where shuf = shuf and cast = cast, OF ok True perm] obtain t where
      "NDArrayIter_reset cast shuf s = (t, Inr ())" "ni_ok n bs t"
      "last_batch_handle t = last_batch_handle s" "ni_shuffle t = ni_shuffle s"
      "last_batch_handle s \<noteq> ''roll_over'' \<longrightarrow> cursor t = - batch_size t"
      by auto
    with le h perm show ?thesis by (auto simp: nd_inv_def)
  next
    case False
    then have "NDArrayIter_reset cast shuf s = (s\<lparr> cursor := - batch_size s \<rparr>, Inr ())"
      using h by (auto simp: NDArrayIter_reset_def)
    then show ?thesis using assms by (auto simp: nd_inv_def)
  qed
qed

interpretation nd_iter: data_iter "nd_inv shuf" NDArrayIter_next "NDArrayIter_reset cast shuf"
  for cast shuf
proof
  fix s :: "'a ndarray_iter" assume s: "nd_inv shuf s"
  from nd_next_cases [OF s] obtain t r where t: "NDArrayIter_next s = (t, r)" "same_sources s t"
    "0 \<le> cursor t" "\<forall>e. r = Inl e \<longrightarrow> e = StopIteration"
    by auto
  from s have "0 < batch_size s" by (auto simp: nd_inv_def ni_ok_def)
  with s t show "nd_inv shuf (fst (NDArrayIter_next s))"
    using same_sources_ok [OF t(2)] by (auto simp: nd_inv_def same_sources_def)
  show "e = StopIteration" if "snd (NDArrayIter_next s) = Inl e" for e
    using that t by simp
  from nd_reset_cases [OF s, of cast] obtain u where
    u: "NDArrayIter_reset cast shuf s = (u, Inr ())" "nd_inv shuf u" "cursor u = - batch_size u"
    by auto
  then show "nd_inv shuf (fst (NDArrayIter_reset cast shuf s))"
    "snd (NDArrayIter_reset cast shuf s) = Inr ()"
    by simp_all
  show "\<exists>b. snd (NDArrayIter_next (fst (NDArrayIter_reset cast shuf s))) = Inr b"
    using nd_next_cases [OF u(2)] u by auto
qed

interpretation nd_resized: data_iter "nd_iter.rinv shuf"
  "ResizeIter_next NDArrayIter_next (NDArrayIter_reset cast shuf)"
  "ResizeIter_reset (NDArrayIter_reset cast shuf)"
  for cast shuf
  by (rule nd_iter.resize_data_iter)

text \<open>A \<open>ResizeIter\<close> over an \<open>NDArrayIter\<close> in mode \<open>pad\<close> or \<open>discard\<close>, shuffling or not, whose
  batch size is at most the number of rows, delivers exactly \<open>size\<close> batches in an epoch and then
  stops, from wherever its inner iterator stands.\<close>

theorem ResizeIter_size:
  assumes "nd_inv shuf it" and "0 \<le> sz"
  shows "\<exists>t bb. drain (nat sz + 1) (ResizeIter_next NDArrayIter_next (NDArrayIter_reset cast shuf))
      (ResizeIter_init it sz internal) = Some (t, bb, StopIteration) \<and> int (length bb) = sz"
  using nd_iter.resize_run [of shuf "ResizeIter_init it sz internal" "nat sz" cast] assms
  by (auto simp: ResizeIter_init_def)

text \<open>Resizing composes: a \<open>ResizeIter\<close> over a \<open>ResizeIter\<close> of positive size over such an
  \<open>NDArrayIter\<close> again delivers exactly its own \<open>size\<close> batches.\<close>

lemma ResizeIter_nested_size:
  assumes "nd_inv shuf it" and "0 < inner" and "0 \<le> sz"
  shows "\<exists>t bb. drain (nat sz + 1)
      (ResizeIter_next (ResizeIter_next NDArrayIter_next (NDArrayIter_reset cast shuf))
         (ResizeIter_reset (NDArrayIter_reset cast shuf)))
      (ResizeIter_init (ResizeIter_init it inner True) sz internal) = Some (t, bb, StopIteration)
    \<and> int (length bb) = sz"
  using nd_resized.resize_run [of shuf "ResizeIter_init (ResizeIter_init it inner True) sz internal"
      "nat sz" cast] assms
  by (auto simp: ResizeIter_init_def nd_iter.rinv_def)

lemma demo_nd_inv: "nd_inv (\<lambda>_ xs. xs) (demo_iter ''pad'' 2 True)"
proof -
  have "\<exists>n bs. ni_ok n bs (demo_iter ''pad'' 2 True) \<and> bs \<le> n"
    using demo_iter_ok [of 2 "''pad''" True] by (intro exI [of _ 5] exI [of _ 2]) simp
  then show ?thesis unfolding nd_inv_def by (simp add: demo_iter_def)
qed

theorem ResizeIter_size_witness:
  "\<exists>t bb. drain 8 (ResizeIter_next NDArrayIter_next (NDArrayIter_reset (\<lambda>_ x. x) (\<lambda>_ xs. xs)))
      (ResizeIter_init (demo_iter ''pad'' 2 True) 7 True) = Some (t, bb, StopIteration)
    \<and> length bb = 7"
  using ResizeIter_size [OF demo_nd_inv, of 7 "\<lambda>_ x. x" True] by auto

end
