(* ===== verification/Prefetching.thy ===== *)
theory Prefetching
  imports Iter_Adapters
begin

text \<open>
  \<open>PrefetchingIter\<close> of \<open>python/mxnet/io/io.py\<close>: one thread per inner iterator fetches the next batch
  while the caller works on the current one.

  The state has one \<open>worker\<close> record per iterator (its slots of \<open>iters\<close>, \<open>next_batch\<close>, \<open>data_ready\<close> and
  \<open>data_taken\<close>, and where its thread stands in \<open>prefetch_func\<close>), where the calling thread stands, and
  the log of what its calls returned.  \<open>pf_step\<close> executes one action of one thread: each access to
  an event object is an action of its own, so the runs of \<open>pf_reach\<close> are all interleavings.  A
  blocking \<open>wait\<close> is an action that is not enabled (\<open>None\<close>) yet.  An exception other than
  \<open>StopIteration\<close> ends a thread.
\<close>

section \<open>The threads\<close>

datatype worker_pc = Waiting | Fetched | Cleared | Dead

record ('s, 'b) worker =
  w_iter :: 's
  w_next :: "'b option"
  w_taken :: bool
  w_ready :: bool
  w_pc :: worker_pc

datatype caller_pc = Idle | Clearing nat | Releasing nat

datatype 'b pf_event = Batch 'b | Raised exn | DidReset | ResetRaised exn

record ('s, 'b) prefetching =
  pf_workers :: "('s, 'b) worker list"
  pf_caller :: caller_pc
  pf_log :: "'b pf_event list"

datatype pf_action = Fetch nat | ClearTaken nat | SetReady nat | CallNext | CallReset | Continue

definition PrefetchingIter_init :: "'s list \<Rightarrow> ('s, 'b) prefetching result" where
  "PrefetchingIter_init iters =
     (if iters = [] then Inl AssertionError
      else Inr \<lparr> pf_workers = map (\<lambda>it. \<lparr> w_iter = it, w_next = None, w_taken = True,
                                             w_ready = False, w_pc = Waiting \<rparr>) iters,
                 pf_caller = Idle, pf_log = [] \<rparr>)"

text \<open>The three actions of \<open>prefetch_func\<close>.\<close>

definition worker_fetch :: "('s \<Rightarrow> ('s, 'b) outcome) \<Rightarrow> ('s, 'b) worker \<Rightarrow> ('s, 'b) worker option" where
  "worker_fetch nxt w =
     (if w_pc w = Waiting \<and> w_taken w
      then Some (case nxt (w_iter w) of
                   (it, Inr b) \<Rightarrow> w\<lparr> w_iter := it, w_next := Some b, w_pc := Fetched \<rparr>
                 | (it, Inl StopIteration) \<Rightarrow> w\<lparr> w_iter := it, w_next := None, w_pc := Fetched \<rparr>
                 | (it, Inl e) \<Rightarrow> w\<lparr> w_iter := it, w_pc := Dead \<rparr>)
      else None)"

definition worker_clear :: "('s, 'b) worker \<Rightarrow> ('s, 'b) worker option" where
  "worker_clear w =
     (if w_pc w = Fetched then Some (w\<lparr> w_taken := False, w_pc := Cleared \<rparr>) else None)"

definition worker_ready :: "('s, 'b) worker \<Rightarrow> ('s, 'b) worker option" where
  "worker_ready w =
     (if w_pc w = Cleared then Some (w\<lparr> w_ready := True, w_pc := Waiting \<rparr>) else None)"

definition worker_step ::
  "(('s, 'b) worker \<Rightarrow> ('s, 'b) worker option) \<Rightarrow> nat \<Rightarrow> ('s, 'b) prefetching \<Rightarrow>
   ('s, 'b) prefetching option" where
  "worker_step f i s =
     (if i < length (pf_workers s)
      then map_option (\<lambda>w. s\<lparr> pf_workers := (pf_workers s)[i := w] \<rparr>) (f (pf_workers s ! i))
      else None)"

text \<open>
  What \<open>iter_next\<close> makes of the fetched batches once all are ready: the merged batch, the end, or
  the assertion that the iterators do not fit together.
\<close>

definition pf_combine :: "'a data_batch option list \<Rightarrow> 'a data_batch result" where
  "pf_combine nexts =
     (case nexts of
        [] \<Rightarrow> Inl IndexError
      | None # _ \<Rightarrow> if (\<forall>b \<in> set nexts. b = None) then Inl StopIteration else Inl AssertionError
      | Some b0 # _ \<Rightarrow>
          rbind (mapM (\<lambda>b. case b of
                             None \<Rightarrow> Inl AttributeError
                           | Some b \<Rightarrow> if b_pad b = b_pad b0 then Inr b else Inl AssertionError) nexts)
            (\<lambda>bs. Inr \<lparr> b_data = concat (map b_data bs), b_label = concat (map b_label bs),
                        b_pad = b_pad b0 \<rparr>))"

definition all_ready :: "('s, 'b) prefetching \<Rightarrow> bool" where
  "all_ready s = list_all w_ready (pf_workers s)"

definition call_next :: "('s, 'a data_batch) prefetching \<Rightarrow> ('s, 'a data_batch) prefetching option" where
  "call_next s =
     (if pf_caller s = Idle \<and> all_ready s
      then Some (case pf_combine (map w_next (pf_workers s)) of
                   Inr b \<Rightarrow> s\<lparr> pf_caller := Clearing 0, pf_log := pf_log s @ [Batch b] \<rparr>
                 | Inl e \<Rightarrow> s\<lparr> pf_log := pf_log s @ [Raised e] \<rparr>)
      else None)"

fun reset_iters ::
  "('s \<Rightarrow> ('s, unit) outcome) \<Rightarrow> ('s, 'b) worker list \<Rightarrow> (('s, 'b) worker list, unit) outcome" where
  "reset_iters rst [] = ([], Inr ())"
| "reset_iters rst (w # ws) =
     (case rst (w_iter w) of
        (it, Inl e) \<Rightarrow> (w\<lparr> w_iter := it \<rparr> # ws, Inl e)
      | (it, Inr _) \<Rightarrow>
          (case reset_iters rst ws of (ws', r) \<Rightarrow> (w\<lparr> w_iter := it \<rparr> # ws', r)))"

definition call_reset ::
  "('s \<Rightarrow> ('s, unit) outcome) \<Rightarrow> ('s, 'b) prefetching \<Rightarrow> ('s, 'b) prefetching option" where
  "call_reset rst s =
     (if pf_caller s = Idle \<and> all_ready s
      then Some (case reset_iters rst (pf_workers s) of
                   (ws, Inr _) \<Rightarrow>
                     s\<lparr> pf_workers := ws, pf_caller := Clearing 0, pf_log := pf_log s @ [DidReset] \<rparr>
                 | (ws, Inl e) \<Rightarrow>
                     s\<lparr> pf_workers := ws, pf_log := pf_log s @ [ResetRaised e] \<rparr>)
      else None)"

text \<open>The loops over \<open>data_ready\<close> (\<open>clear\<close>) and \<open>data_taken\<close> (\<open>set\<close>) that end both calls.\<close>

definition call_continue :: "('s, 'b) prefetching \<Rightarrow> ('s, 'b) prefetching option" where
  "call_continue s =
     (let ws = pf_workers s; n = length ws in
      case pf_caller s of
        Idle \<Rightarrow> None
      | Clearing k \<Rightarrow>
          Some (if k < n
                then s\<lparr> pf_workers := ws[k := (ws ! k)\<lparr> w_ready := False \<rparr>], pf_caller := Clearing (k + 1) \<rparr>
                else s\<lparr> pf_caller := Releasing 0 \<rparr>)
      | Releasing k \<Rightarrow>
          Some (if k < n
                then s\<lparr> pf_workers := ws[k := (ws ! k)\<lparr> w_taken := True \<rparr>], pf_caller := Releasing (k + 1) \<rparr>
                else s\<lparr> pf_caller := Idle \<rparr>))"

fun pf_step ::
  "('s \<Rightarrow> ('s, 'a data_batch) outcome) \<Rightarrow> ('s \<Rightarrow> ('s, unit) outcome) \<Rightarrow> pf_action \<Rightarrow>
   ('s, 'a data_batch) prefetching \<Rightarrow> ('s, 'a data_batch) prefetching option" where
  "pf_step nxt rst (Fetch i) s = worker_step (worker_fetch nxt) i s"
| "pf_step nxt rst (ClearTaken i) s = worker_step worker_clear i s"
| "pf_step nxt rst (SetReady i) s = worker_step worker_ready i s"
| "pf_step nxt rst CallNext s = call_next s"
| "pf_step nxt rst CallReset s = call_reset rst s"
| "pf_step nxt rst Continue s = call_continue s"

inductive pf_reach ::
  "('s \<Rightarrow> ('s, 'a data_batch) outcome) \<Rightarrow> ('s \<Rightarrow> ('s, unit) outcome) \<Rightarrow> 's list \<Rightarrow>
   ('s, 'a data_batch) prefetching \<Rightarrow> bool"
  for nxt rst iters where
  pf_start: "PrefetchingIter_init iters = Inr s \<Longrightarrow> pf_reach nxt rst iters s"
| pf_more: "pf_reach nxt rst iters s \<Longrightarrow> pf_step nxt rst a s = Some t \<Longrightarrow> pf_reach nxt rst iters t"

section \<open>The sequential specification\<close>

text \<open>
  Without threads: the iterators stand at states \<open>ss\<close>; a batch is the merge of one \<open>next\<close> of each,
  and advances them; an end or a mismatch leaves them; a reset happens after one further \<open>next\<close>
  of each, the one that was prefetched and is thrown away, and does not fail.
\<close>

definition peek :: "('s \<Rightarrow> ('s, 'b) outcome) \<Rightarrow> 's \<Rightarrow> 'b option" where
  "peek nxt s = (case snd (nxt s) of Inr b \<Rightarrow> Some b | Inl _ \<Rightarrow> None)"

fun seq_state ::
  "('s \<Rightarrow> ('s, 'b) outcome) \<Rightarrow> ('s \<Rightarrow> ('s, unit) outcome) \<Rightarrow> 'b pf_event \<Rightarrow> 's \<Rightarrow> 's" where
  "seq_state nxt rst (Batch b) s = fst (nxt s)"
| "seq_state nxt rst (Raised e) s = s"
| "seq_state nxt rst DidReset s = fst (rst (fst (nxt s)))"
| "seq_state nxt rst (ResetRaised e) s = s"

fun seq_event :: "('s \<Rightarrow> ('s, 'a data_batch) outcome) \<Rightarrow> 's list \<Rightarrow> 'a data_batch pf_event \<Rightarrow> bool" where
  "seq_event nxt ss (Batch b) = (pf_combine (map (peek nxt) ss) = Inr b)"
| "seq_event nxt ss (Raised e) = (pf_combine (map (peek nxt) ss) = Inl e)"
| "seq_event nxt ss DidReset = True"
| "seq_event nxt ss (ResetRaised e) = False"

fun seq_accepts ::
  "('s \<Rightarrow> ('s, 'a data_batch) outcome) \<Rightarrow> ('s \<Rightarrow> ('s, unit) outcome) \<Rightarrow> 's list \<Rightarrow>
   'a data_batch pf_event list \<Rightarrow> bool" where
  "seq_accepts nxt rst ss [] = True"
| "seq_accepts nxt rst ss (e # es) =
     (seq_event nxt ss e \<and> seq_accepts nxt rst (map (seq_state nxt rst e) ss) es)"

definition seq_states ::
  "('s \<Rightarrow> ('s, 'b) outcome) \<Rightarrow> ('s \<Rightarrow> ('s, unit) outcome) \<Rightarrow> 's list \<Rightarrow> 'b pf_event list \<Rightarrow> 's list" where
  "seq_states nxt rst ss es = fold (\<lambda>e. map (seq_state nxt rst e)) es ss"

lemma seq_accepts_snoc:
  "seq_accepts nxt rst ss (es @ [e])
     \<longleftrightarrow> seq_accepts nxt rst ss es \<and> seq_event nxt (seq_states nxt rst ss es) e"
  by (induction es arbitrary: ss) (auto simp: seq_states_def)

lemma seq_states_snoc [simp]:
  "seq_states nxt rst ss (es @ [e]) = map (seq_state nxt rst e) (seq_states nxt rst ss es)"
  by (simp add: seq_states_def)

lemma length_seq_states [simp]: "length (seq_states nxt rst ss es) = length ss"
  by (induction es arbitrary: ss) (auto simp: seq_states_def)

section \<open>Every interleaving refines the specification\<close>

text \<open>
  A worker against the state \<open>q\<close> its iterator has in the specification: it was released for the
  next round and is somewhere between starting to fetch and having the batch ready, or it still
  waits to be released, with \<open>data_ready\<close> set until the caller's first loop has passed it.
\<close>

definition worker_ok ::
  "('s \<Rightarrow> ('s, 'b) outcome) \<Rightarrow> bool \<Rightarrow> bool \<Rightarrow> 's \<Rightarrow> ('s, 'b) worker \<Rightarrow> bool" where
  "worker_ok nxt released cleared q w \<longleftrightarrow>
     (let got = (w_iter w = fst (nxt q) \<and> w_next w = peek nxt q) in
      if released
      then (w_pc w = Waiting \<and> w_taken w \<and> \<not> w_ready w \<and> w_iter w = q)
         \<or> (w_pc w = Fetched \<and> w_taken w \<and> \<not> w_ready w \<and> got)
         \<or> (w_pc w = Cleared \<and> \<not> w_taken w \<and> \<not> w_ready w \<and> got)
         \<or> (w_pc w = Waiting \<and> \<not> w_taken w \<and> w_ready w \<and> got)
      else w_pc w = Waiting \<and> \<not> w_taken w \<and> (w_ready w \<longleftrightarrow> \<not> cleared) \<and> w_iter w = q)"

text \<open>How many actions a worker still needs until its batch is ready.\<close>

definition wait_cost :: "('s, 'b) worker \<Rightarrow> nat" where
  "wait_cost w =
     (case w_pc w of Waiting \<Rightarrow> if w_taken w then 3 else 0 | Fetched \<Rightarrow> 2 | Cleared \<Rightarrow> 1 | Dead \<Rightarrow> 0)"

definition pending :: "('s, 'b) prefetching \<Rightarrow> nat" where
  "pending s = sum_list (map wait_cost (pf_workers s))"

fun worker_action :: "pf_action \<Rightarrow> bool" where
  "worker_action (Fetch i) = True"
| "worker_action (ClearTaken i) = True"
| "worker_action (SetReady i) = True"
| "worker_action _ = False"

lemma worker_step_pending:
  assumes "worker_step f i s = Some t" 
    and "\<And>w w'. w \<in> set (pf_workers s) \<Longrightarrow> f w = Some w' \<Longrightarrow> wait_cost w' < wait_cost w"
  shows "pending t < pending s"
proof -
  from assms(1) obtain w where i: "i < length (pf_workers s)" and w: "f (pf_workers s ! i) = Some w"
    and t: "t = s\<lparr> pf_workers := (pf_workers s)[i := w] \<rparr>"
    by (auto simp: worker_step_def split: if_splits)
  have "sum_list ((map wait_cost (pf_workers s))[i := wait_cost w])
      = sum_list (map wait_cost (pf_workers s)) + wait_cost w - wait_cost (pf_workers s ! i)"
    using sum_list_update [of i "map wait_cost (pf_workers s)"] i by simp
  moreover have "wait_cost (pf_workers s ! i) \<le> sum_list (map wait_cost (pf_workers s))"
    using i by (intro elem_le_sum_list [of i "map wait_cost (pf_workers s)", simplified]) simp_all
  ultimately show ?thesis using assms(2) [OF nth_mem [OF i] w]
    by (simp add: pending_def t map_update)
qed

lemma fetch_cost:
  assumes "worker_fetch nxt w = Some w'"
  shows "wait_cost w' < wait_cost w"
proof -
  obtain it r where r: "nxt (w_iter w) = (it, r)" by (cases "nxt (w_iter w)")
  have pc: "w_pc w = Waiting" "w_taken w" using assms by (simp_all add: worker_fetch_def split: if_splits)
  with assms r have "w_pc w' = Fetched \<or> w_pc w' = Dead"
    by (cases r) (auto simp: worker_fetch_def split: exn.splits)
  with pc show ?thesis by (auto simp: wait_cost_def)
qed

lemma worker_action_pending:
  assumes "pf_step nxt rst a s = Some t" and "worker_action a"
    and "\<And>w. w \<in> set (pf_workers s) \<Longrightarrow> w_pc w = Cleared \<Longrightarrow> \<not> w_taken w"
  shows "pending t < pending s"
proof (cases a)
  case (Fetch i)
  with assms(1) have "worker_step (worker_fetch nxt) i s = Some t" by simp
  then show ?thesis by (rule worker_step_pending) (rule fetch_cost)
next
  case (ClearTaken i)
  with assms(1) have "worker_step worker_clear i s = Some t" by simp
  then show ?thesis by (rule worker_step_pending)
      (auto simp: worker_clear_def wait_cost_def split: if_splits)
next
  case (SetReady i)
  with assms(1) have "worker_step worker_ready i s = Some t" by simp
  then show ?thesis by (rule worker_step_pending)
      (use assms(3) in \<open>auto simp: worker_ready_def wait_cost_def split: if_splits\<close>)
qed (use assms(2) in simp_all)

lemma pending_bound: "pending s \<le> 3 * length (pf_workers s)"
proof -
  have "sum_list (map wait_cost ws) \<le> 3 * length ws" for ws :: "('s, 'b) worker list"
    by (induction ws) (auto simp: wait_cost_def split: worker_pc.splits)
  then show ?thesis by (simp add: pending_def)
qed

fun is_released :: "caller_pc \<Rightarrow> nat \<Rightarrow> bool" where
  "is_released Idle i = True"
| "is_released (Clearing k) i = False"
| "is_released (Releasing k) i = (i < k)"

fun is_cleared :: "caller_pc \<Rightarrow> nat \<Rightarrow> bool" where
  "is_cleared (Clearing k) i = (i < k)"
| "is_cleared _ i = True"

fun caller_ok :: "nat \<Rightarrow> caller_pc \<Rightarrow> bool" where
  "caller_ok n Idle = True"
| "caller_ok n (Clearing k) = (k \<le> n)"
| "caller_ok n (Releasing k) = (k \<le> n)"

lemma pf_combine_one: "pf_combine [Some b] = Inr b" "pf_combine [None] = Inl StopIteration"
  by (simp_all add: pf_combine_def)

locale prefetch = data_iter inv nxt rst
  for inv :: "'s \<Rightarrow> bool" and nxt :: "'s \<Rightarrow> ('s, 'a data_batch) outcome"
    and rst :: "'s \<Rightarrow> ('s, unit) outcome"
begin

definition pf_inv :: "'s list \<Rightarrow> ('s, 'a data_batch) prefetching \<Rightarrow> bool" where
  "pf_inv iters s \<longleftrightarrow>
     (let qs = seq_states nxt rst iters (pf_log s) in
      length (pf_workers s) = length iters \<and> caller_ok (length iters) (pf_caller s)
      \<and> seq_accepts nxt rst iters (pf_log s)
      \<and> (\<forall>i < length iters. inv (qs ! i)
           \<and> worker_ok nxt (is_released (pf_caller s) i) (is_cleared (pf_caller s) i)
               (qs ! i) (pf_workers s ! i)))"

lemma pf_invI:
  assumes "length (pf_workers s) = length iters" and "caller_ok (length iters) (pf_caller s)"
    and "seq_accepts nxt rst iters (pf_log s)"
    and "\<And>i. i < length iters \<Longrightarrow> inv (seq_states nxt rst iters (pf_log s) ! i)"
    and "\<And>i. i < length iters \<Longrightarrow>
      worker_ok nxt (is_released (pf_caller s) i) (is_cleared (pf_caller s) i)
        (seq_states nxt rst iters (pf_log s) ! i) (pf_workers s ! i)"
  shows "pf_inv iters s"
  using assms by (simp add: pf_inv_def Let_def)

lemma pf_invD:
  assumes "pf_inv iters s"
  shows "length (pf_workers s) = length iters" "caller_ok (length iters) (pf_caller s)"
    "seq_accepts nxt rst iters (pf_log s)"
    "i < length iters \<Longrightarrow> inv (seq_states nxt rst iters (pf_log s) ! i)"
    "i < length iters \<Longrightarrow>
      worker_ok nxt (is_released (pf_caller s) i) (is_cleared (pf_caller s) i)
        (seq_states nxt rst iters (pf_log s) ! i) (pf_workers s ! i)"
  using assms by (simp_all add: pf_inv_def Let_def)

lemma pf_inv_worker:
  assumes I: "pf_inv iters s" and i: "i < length iters"
    and w: "\<And>r c q. inv q \<Longrightarrow> worker_ok nxt r c q (pf_workers s ! i) \<Longrightarrow> worker_ok nxt r c q w"
  shows "pf_inv iters (s\<lparr> pf_workers := (pf_workers s)[i := w] \<rparr>)"
proof (rule pf_invI)
  fix j assume j: "j < length iters"
  then show "worker_ok nxt (is_released (pf_caller (s\<lparr>pf_workers := (pf_workers s)[i := w]\<rparr>)) j)
      (is_cleared (pf_caller (s\<lparr>pf_workers := (pf_workers s)[i := w]\<rparr>)) j)
      (seq_states nxt rst iters (pf_log (s\<lparr>pf_workers := (pf_workers s)[i := w]\<rparr>)) ! j)
      (pf_workers (s\<lparr>pf_workers := (pf_workers s)[i := w]\<rparr>) ! j)"
    using pf_invD [OF I] w i by (cases "i = j") simp_all
qed (use pf_invD [OF I] in simp_all)

lemma fetch_ok:
  assumes "inv q" and "worker_ok nxt r c q w" and "worker_fetch nxt w = Some w'"
  shows "worker_ok nxt r c q w'"
proof -
  from assms(3) have pc: "w_pc w = Waiting" "w_taken w" by (auto simp: worker_fetch_def split: if_splits)
  then have q: "r" "w_iter w = q" "\<not> w_ready w"
    using assms(2) by (auto simp: worker_ok_def Let_def split: if_splits)
  show ?thesis
  proof (cases "nxt q")
    case (Pair it x)
    show ?thesis
    proof (cases x)
      case (Inl e)
      then have "e = StopIteration" using next_stop [OF assms(1)] Pair by simp
      then show ?thesis using assms(3) Pair Inl pc q
        by (auto simp: worker_ok_def worker_fetch_def peek_def)
    next
      case (Inr b)
      then show ?thesis using assms(3) Pair pc q
        by (auto simp: worker_ok_def worker_fetch_def peek_def)
    qed
  qed
qed

lemma clear_ok:
  assumes "worker_ok nxt r c q w" and "worker_clear w = Some w'"
  shows "worker_ok nxt r c q w'"
proof -
  from assms(2) have pc: "w_pc w = Fetched" and w': "w' = w\<lparr> w_taken := False, w_pc := Cleared \<rparr>"
    by (simp_all add: worker_clear_def split: if_splits)
  show ?thesis using assms(1) pc unfolding w' by (simp add: worker_ok_def Let_def split: if_splits)
qed

lemma ready_ok:
  assumes "worker_ok nxt r c q w" and "worker_ready w = Some w'"
  shows "worker_ok nxt r c q w'"
proof -
  from assms(2) have pc: "w_pc w = Cleared" and w': "w' = w\<lparr> w_ready := True, w_pc := Waiting \<rparr>"
    by (simp_all add: worker_ready_def split: if_splits)
  show ?thesis using assms(1) pc unfolding w' by (simp add: worker_ok_def Let_def split: if_splits)
qed

lemma all_ready_ok:
  assumes I: "pf_inv iters s" and idle: "pf_caller s = Idle" and ready: "all_ready s"
    and i: "i < length iters"
  shows "w_iter (pf_workers s ! i) = fst (nxt (seq_states nxt rst iters (pf_log s) ! i))"
    and "w_next (pf_workers s ! i) = peek nxt (seq_states nxt rst iters (pf_log s) ! i)"
    and "w_pc (pf_workers s ! i) = Waiting \<and> \<not> w_taken (pf_workers s ! i) \<and> w_ready (pf_workers s ! i)"
  using pf_invD(1) [OF I] pf_invD(5) [OF I i] idle ready i
  by (auto simp: all_ready_def list_all_length worker_ok_def Let_def)

lemma nexts_ok:
  assumes I: "pf_inv iters s" and "pf_caller s = Idle" and "all_ready s"
  shows "map w_next (pf_workers s) = map (peek nxt) (seq_states nxt rst iters (pf_log s))"
  using all_ready_ok(2) [OF assms] pf_invD(1) [OF I] by (intro nth_equalityI) auto

lemma reset_iters_ok:
  "\<forall>w \<in> set ws. inv (w_iter w) \<Longrightarrow>
   reset_iters rst ws = (map (\<lambda>w. w\<lparr> w_iter := fst (rst (w_iter w)) \<rparr>) ws, Inr ())"
proof (induction ws)
  case (Cons w ws)
  then show ?case using reset_ok [of "w_iter w"] by (cases "rst (w_iter w)") auto
qed simp

lemma call_next_inv:
  assumes I: "pf_inv iters s" and step: "call_next s = Some t"
  shows "pf_inv iters t"
proof -
  from step have ready: "pf_caller s = Idle" "all_ready s"
    by (simp_all add: call_next_def split: if_splits)
  note ok = all_ready_ok [OF I ready] and D = pf_invD [OF I]
  show ?thesis
  proof (cases "pf_combine (map w_next (pf_workers s))")
    case (Inl e)
    then have t: "t = s\<lparr> pf_log := pf_log s @ [Raised e] \<rparr>"
      using step ready by (simp add: call_next_def)
    show ?thesis unfolding t
      by (rule pf_invI) (use D Inl nexts_ok [OF I ready] in \<open>simp_all add: seq_accepts_snoc\<close>)
  next
    case (Inr b)
    then have t: "t = s\<lparr> pf_caller := Clearing 0, pf_log := pf_log s @ [Batch b] \<rparr>"
      using step ready by (simp add: call_next_def)
    show ?thesis unfolding t
      by (rule pf_invI) (use D ok Inr nexts_ok [OF I ready] in
          \<open>simp_all add: seq_accepts_snoc next_inv worker_ok_def\<close>)
  qed
qed

lemma call_reset_inv:
  assumes I: "pf_inv iters s" and step: "call_reset rst s = Some t"
  shows "pf_inv iters t"
proof -
  from step have ready: "pf_caller s = Idle" "all_ready s"
    by (simp_all add: call_reset_def split: if_splits)
  note ok = all_ready_ok [OF I ready] and D = pf_invD [OF I]
  have "\<forall>w \<in> set (pf_workers s). inv (w_iter w)"
    using ok(1) D(1,4) next_inv by (auto simp: in_set_conv_nth)
  then have t: "t = s\<lparr> pf_workers := map (\<lambda>w. w\<lparr> w_iter := fst (rst (w_iter w)) \<rparr>) (pf_workers s),
      pf_caller := Clearing 0, pf_log := pf_log s @ [DidReset] \<rparr>"
    using step ready by (simp add: call_reset_def reset_iters_ok)
  show ?thesis unfolding t
    by (rule pf_invI) (use D ok in
        \<open>simp_all add: seq_accepts_snoc next_inv reset_inv worker_ok_def\<close>)
qed

lemma call_continue_inv:
  assumes I: "pf_inv iters s" and step: "call_continue s = Some t"
  shows "pf_inv iters t"
proof (cases "pf_caller s")
  case Idle
  then show ?thesis using step by (simp add: call_continue_def)
next
  case (Clearing k)
  note D = pf_invD [OF I, unfolded Clearing, simplified]
  show ?thesis
  proof (cases "k < length iters")
    case True
    then have t: "t = s\<lparr> pf_workers := (pf_workers s)[k := (pf_workers s ! k)\<lparr> w_ready := False \<rparr>],
        pf_caller := Clearing (k + 1) \<rparr>"
      using step Clearing D(1) by (simp add: call_continue_def Let_def)
    show ?thesis unfolding t
      by (rule pf_invI) (use D True in \<open>auto simp: worker_ok_def nth_list_update less_Suc_eq\<close>)
  next
    case False
    then have t: "t = s\<lparr> pf_caller := Releasing 0 \<rparr>"
      using step Clearing D(1) by (simp add: call_continue_def Let_def)
    have "i < length iters \<Longrightarrow> i < k" for i using False by simp
    with D show ?thesis unfolding t by (intro pf_invI) simp_all
  qed
next
  case (Releasing k)
  note D = pf_invD [OF I, unfolded Releasing, simplified]
  show ?thesis
  proof (cases "k < length iters")
    case True
    then have t: "t = s\<lparr> pf_workers := (pf_workers s)[k := (pf_workers s ! k)\<lparr> w_taken := True \<rparr>],
        pf_caller := Releasing (k + 1) \<rparr>"
      using step Releasing D(1) by (simp add: call_continue_def Let_def)
    show ?thesis unfolding t
    proof (rule pf_invI, goal_cases)
      case (5 i)
      then show ?case using D(1) D(5) [of i] True
        by (cases "i = k") (auto simp: worker_ok_def less_Suc_eq)
    qed (use D True in auto)
  next
    case False
    then have t: "t = s\<lparr> pf_caller := Idle \<rparr>"
      using step Releasing D(1) by (simp add: call_continue_def Let_def)
    have "i < length iters \<Longrightarrow> i < k" for i using False by simp
    with D show ?thesis unfolding t by (intro pf_invI) simp_all
  qed
qed

lemma pf_step_inv:
  assumes I: "pf_inv iters s" and step: "pf_step nxt rst a s = Some t"
  shows "pf_inv iters t"
proof -
  have worker: "pf_inv iters t" if "worker_step f i s = Some t"
    and "\<And>r c q w w'. inv q \<Longrightarrow> worker_ok nxt r c q w \<Longrightarrow> f w = Some w' \<Longrightarrow> worker_ok nxt r c q w'"
    for f i
  proof -
    from that(1) obtain w where i: "i < length iters" and w: "f (pf_workers s ! i) = Some w"
      and t: "t = s\<lparr> pf_workers := (pf_workers s)[i := w] \<rparr>"
      using pf_invD(1) [OF I] by (auto simp: worker_step_def split: if_splits)
    show ?thesis unfolding t by (rule pf_inv_worker [OF I i]) (rule that(2) [OF _ _ w])
  qed
  show ?thesis
  proof (cases a)
    case (Fetch i)
    with step have "worker_step (worker_fetch nxt) i s = Some t" by simp
    then show ?thesis by (rule worker) (rule fetch_ok)
  next
    case (ClearTaken i)
    with step have "worker_step worker_clear i s = Some t" by simp
    then show ?thesis by (rule worker) (rule clear_ok)
  next
    case (SetReady i)
    with step have "worker_step worker_ready i s = Some t" by simp
    then show ?thesis by (rule worker) (rule ready_ok)
  qed (use step call_next_inv [OF I] call_reset_inv [OF I] call_continue_inv [OF I] in simp_all)
qed

lemma pf_reach_inv:
  assumes "pf_reach nxt rst iters s" and "\<forall>it \<in> set iters. inv it"
  shows "pf_inv iters s"
  using assms
proof (induction rule: pf_reach.induct)
  case (pf_start s)
  then show ?case
    by (auto simp: PrefetchingIter_init_def pf_inv_def seq_states_def worker_ok_def Let_def
        split: if_splits)
next
  case (pf_more s a t)
  then show ?case using pf_step_inv by blast
qed

lemma worker_action_decreases:
  assumes I: "pf_inv iters s" and "pf_step nxt rst a s = Some t" and "worker_action a"
  shows "pending t < pending s"
  using assms(2,3)
proof (rule worker_action_pending)
  fix w assume "w \<in> set (pf_workers s)" and pc: "w_pc w = Cleared"
  then obtain i where "i < length iters" "w = pf_workers s ! i"
    using pf_invD(1) [OF I] by (auto simp: in_set_conv_nth)
  with pf_invD(5) [OF I] pc show "\<not> w_taken w"
    by (fastforce simp: worker_ok_def Let_def split: if_splits)
qed

text \<open>While the caller waits, some worker can act.\<close>

lemma waiting_progress:
  assumes I: "pf_inv iters s" and idle: "pf_caller s = Idle" and not: "\<not> all_ready s"
  shows "\<exists>a t. worker_action a \<and> pf_step nxt rst a s = Some t"
proof -
  from not obtain i where i: "i < length (pf_workers s)" and nr: "\<not> w_ready (pf_workers s ! i)"
    by (auto simp: all_ready_def list_all_length)
  then have "i < length iters" using pf_invD(1) [OF I] by simp
  from pf_invD(5) [OF I this] idle nr
  consider "w_pc (pf_workers s ! i) = Waiting" "w_taken (pf_workers s ! i)"
    | "w_pc (pf_workers s ! i) = Fetched" | "w_pc (pf_workers s ! i) = Cleared"
    by (auto simp: worker_ok_def Let_def)
  then show ?thesis
  proof cases
    case 1
    then show ?thesis using i
      by (intro exI [of _ "Fetch i"]) (simp add: worker_step_def worker_fetch_def)
  next
    case 2
    then show ?thesis using i
      by (intro exI [of _ "ClearTaken i"]) (simp add: worker_step_def worker_clear_def)
  next
    case 3
    then show ?thesis using i
      by (intro exI [of _ "SetReady i"]) (simp add: worker_step_def worker_ready_def)
  qed
qed

lemma seq_accepts_drain:
  "inv it \<Longrightarrow> seq_accepts nxt rst [it] (map Batch bb @ [Raised StopIteration]) \<Longrightarrow>
   \<exists>t. drain (length bb + 1) nxt it = Some (t, bb, StopIteration)"
proof (induction bb arbitrary: it)
  case Nil
  obtain t r where r: "nxt it = (t, r)" by (cases "nxt it")
  with Nil show ?case using next_stop [OF Nil(1)]
    by (cases r) (auto simp: peek_def pf_combine_one)
next
  case (Cons b bb)
  obtain t r where r: "nxt it = (t, r)" by (cases "nxt it")
  with Cons.prems(2) have "r = Inr b"
    by (cases r) (auto simp: peek_def pf_combine_one)
  moreover have "\<exists>t'. drain (length bb + 1) nxt t = Some (t', bb, StopIteration)"
    using Cons.IH [of t] Cons.prems r next_inv [OF Cons.prems(1)] by simp
  ultimately show ?case using r by auto
qed

end

section \<open>Prefetching over NDArrayIter\<close>

interpretation nd_prefetch: prefetch "nd_inv shuf" NDArrayIter_next "NDArrayIter_reset cast shuf"
  for cast shuf
  by unfold_locales

text \<open>C1. Whatever the interleaving of the prefetching threads with the caller, what the calls of
  \<open>next\<close> and \<open>reset\<close> return is what the iterators deliver one after the other without threads: each
  batch is the merge of one \<open>next\<close> of every inner iterator at the same position.\<close>

theorem PrefetchingIter_refines:
  assumes "pf_reach NDArrayIter_next (NDArrayIter_reset cast shuf) iters s"
    and "\<forall>it \<in> set iters. nd_inv shuf it"
  shows "seq_accepts NDArrayIter_next (NDArrayIter_reset cast shuf) iters (pf_log s)"
  using nd_prefetch.pf_invD(3) [OF nd_prefetch.pf_reach_inv [OF assms]] .


text \<open>Prefetching one \<open>NDArrayIter\<close> changes nothing of what a loop over it sees: when the calls of
  \<open>next\<close> so far returned the batches \<open>bb\<close> and then raised \<open>StopIteration\<close>, a plain loop over the inner
  iterator delivers exactly \<open>bb\<close>.\<close>

theorem PrefetchingIter_single_drain:
  assumes "pf_reach NDArrayIter_next (NDArrayIter_reset cast shuf) [it] s" and "nd_inv shuf it"
    and "pf_log s = map Batch bb @ [Raised StopIteration]"
  shows "\<exists>t. drain (length bb + 1) NDArrayIter_next it = Some (t, bb, StopIteration)"
proof -
  have "seq_accepts NDArrayIter_next (NDArrayIter_reset cast shuf) [it]
      (map Batch bb @ [Raised StopIteration])"
    using nd_prefetch.pf_invD(3) [OF nd_prefetch.pf_reach_inv [OF assms(1)]] assms(2,3) by simp
  then show ?thesis
    by (rule nd_prefetch.seq_accepts_drain [OF assms(2)])
qed

section \<open>Witnesses\<close>

fun pf_run ::
  "('s \<Rightarrow> ('s, 'a data_batch) outcome) \<Rightarrow> ('s \<Rightarrow> ('s, unit) outcome) \<Rightarrow> pf_action list \<Rightarrow>
   ('s, 'a data_batch) prefetching \<Rightarrow> ('s, 'a data_batch) prefetching option" where
  "pf_run nxt rst [] s = Some s"
| "pf_run nxt rst (a # as) s =
     (case pf_step nxt rst a s of None \<Rightarrow> None | Some t \<Rightarrow> pf_run nxt rst as t)"

lemma pf_run_reach:
  "pf_reach nxt rst iters s \<Longrightarrow> pf_run nxt rst as s = Some t \<Longrightarrow> pf_reach nxt rst iters t"
  by (induction as arbitrary: s) (auto intro: pf_more split: option.splits)

definition pf_demo :: "(nat ndarray_iter, nat data_batch) prefetching" where
  "pf_demo = \<lparr> pf_workers = [\<lparr> w_iter = demo_iter ''discard'' 3 False, w_next = None, w_taken = True,
        w_ready = False, w_pc = Waiting \<rparr>], pf_caller = Idle, pf_log = [] \<rparr>"

definition pf_demo_batch :: "nat data_batch" where
  "pf_demo_batch = \<lparr> b_data = [demo_array [10, 11, 12] ''float32''],
     b_label = [demo_array [0, 1, 0] ''int32''], b_pad = 0 \<rparr>"

definition pf_demo_end :: "(nat ndarray_iter, nat data_batch) prefetching" where
  "pf_demo_end = the (pf_run NDArrayIter_next (NDArrayIter_reset (\<lambda>_ x. x) (\<lambda>_ xs. xs))
     [Fetch 0, ClearTaken 0, SetReady 0, CallNext, Continue, Continue, Continue, Fetch 0, Continue,
      ClearTaken 0, SetReady 0, CallNext] pf_demo)"

lemma pf_demo_reach:
  "pf_reach NDArrayIter_next (NDArrayIter_reset (\<lambda>_ x. x) (\<lambda>_ xs. xs))
     [demo_iter ''discard'' 3 False] pf_demo"
  by (rule pf_start) (simp add: PrefetchingIter_init_def pf_demo_def)

lemma pf_demo_run:
  "pf_run NDArrayIter_next (NDArrayIter_reset (\<lambda>_ x. x) (\<lambda>_ xs. xs))
     [Fetch 0, ClearTaken 0, SetReady 0, CallNext, Continue, Continue, Continue, Fetch 0, Continue,
      ClearTaken 0, SetReady 0, CallNext] pf_demo = Some pf_demo_end
   \<and> pf_log pf_demo_end = [Batch pf_demo_batch, Raised StopIteration]"
  by code_simp

lemma pf_demo_inv: "nd_inv (\<lambda>_ xs. xs) (demo_iter ''discard'' 3 False)"
proof -
  have "\<exists>n bs. ni_ok n bs (demo_iter ''discard'' 3 False) \<and> bs \<le> n"
    using demo_iter_ok [of 3 "''discard''" False] by (intro exI [of _ 5] exI [of _ 3]) simp
  then show ?thesis unfolding nd_inv_def by (simp add: demo_iter_def)
qed

theorem PrefetchingIter_refines_witness:
  "seq_accepts NDArrayIter_next (NDArrayIter_reset (\<lambda>_ x. x) (\<lambda>_ xs. xs))
     [demo_iter ''discard'' 3 False] [Batch pf_demo_batch, Raised StopIteration]"
  using PrefetchingIter_refines [OF pf_run_reach [OF pf_demo_reach conjunct1 [OF pf_demo_run]]]
    pf_demo_run pf_demo_inv by simp


theorem PrefetchingIter_single_drain_witness:
  "\<exists>t. drain 2 NDArrayIter_next (demo_iter ''discard'' 3 False)
     = Some (t, [pf_demo_batch], StopIteration)"
  using PrefetchingIter_single_drain [OF pf_run_reach [OF pf_demo_reach conjunct1 [OF pf_demo_run]]
      pf_demo_inv, of "[pf_demo_batch]"] pf_demo_run
  by (simp add: numeral_2_eq_2 del: drain.simps)

end
