(* ===== verification/LR_Schedulers.thy ===== *)
theory LR_Schedulers
  imports Prelude
begin

text \<open>
  The learning rate schedulers of \<open>python/mxnet/lr_scheduler.py\<close>.

  A scheduler object is a record; the subclasses extend the record of \<open>LRScheduler\<close>.  The call
  operator takes the number of updates and returns the object after the call with the learning
  rate.  Floating point numbers are reals: rounding is not modelled.  The \<open>while\<close> loop of
  \<open>FactorScheduler\<close> is a partial function, \<open>None\<close> where it does not end; the others are total.
\<close>

section \<open>LRScheduler\<close>

record lr_scheduler =
  base_lr :: real
  warmup_steps :: int
  warmup_final_lr :: real
  warmup_begin_lr :: real
  warmup_mode :: string

definition LRScheduler_init :: "real \<Rightarrow> int \<Rightarrow> real \<Rightarrow> string \<Rightarrow> lr_scheduler result" where
  "LRScheduler_init base wsteps wbegin wmode =
     (if wbegin > base then Inl ValueError
      else if wsteps < 0 then Inl ValueError
      else if wmode \<notin> {''linear'', ''constant''} then Inl ValueError
      else Inr \<lparr> base_lr = base, warmup_steps = wsteps, warmup_final_lr = base,
                 warmup_begin_lr = wbegin, warmup_mode = wmode \<rparr>)"

definition get_warmup_lr :: "'a lr_scheduler_scheme \<Rightarrow> int \<Rightarrow> real result" where
  "get_warmup_lr s num_update =
     (if \<not> num_update < warmup_steps s then Inl AssertionError
      else if warmup_mode s = ''linear''
      then (if warmup_steps s = 0 then Inl ZeroDivisionError
            else Inr (warmup_begin_lr s
                      + (warmup_final_lr s - warmup_begin_lr s) * of_int num_update
                        / of_int (warmup_steps s)))
      else if warmup_mode s = ''constant'' then Inr (warmup_begin_lr s)
      else Inl ValueError)"

section \<open>FactorScheduler\<close>

record factor_scheduler = lr_scheduler +
  fs_step :: int
  fs_factor :: real
  stop_factor_lr :: real
  fs_count :: int

definition FactorScheduler_init ::
  "int \<Rightarrow> real \<Rightarrow> real \<Rightarrow> real \<Rightarrow> int \<Rightarrow> real \<Rightarrow> string \<Rightarrow> factor_scheduler result" where
  "FactorScheduler_init step factor stop base wsteps wbegin wmode =
     rbind (LRScheduler_init base wsteps wbegin wmode) (\<lambda>s.
       if step < 1 then Inl ValueError
       else if factor > 1 then Inl ValueError
       else Inr (lr_scheduler.extend s
              (factor_scheduler.fields step factor stop 0)))"

text \<open>One round of the loop body, and the loop.\<close>

definition factor_body :: "factor_scheduler \<Rightarrow> factor_scheduler" where
  "factor_body s =
     (let s = s\<lparr> fs_count := fs_count s + fs_step s \<rparr>;
          s = s\<lparr> base_lr := base_lr s * fs_factor s \<rparr>
      in if base_lr s < stop_factor_lr s then s\<lparr> base_lr := stop_factor_lr s \<rparr> else s)"

partial_function (option) factor_loop :: "int \<Rightarrow> factor_scheduler \<Rightarrow> factor_scheduler option" where
  "factor_loop num_update s =
     (if num_update > fs_count s + fs_step s then factor_loop num_update (factor_body s)
      else Some s)"

definition FactorScheduler_call ::
  "factor_scheduler \<Rightarrow> int \<Rightarrow> (factor_scheduler, real) outcome option" where
  "FactorScheduler_call s num_update =
     (if num_update < warmup_steps s then Some (s, get_warmup_lr s num_update)
      else map_option (\<lambda>s. (s, Inr (base_lr s))) (factor_loop num_update s))"

section \<open>MultiFactorScheduler\<close>

record multi_factor_scheduler = lr_scheduler +
  ms_step :: "int list"
  cur_step_ind :: nat
  ms_factor :: real
  ms_count :: int

fun check_steps :: "int option \<Rightarrow> int list \<Rightarrow> unit result" where
  "check_steps prev [] = Inr ()"
| "check_steps prev (x # xs) =
     (if (case prev of None \<Rightarrow> False | Some p \<Rightarrow> x \<le> p) then Inl ValueError
      else if x < 1 then Inl ValueError
      else check_steps (Some x) xs)"

definition MultiFactorScheduler_init ::
  "int list \<Rightarrow> real \<Rightarrow> real \<Rightarrow> int \<Rightarrow> real \<Rightarrow> string \<Rightarrow> multi_factor_scheduler result" where
  "MultiFactorScheduler_init step factor base wsteps wbegin wmode =
     rbind (LRScheduler_init base wsteps wbegin wmode) (\<lambda>s.
       if step = [] then Inl AssertionError
       else rbind (check_steps None step) (\<lambda>_.
         if factor > 1 then Inl ValueError
         else Inr (lr_scheduler.extend s
                (multi_factor_scheduler.fields step 0 factor 0))))"

function multi_loop :: "int \<Rightarrow> multi_factor_scheduler \<Rightarrow> multi_factor_scheduler" where
  "multi_loop num_update s =
     (if cur_step_ind s < length (ms_step s) \<and> num_update > ms_step s ! cur_step_ind s
      then multi_loop num_update
             (s\<lparr> ms_count := ms_step s ! cur_step_ind s, cur_step_ind := cur_step_ind s + 1,
                 base_lr := base_lr s * ms_factor s \<rparr>)
      else s)"
  by pat_completeness auto
termination
  by (relation "measure (\<lambda>(n, s). length (ms_step s) - cur_step_ind s)") auto

declare multi_loop.simps [simp del]

definition MultiFactorScheduler_call ::
  "multi_factor_scheduler \<Rightarrow> int \<Rightarrow> (multi_factor_scheduler, real) outcome" where
  "MultiFactorScheduler_call s num_update =
     (if num_update < warmup_steps s then (s, get_warmup_lr s num_update)
      else let s = multi_loop num_update s in (s, Inr (base_lr s)))"

section \<open>PolyScheduler and CosineScheduler\<close>

record decay_scheduler = lr_scheduler +
  base_lr_orig :: real
  max_update :: int
  final_lr :: real
  max_steps :: int

record poly_scheduler = decay_scheduler +
  power :: int

definition PolyScheduler_init ::
  "int \<Rightarrow> real \<Rightarrow> int \<Rightarrow> real \<Rightarrow> int \<Rightarrow> real \<Rightarrow> string \<Rightarrow> poly_scheduler result" where
  "PolyScheduler_init maxu base pwr final wsteps wbegin wmode =
     rbind (LRScheduler_init base wsteps wbegin wmode) (\<lambda>s.
       if maxu < 1 then Inl ValueError
       else Inr \<lparr> base_lr = base_lr s, warmup_steps = warmup_steps s,
                  warmup_final_lr = warmup_final_lr s, warmup_begin_lr = warmup_begin_lr s,
                  warmup_mode = warmup_mode s, base_lr_orig = base_lr s, max_update = maxu,
                  final_lr = final, max_steps = maxu - warmup_steps s, power = pwr \<rparr>)"

text \<open>Python's \<open>pow\<close> of a float and an int.\<close>

definition py_pow :: "real \<Rightarrow> int \<Rightarrow> real result" where
  "py_pow x p =
     (if 0 \<le> p then Inr (x ^ nat p)
      else if x = 0 then Inl ZeroDivisionError
      else Inr (inverse (x ^ nat (- p))))"

definition PolyScheduler_call :: "poly_scheduler \<Rightarrow> int \<Rightarrow> (poly_scheduler, real) outcome" where
  "PolyScheduler_call s num_update =
     (if num_update < warmup_steps s then (s, get_warmup_lr s num_update)
      else if num_update \<le> max_update s
      then (if max_steps s = 0 then (s, Inl ZeroDivisionError)
            else (case py_pow (1 - of_int (num_update - warmup_steps s) / of_int (max_steps s))
                         (power s) of
                    Inl e \<Rightarrow> (s, Inl e)
                  | Inr f \<Rightarrow>
                      (let s = s\<lparr> base_lr := final_lr s + (base_lr_orig s - final_lr s) * f \<rparr>
                       in (s, Inr (base_lr s)))))
      else (s, Inr (base_lr s)))"

definition CosineScheduler_init ::
  "int \<Rightarrow> real \<Rightarrow> real \<Rightarrow> int \<Rightarrow> real \<Rightarrow> string \<Rightarrow> decay_scheduler result" where
  "CosineScheduler_init maxu base final wsteps wbegin wmode =
     rbind (LRScheduler_init base wsteps wbegin wmode) (\<lambda>s.
       if maxu < 1 then Inl ValueError
       else Inr \<lparr> base_lr = base_lr s, warmup_steps = warmup_steps s,
                  warmup_final_lr = warmup_final_lr s, warmup_begin_lr = warmup_begin_lr s,
                  warmup_mode = warmup_mode s, base_lr_orig = base, max_update = maxu,
                  final_lr = final, max_steps = maxu - warmup_steps s \<rparr>)"

definition CosineScheduler_call :: "decay_scheduler \<Rightarrow> int \<Rightarrow> (decay_scheduler, real) outcome" where
  "CosineScheduler_call s num_update =
     (if num_update < warmup_steps s then (s, get_warmup_lr s num_update)
      else if num_update \<le> max_update s
      then (if max_steps s = 0 then (s, Inl ZeroDivisionError)
            else
             (let s = s\<lparr> base_lr := final_lr s + (base_lr_orig s - final_lr s)
                           * (1 + cos (pi * of_int (num_update - warmup_steps s)
                                       / of_int (max_steps s))) / 2 \<rparr>
              in (s, Inr (base_lr s))))
      else (s, Inr (base_lr s)))"

section \<open>Factor schedules in closed form\<close>

lemma factor_body_fields [simp]:
  "fs_count (factor_body s) = fs_count s + fs_step s" "fs_step (factor_body s) = fs_step s"
  "fs_factor (factor_body s) = fs_factor s" "stop_factor_lr (factor_body s) = stop_factor_lr s"
  "warmup_steps (factor_body s) = warmup_steps s"
  "base_lr (factor_body s) = max (stop_factor_lr s) (base_lr s * fs_factor s)"
  by (simp_all add: factor_body_def Let_def max_def)

lemma factor_body_iter [simp]:
  "fs_count ((factor_body ^^ k) s) = fs_count s + int k * fs_step s"
  "fs_step ((factor_body ^^ k) s) = fs_step s"
  "fs_factor ((factor_body ^^ k) s) = fs_factor s"
  "stop_factor_lr ((factor_body ^^ k) s) = stop_factor_lr s"
  "warmup_steps ((factor_body ^^ k) s) = warmup_steps s"
  by (induction k) (auto simp: algebra_simps)

lemma factor_loop_iter:
  assumes "1 \<le> fs_step s" and "k = nat ((n - fs_count s - 1) div fs_step s)"
  shows "factor_loop n s = Some ((factor_body ^^ k) s)"
  using assms
proof (induction k arbitrary: s)
  case 0
  then have "\<not> 1 \<le> (n - fs_count s - 1) div fs_step s" by simp
  then have "n - fs_count s - 1 < fs_step s"
    using le_div_int_iff [of "fs_step s" 1 "n - fs_count s - 1"] 0 by simp
  then show ?case by (subst factor_loop.simps) simp
next
  case (Suc k)
  have pos: "1 \<le> (n - fs_count s - 1) div fs_step s" using Suc.prems(2) by linarith
  then have "1 * fs_step s \<le> n - fs_count s - 1"
    using le_div_int_iff [of "fs_step s" 1 "n - fs_count s - 1"] Suc.prems(1) by simp
  then have go: "n > fs_count s + fs_step s" by simp
  have "(n - fs_count s - 1 - fs_step s) div fs_step s = (n - fs_count s - 1) div fs_step s - 1"
    using Suc.prems(1) div_mult_self1 [of "fs_step s" "n - fs_count s - 1" "- 1"] by simp
  then have "k = nat ((n - fs_count (factor_body s) - 1) div fs_step (factor_body s))"
    using Suc.prems(2) pos by (simp add: algebra_simps)
  then have "factor_loop n (factor_body s) = Some ((factor_body ^^ k) (factor_body s))"
    using Suc.IH [of "factor_body s"] Suc.prems(1) by simp
  then show ?case using go by (subst factor_loop.simps) (simp add: funpow_swap1)
qed

text \<open>
  \<open>factor_at step factor stop base N\<close>: the rate after the largest number of updates seen is \<open>N\<close>.
\<close>

definition decays :: "int \<Rightarrow> int \<Rightarrow> nat" where
  "decays step n = nat ((n - 1) div step)"

definition factor_at :: "int \<Rightarrow> real \<Rightarrow> real \<Rightarrow> real \<Rightarrow> int \<Rightarrow> real" where
  "factor_at step factor stop base n = max stop (base * factor ^ decays step n)"

lemma decay_iter:
  assumes "0 \<le> fs_factor s" "fs_factor s \<le> 1" "0 \<le> stop_factor_lr s"
    and "base_lr s = max (stop_factor_lr s) (b * fs_factor s ^ j)"
  shows "base_lr ((factor_body ^^ k) s) = max (stop_factor_lr s) (b * fs_factor s ^ (j + k))"
proof (induction k)
  case 0
  then show ?case using assms by simp
next
  case (Suc k)
  let ?S = "stop_factor_lr s" and ?f = "fs_factor s" and ?y = "b * fs_factor s ^ (j + k)"
  have "?S * ?f \<le> ?S" using assms by (simp add: mult_left_le)
  moreover have "?y \<le> ?S \<Longrightarrow> ?y * ?f \<le> ?S * ?f" by (rule mult_right_mono [OF _ assms(1)])
  ultimately have "max ?S (max ?S ?y * ?f) = max ?S (?y * ?f)" by (auto simp: max_def)
  then show ?case using Suc by (simp add: mult.assoc mult.left_commute mult.commute)
qed

lemma decays_more:
  assumes "1 \<le> step"
  shows "decays step m + nat ((n - int (decays step m) * step - 1) div step)
       = decays step (max m n)"
proof -
  let ?k = "decays step m"
  have eq: "n - int ?k * step - 1 = (n - 1) + (- int ?k) * step" by simp
  have "(n - int ?k * step - 1) div step = - int ?k + (n - 1) div step"
    unfolding eq using assms by (intro div_mult_self1) simp
  moreover have "(max m n - 1) div step = max ((m - 1) div step) ((n - 1) div step)"
    using assms zdiv_mono1 [of "m - 1" "n - 1" step] zdiv_mono1 [of "n - 1" "m - 1" step]
    by (auto simp: max_def)
  ultimately show ?thesis by (auto simp: decays_def)
qed

text \<open>The scheduler's state after calls whose largest effective argument is \<open>N\<close>.\<close>

definition factor_inv :: "factor_scheduler \<Rightarrow> int \<Rightarrow> factor_scheduler \<Rightarrow> bool" where
  "factor_inv s0 N s \<longleftrightarrow>
     fs_step s = fs_step s0 \<and> fs_factor s = fs_factor s0 \<and> stop_factor_lr s = stop_factor_lr s0
     \<and> warmup_steps s = warmup_steps s0
     \<and> fs_count s = int (decays (fs_step s0) N) * fs_step s0
     \<and> base_lr s = factor_at (fs_step s0) (fs_factor s0) (stop_factor_lr s0) (base_lr s0) N"

lemma factor_inv_call:
  assumes I: "factor_inv s0 N s" and "1 \<le> fs_step s0" and "0 \<le> fs_factor s0" "fs_factor s0 \<le> 1"
    and "0 \<le> stop_factor_lr s0" and n: "warmup_steps s0 \<le> n"
  shows "\<exists>t. FactorScheduler_call s n = Some (t, Inr (base_lr t)) \<and> factor_inv s0 (max N n) t"
proof -
  define k where "k = nat ((n - fs_count s - 1) div fs_step s)"
  let ?t = "(factor_body ^^ k) s"
  note inv = I [unfolded factor_inv_def factor_at_def]
  have "factor_loop n s = Some ?t"
    by (rule factor_loop_iter) (use inv assms(2) k_def in auto)
  then have "FactorScheduler_call s n = Some (?t, Inr (base_lr ?t))"
    using n inv by (simp add: FactorScheduler_call_def)
  moreover have dk: "decays (fs_step s0) N + k = decays (fs_step s0) (max N n)"
    using decays_more [OF assms(2), of N n] inv by (simp add: k_def)
  moreover have "base_lr ?t = max (stop_factor_lr s)
      (base_lr s0 * fs_factor s ^ (decays (fs_step s0) N + k))"
    using inv assms by (intro decay_iter) auto
  moreover have "fs_count ?t = int (decays (fs_step s0) (max N n)) * fs_step s0"
    using inv by (simp flip: dk) (simp add: algebra_simps)
  ultimately show ?thesis using inv by (auto simp: factor_inv_def factor_at_def)
qed

fun factor_calls :: "factor_scheduler \<Rightarrow> int list \<Rightarrow> factor_scheduler option" where
  "factor_calls s [] = Some s"
| "factor_calls s (n # ns) =
     (case FactorScheduler_call s n of
        Some (t, _) \<Rightarrow> factor_calls t ns
      | None \<Rightarrow> None)"

lemma factor_calls_inv:
  assumes "factor_inv s0 N s" and "1 \<le> fs_step s0" and "0 \<le> fs_factor s0" "fs_factor s0 \<le> 1"
    and "0 \<le> stop_factor_lr s0" and "\<forall>m \<in> set ns. m \<le> n" and "N \<le> n"
  shows "\<exists>t M. factor_calls s ns = Some t \<and> factor_inv s0 M t \<and> M \<le> n"
  using assms
proof (induction ns arbitrary: s N)
  case Nil
  then show ?case by auto
next
  case (Cons m ns)
  show ?case
  proof (cases "m < warmup_steps s")
    case True
    then show ?thesis using Cons.IH [of N s] Cons.prems by (simp add: FactorScheduler_call_def)
  next
    case False
    with Cons.prems(1) have "warmup_steps s0 \<le> m" by (simp add: factor_inv_def)
    from factor_inv_call [OF Cons.prems(1-5) this] obtain t where
      "FactorScheduler_call s m = Some (t, Inr (base_lr t))" "factor_inv s0 (max N m) t"
      by auto
    then show ?thesis using Cons.IH [of "max N m" t] Cons.prems by simp
  qed
qed


section \<open>Multi-factor schedules in closed form\<close>

lemma multi_loop_run:
  assumes "w = takeWhile (\<lambda>x. x < n) (drop (cur_step_ind s) (ms_step s))"
  shows "cur_step_ind (multi_loop n s) = cur_step_ind s + length w
    \<and> base_lr (multi_loop n s) = base_lr s * ms_factor s ^ length w
    \<and> ms_step (multi_loop n s) = ms_step s \<and> ms_factor (multi_loop n s) = ms_factor s
    \<and> warmup_steps (multi_loop n s) = warmup_steps s"
  using assms
proof (induction w arbitrary: s)
  case Nil
  have "\<not> (cur_step_ind s < length (ms_step s) \<and> n > ms_step s ! cur_step_ind s)"
  proof
    assume "cur_step_ind s < length (ms_step s) \<and> n > ms_step s ! cur_step_ind s"
    then have "takeWhile (\<lambda>x. x < n) (drop (cur_step_ind s) (ms_step s)) \<noteq> []"
      by (simp flip: Cons_nth_drop_Suc)
    with Nil show False by simp
  qed
  then have "multi_loop n s = s" by (subst multi_loop.simps) (simp only: if_False)
  then show ?case using Nil by simp
next
  case (Cons x w)
  have lt: "cur_step_ind s < length (ms_step s)"
    using Cons.prems by (cases "cur_step_ind s < length (ms_step s)") auto
  have split: "drop (cur_step_ind s) (ms_step s)
      = ms_step s ! cur_step_ind s # drop (Suc (cur_step_ind s)) (ms_step s)"
    using lt by (simp add: Cons_nth_drop_Suc)
  have n: "n > ms_step s ! cur_step_ind s"
    using Cons.prems unfolding split by (auto split: if_splits)
  have w: "w = takeWhile (\<lambda>x. x < n) (drop (Suc (cur_step_ind s)) (ms_step s))"
    using Cons.prems n unfolding split by simp
  let ?t = "s\<lparr> ms_count := ms_step s ! cur_step_ind s, cur_step_ind := cur_step_ind s + 1,
      base_lr := base_lr s * ms_factor s \<rparr>"
  have "multi_loop n s = multi_loop n ?t" using lt n by (subst multi_loop.simps) simp
  then show ?case using Cons.IH [of ?t] w by simp
qed

definition multi_inv :: "multi_factor_scheduler \<Rightarrow> int \<Rightarrow> multi_factor_scheduler \<Rightarrow> bool" where
  "multi_inv s0 N s \<longleftrightarrow>
     ms_step s = ms_step s0 \<and> ms_factor s = ms_factor s0 \<and> warmup_steps s = warmup_steps s0
     \<and> cur_step_ind s = length (takeWhile (\<lambda>x. x < N) (ms_step s0))
     \<and> base_lr s = base_lr s0 * ms_factor s0 ^ length (takeWhile (\<lambda>x. x < N) (ms_step s0))"

lemma takeWhile_more:
  "length (takeWhile (\<lambda>x. x < m) xs)
     + length (takeWhile (\<lambda>x. x < n) (drop (length (takeWhile (\<lambda>x. x < m) xs)) xs))
   = length (takeWhile (\<lambda>x. x < max m n) xs)" for m n :: int
proof (induction xs)
  case (Cons a xs)
  show ?case
  proof (cases "a < m")
    case False
    then show ?thesis by (cases "n \<le> m") (auto simp: max_def)
  qed (use Cons in auto)
qed simp

lemma multi_inv_call:
  assumes "multi_inv s0 N s" and "warmup_steps s0 \<le> n"
  shows "\<exists>t. MultiFactorScheduler_call s n = (t, Inr (base_lr t)) \<and> multi_inv s0 (max N n) t"
proof -
  note run = multi_loop_run [OF refl, of n s]
  have "MultiFactorScheduler_call s n = (multi_loop n s, Inr (base_lr (multi_loop n s)))"
    using assms by (simp add: MultiFactorScheduler_call_def multi_inv_def Let_def)
  moreover have "multi_inv s0 (max N n) (multi_loop n s)"
    using run assms(1) takeWhile_more [of N "ms_step s0" n]
    by (simp add: multi_inv_def mult.assoc flip: power_add)
  ultimately show ?thesis by blast
qed

definition multi_calls :: "multi_factor_scheduler \<Rightarrow> int list \<Rightarrow> multi_factor_scheduler" where
  "multi_calls s ns = fold (\<lambda>n s. fst (MultiFactorScheduler_call s n)) ns s"

lemma multi_calls_inv:
  assumes "multi_inv s0 N s" and "\<forall>m \<in> set ns. m \<le> n" and "N \<le> n"
  shows "\<exists>M. multi_inv s0 M (multi_calls s ns) \<and> M \<le> n"
  using assms
proof (induction ns arbitrary: s N)
  case Nil
  then show ?case by (auto simp: multi_calls_def)
next
  case (Cons m ns)
  show ?case
  proof (cases "m < warmup_steps s")
    case True
    then have "multi_calls s (m # ns) = multi_calls s ns"
      by (simp add: multi_calls_def MultiFactorScheduler_call_def)
    then show ?thesis using Cons.IH [OF Cons.prems(1)] Cons.prems by simp
  next
    case False
    with Cons.prems(1) have "warmup_steps s0 \<le> m" by (simp add: multi_inv_def)
    from multi_inv_call [OF Cons.prems(1) this] obtain t where
      t: "MultiFactorScheduler_call s m = (t, Inr (base_lr t))" "multi_inv s0 (max N m) t" by auto
    from t(1) have "multi_calls s (m # ns) = multi_calls t ns" by (simp add: multi_calls_def)
    then show ?thesis using Cons.IH [OF t(2)] Cons.prems by simp
  qed
qed

lemma check_steps_sorted:
  "check_steps prev xs = Inr () \<Longrightarrow>
   sorted_wrt (<) xs \<and> (\<forall>x \<in> set xs. 1 \<le> x \<and> (\<forall>p. prev = Some p \<longrightarrow> p < x))"
proof (induction prev xs rule: check_steps.induct)
  case (2 prev x xs)
  have ok: "\<not> (case prev of None \<Rightarrow> False | Some p \<Rightarrow> x \<le> p)" "1 \<le> x"
    "check_steps (Some x) xs = Inr ()"
    using "2.prems" by (auto split: if_splits)
  from "2.IH" [OF ok(1) _ ok(3)] ok(2)
  have "sorted_wrt (<) xs" "\<forall>y \<in> set xs. 1 \<le> y \<and> x < y" by auto
  with ok(1,2) show ?case by (cases prev) force+
qed simp

lemma takeWhile_sorted: "sorted_wrt (<) xs \<Longrightarrow> takeWhile (\<lambda>x. x < n) xs = filter (\<lambda>x. x < n) xs"
  for n :: int
proof (induction xs)
  case (Cons a xs)
  then show ?case by (cases "a < n") (auto simp: filter_empty_conv eq_commute [of "[]"])
qed simp

text \<open>After any earlier calls with no larger argument, a call of a \<open>MultiFactorScheduler\<close> with \<open>n\<close>
  past the warmup returns \<open>base_lr * factor ^ k\<close> where \<open>k\<close> is the number of entries of \<open>step\<close> that are
  strictly below \<open>n\<close>.\<close>

theorem MultiFactorScheduler_closed_form:
  assumes init: "MultiFactorScheduler_init step factor base wsteps wbegin wmode = Inr s"
    and "\<forall>m \<in> set ns. m \<le> n" and "wsteps \<le> n" and "0 \<le> n"
  shows "snd (MultiFactorScheduler_call (multi_calls s ns) n)
       = Inr (base * factor ^ length (filter (\<lambda>x. x < n) step))"
proof -
  from init have s: "ms_step s = step" "ms_factor s = factor" "base_lr s = base"
    "warmup_steps s = wsteps" "cur_step_ind s = 0" and chk: "check_steps None step = Inr ()"
    by (auto simp: MultiFactorScheduler_init_def LRScheduler_init_def lr_scheduler.defs
        multi_factor_scheduler.defs split: if_splits)
  note sorted = check_steps_sorted [OF chk]
  have "takeWhile (\<lambda>x. x < 0) step = []" using sorted by (cases step) auto
  then have "multi_inv s 0 s" using s by (simp add: multi_inv_def)
  from multi_calls_inv [OF this assms(2,4)] obtain M where
    M: "multi_inv s M (multi_calls s ns)" "M \<le> n" by auto
  from multi_inv_call [OF M(1)] assms(3) s obtain t where
    t: "MultiFactorScheduler_call (multi_calls s ns) n = (t, Inr (base_lr t))" "multi_inv s (max M n) t"
    by auto
  with M(2) s sorted show ?thesis by (simp add: multi_inv_def takeWhile_sorted max_absorb2)
qed

section \<open>Decay to a final rate\<close>

text \<open>
  What the polynomial and the cosine schedule have in common: a curve on \<open>[0, 1]\<close> that falls from 1
  to 0.
\<close>

locale decay_curve =
  fixes curve :: "real \<Rightarrow> real"
  assumes curve_0: "curve 0 = 1" and curve_1: "curve 1 = 0"
    and curve_anti: "0 \<le> x \<Longrightarrow> x \<le> y \<Longrightarrow> y \<le> 1 \<Longrightarrow> curve y \<le> curve x"
begin

definition rate :: "real \<Rightarrow> real \<Rightarrow> int \<Rightarrow> int \<Rightarrow> int \<Rightarrow> real" where
  "rate base final w m n = final + (base - final) * curve (of_int (n - w) / of_int (m - w))"

lemma rate_ends:
  assumes "w < m"
  shows "rate base final w m w = base" "rate base final w m m = final"
  using assms by (simp_all add: rate_def curve_0 curve_1)

lemma rate_anti:
  assumes "w < m" and "final \<le> base" and "w \<le> a" "a \<le> b" "b \<le> m"
  shows "rate base final w m b \<le> rate base final w m a"
proof -
  let ?x = "\<lambda>n. of_int (n - w) / of_int (m - w) :: real"
  have "0 \<le> ?x a" "?x a \<le> ?x b" "?x b \<le> 1"
    using assms by (auto intro: divide_right_mono simp: divide_le_eq_1)
  then have "curve (?x b) \<le> curve (?x a)" by (rule curve_anti)
  then show ?thesis using assms(2) by (auto simp: rate_def intro: mult_left_mono)
qed

lemma rate_bounds:
  assumes "w < m" and "final \<le> base" and "w \<le> n" "n \<le> m"
  shows "final \<le> rate base final w m n" "rate base final w m n \<le> base"
  using rate_anti [OF assms(1,2,3,4) order.refl] rate_anti [OF assms(1,2) order.refl assms(3,4)]
    rate_ends [OF assms(1)] by simp_all

end

interpretation poly: decay_curve "\<lambda>x. (1 - x) ^ Suc p" for p
proof
  fix x y :: real assume "0 \<le> x" "x \<le> y" "y \<le> 1"
  then show "(1 - y) ^ Suc p \<le> (1 - x) ^ Suc p" by (intro power_mono) auto
qed auto

interpretation cosine: decay_curve "\<lambda>x. (1 + cos (pi * x)) / 2"
proof
  fix x y :: real assume "0 \<le> x" "x \<le> y" "y \<le> 1"
  then have "cos (pi * y) \<le> cos (pi * x)"
    by (intro cos_monotone_0_pi_le) auto
  then show "(1 + cos (pi * y)) / 2 \<le> (1 + cos (pi * x)) / 2" by simp
qed auto

text \<open>A \<open>PolyScheduler\<close> with a positive power, a final rate not above the base rate and fewer
  warmup steps than \<open>max_update\<close> starts at the base rate after the warmup, never rises, stays between
  final and base rate, reaches the final rate at \<open>max_update\<close> and keeps it from there, whatever was
  called before (earlier calls only change the attribute \<open>base_lr\<close>).\<close>

theorem PolyScheduler_decay:
  assumes init: "PolyScheduler_init maxu base pwr final wsteps wbegin wmode = Inr s"
    and "1 \<le> pwr" and "final \<le> base" and "wsteps < maxu"
  shows "\<exists>f. (\<forall>x n. wsteps \<le> n \<and> n \<le> maxu \<longrightarrow>
            PolyScheduler_call (s\<lparr> base_lr := x \<rparr>) n = (s\<lparr> base_lr := f n \<rparr>, Inr (f n))
            \<and> final \<le> f n \<and> f n \<le> base)
      \<and> f wsteps = base \<and> f maxu = final
      \<and> (\<forall>a b. wsteps \<le> a \<and> a \<le> b \<and> b \<le> maxu \<longrightarrow> f b \<le> f a)
      \<and> (\<forall>n > maxu. PolyScheduler_call (s\<lparr> base_lr := f maxu \<rparr>) n
            = (s\<lparr> base_lr := f maxu \<rparr>, Inr final))"
proof -
  from init have s: "base_lr_orig s = base" "max_update s = maxu" "final_lr s = final"
    "max_steps s = maxu - wsteps" "power s = pwr" "warmup_steps s = wsteps"
    by (auto simp: PolyScheduler_init_def LRScheduler_init_def split: if_splits)
  from \<open>1 \<le> pwr\<close> obtain p where p: "nat pwr = Suc p" by (cases "nat pwr") auto
  let ?f = "poly.rate p base final wsteps maxu"
  have "PolyScheduler_call (s\<lparr> base_lr := x \<rparr>) n = (s\<lparr> base_lr := ?f n \<rparr>, Inr (?f n))"
    if "wsteps \<le> n" "n \<le> maxu" for x n
    using that assms(2,4) p
    by (simp add: PolyScheduler_call_def s py_pow_def poly.rate_def Let_def del: power_Suc)
  moreover have "PolyScheduler_call (s\<lparr> base_lr := ?f maxu \<rparr>) n = (s\<lparr> base_lr := ?f maxu \<rparr>, Inr final)"
    if "maxu < n" for n
    using that assms(4) poly.rate_ends [OF assms(4)] by (simp add: PolyScheduler_call_def s)
  ultimately show ?thesis
    using poly.rate_ends [OF assms(4)] poly.rate_anti [OF assms(4,3)] poly.rate_bounds [OF assms(4,3)]
    by (intro exI [of _ ?f]) (auto simp del: power_Suc)
qed

text \<open>The same for a \<open>CosineScheduler\<close>.\<close>

theorem CosineScheduler_decay:
  assumes init: "CosineScheduler_init maxu base final wsteps wbegin wmode = Inr s"
    and "final \<le> base" and "wsteps < maxu"
  shows "\<exists>f. (\<forall>x n. wsteps \<le> n \<and> n \<le> maxu \<longrightarrow>
            CosineScheduler_call (s\<lparr> base_lr := x \<rparr>) n = (s\<lparr> base_lr := f n \<rparr>, Inr (f n))
            \<and> final \<le> f n \<and> f n \<le> base)
      \<and> f wsteps = base \<and> f maxu = final
      \<and> (\<forall>a b. wsteps \<le> a \<and> a \<le> b \<and> b \<le> maxu \<longrightarrow> f b \<le> f a)
      \<and> (\<forall>n > maxu. CosineScheduler_call (s\<lparr> base_lr := f maxu \<rparr>) n
            = (s\<lparr> base_lr := f maxu \<rparr>, Inr final))"
proof -
  from init have s: "base_lr_orig s = base" "max_update s = maxu" "final_lr s = final"
    "max_steps s = maxu - wsteps" "warmup_steps s = wsteps"
    by (auto simp: CosineScheduler_init_def LRScheduler_init_def split: if_splits)
  let ?f = "cosine.rate base final wsteps maxu"
  have "CosineScheduler_call (s\<lparr> base_lr := x \<rparr>) n = (s\<lparr> base_lr := ?f n \<rparr>, Inr (?f n))"
    if "wsteps \<le> n" "n \<le> maxu" for x n
    using that assms(3)
    by (simp add: CosineScheduler_call_def s cosine.rate_def Let_def)
  moreover have "CosineScheduler_call (s\<lparr> base_lr := ?f maxu \<rparr>) n = (s\<lparr> base_lr := ?f maxu \<rparr>, Inr final)"
    if "maxu < n" for n
    using that assms(3) cosine.rate_ends [OF assms(3)] by (simp add: CosineScheduler_call_def s)
  ultimately show ?thesis
    using cosine.rate_ends [OF assms(3)] cosine.rate_anti [OF assms(3,2)]
      cosine.rate_bounds [OF assms(3,2)]
    by (intro exI [of _ ?f]) auto
qed

section \<open>Witnesses\<close>


theorem MultiFactorScheduler_closed_form_witness:
  "\<exists>s. MultiFactorScheduler_init [10, 20, 30] (1 / 2) 1 5 0 ''constant'' = Inr s
     \<and> snd (MultiFactorScheduler_call (multi_calls s [3, 11]) 20) = Inr (1 / 2)"
proof -
  obtain s where s: "MultiFactorScheduler_init [10, 20, 30] (1 / 2) 1 5 0 ''constant'' = Inr s"
    by (simp add: MultiFactorScheduler_init_def LRScheduler_init_def)
  from MultiFactorScheduler_closed_form [OF this, of "[3, 11]" 20] show ?thesis
    by (auto simp: s)
qed

theorem PolyScheduler_decay_witness:
  "\<exists>s f. PolyScheduler_init 100 1 2 0 10 0 ''linear'' = Inr s
     \<and> snd (PolyScheduler_call (s\<lparr> base_lr := 7 \<rparr>) 55) = Inr (f (55::int))
     \<and> 0 \<le> f 55 \<and> f 55 \<le> 1 \<and> f 10 = 1 \<and> f 100 = 0"
proof -
  obtain s where s: "PolyScheduler_init 100 1 2 0 10 0 ''linear'' = Inr s"
    by (simp add: PolyScheduler_init_def LRScheduler_init_def)
  from PolyScheduler_decay [OF this] obtain f where f: "\<forall>x n. 10 \<le> n \<and> n \<le> 100 \<longrightarrow>
        PolyScheduler_call (s\<lparr> base_lr := x \<rparr>) n = (s\<lparr> base_lr := f n \<rparr>, Inr (f n))
        \<and> 0 \<le> f n \<and> f n \<le> 1" "f 10 = 1" "f 100 = 0"
    by auto
  with s show ?thesis by (intro exI [of _ s] exI [of _ f]) (simp add: f(1) [rule_format])
qed

theorem CosineScheduler_decay_witness:
  "\<exists>s f. CosineScheduler_init 100 1 0 10 0 ''linear'' = Inr s
     \<and> snd (CosineScheduler_call (s\<lparr> base_lr := 7 \<rparr>) 55) = Inr (f (55::int))
     \<and> 0 \<le> f 55 \<and> f 55 \<le> 1 \<and> f 10 = 1 \<and> f 100 = 0"
proof -
  obtain s where s: "CosineScheduler_init 100 1 0 10 0 ''linear'' = Inr s"
    by (simp add: CosineScheduler_init_def LRScheduler_init_def)
  from CosineScheduler_decay [OF this] obtain f where f: "\<forall>x n. 10 \<le> n \<and> n \<le> 100 \<longrightarrow>
        CosineScheduler_call (s\<lparr> base_lr := x \<rparr>) n = (s\<lparr> base_lr := f n \<rparr>, Inr (f n))
        \<and> 0 \<le> f n \<and> f n \<le> 1" "f 10 = 1" "f 100 = 0"
    by auto
  with s show ?thesis by (intro exI [of _ s] exI [of _ f]) (simp add: f(1) [rule_format])
qed

end
