(* ===== verification/Record_Pack.thy ===== *)
theory Record_Pack
  imports Prelude "HOL-Library.Word"
begin

text \<open>
  Image records of \<open>python/mxnet/recordio.py\<close>: the header \<open>IRHeader\<close>, \<open>pack\<close> and \<open>unpack\<close>, and their
  variants for images.

  A byte is an \<open>8 word\<close>.  The format \<open>IfQQ\<close> is, on a little-endian machine, a 4-byte unsigned
  integer, a 4-byte float and two 8-byte unsigned integers, without padding: 24 bytes.  A label is
  given by its \<open>float32\<close> bit patterns.  A header field outside its range makes \<open>struct.pack\<close> raise
  (\<open>StructError\<close>).  The image codec of \<open>cv2\<close> is a parameter.
\<close>

type_synonym byte = "8 word"

section \<open>Little-endian integers\<close>

fun le_bytes :: "nat \<Rightarrow> nat \<Rightarrow> byte list" where
  "le_bytes 0 x = []"
| "le_bytes (Suc n) x = word_of_nat (x mod 256) # le_bytes n (x div 256)"

fun le_nat :: "byte list \<Rightarrow> nat" where
  "le_nat [] = 0"
| "le_nat (b # bs) = unat b + 256 * le_nat bs"

lemma length_le_bytes [simp]: "length (le_bytes n x) = n"
  by (induction n arbitrary: x) auto

lemma unat_of_byte [simp]: "x < 256 \<Longrightarrow> unat (word_of_nat x :: byte) = x"
  by (simp add: unat_of_nat)

lemma le_nat_bytes: "x < 256 ^ n \<Longrightarrow> le_nat (le_bytes n x) = x"
proof (induction n arbitrary: x)
  case (Suc n)
  have "x div 256 < 256 ^ n" using Suc.prems by (simp add: less_mult_imp_div_less mult.commute)
  then show ?case using Suc.IH by simp
qed simp

lemma byte_less: "unat (b :: byte) < 256"
proof -
  have "unat b < 2 ^ LENGTH(8)" by (rule unsigned_less)
  then show ?thesis by simp
qed

lemma le_bytes_nat: "le_bytes (length bs) (le_nat bs) = bs"
proof (induction bs)
  case (Cons b bs)
  have "(unat b + 256 * le_nat bs) mod 256 = unat b" "(unat b + 256 * le_nat bs) div 256 = le_nat bs"
    using byte_less [of b] by simp_all
  with Cons show ?case by simp
qed simp

lemma le_nat_less: "le_nat bs < 256 ^ length bs"
proof (induction bs)
  case (Cons b bs)
  have "unat b + 256 * le_nat bs < 256 * (le_nat bs + 1)" using byte_less [of b] by simp
  also have "\<dots> \<le> 256 * 256 ^ length bs" using Cons by (intro mult_le_mono2) simp
  finally show ?case by simp
qed simp

section \<open>Fixed-width codecs\<close>

text \<open>
  The contract of a field of fixed width: values that fit are encoded in \<open>width\<close> bytes and come back;
  any \<open>width\<close> bytes decode to a value that encodes to them.
\<close>

locale fixed_width =
  fixes enc :: "'a \<Rightarrow> byte list" and dec :: "byte list \<Rightarrow> 'a" and fits :: "'a \<Rightarrow> bool" and width :: nat
  assumes enc_length: "length (enc x) = width"
    and dec_enc: "fits x \<Longrightarrow> dec (enc x) = x"
    and enc_dec: "length bs = width \<Longrightarrow> enc (dec bs) = bs"
    and fits_dec: "length bs = width \<Longrightarrow> fits (dec bs)"
    and width_pos: "0 < width"
begin

text \<open>A field in front of other bytes.\<close>

lemma dec_take: "fits x \<Longrightarrow> dec (take width (enc x @ rest)) = x"
  by (simp add: enc_length dec_enc)

lemma drop_enc: "drop width (enc x @ rest) = rest"
  by (simp add: enc_length)

text \<open>An array of fields.\<close>

definition enc_array :: "'a list \<Rightarrow> byte list" where
  "enc_array xs = concat (map enc xs)"

definition dec_array :: "byte list \<Rightarrow> 'a list" where
  "dec_array bs = map dec (chunks width bs)"

lemma length_enc_array: "length (enc_array xs) = length xs * width"
  by (induction xs) (simp_all add: enc_array_def enc_length)

lemma dec_enc_array:
  assumes "\<forall>x \<in> set xs. fits x"
  shows "dec_array (enc_array xs) = xs"
  using assms
proof (induction xs)
  case (Cons x xs)
  have "chunks width (enc x @ enc_array xs) = enc x # chunks width (enc_array xs)"
    by (rule chunks_full) (simp_all add: width_pos enc_length)
  with Cons show ?case by (simp add: enc_array_def dec_array_def dec_enc)
qed (simp add: enc_array_def dec_array_def)

lemma enc_dec_array:
  assumes "length bs = k * width"
  shows "enc_array (dec_array bs) = bs" and "length (dec_array bs) = k"
    and "\<forall>x \<in> set (dec_array bs). fits x"
proof -
  have blocks: "chunks width bs = map (\<lambda>i. take width (drop (i * width) bs)) [0..<k]"
    using chunks_take_full [OF width_pos, of k bs] assms by simp
  then show "length (dec_array bs) = k" by (simp add: dec_array_def)
  have len: "\<forall>b \<in> set (chunks width bs). length b = width"
    using length_blocks [of k width bs] assms by (auto simp: blocks)
  then show "\<forall>x \<in> set (dec_array bs). fits x" by (auto simp: dec_array_def fits_dec)
  have "map enc (map dec (chunks width bs)) = chunks width bs"
    using len by (auto simp: enc_dec intro: map_idI)
  then show "enc_array (dec_array bs) = bs"
    by (simp only: enc_array_def dec_array_def concat_chunks [OF width_pos])
qed

end

definition enc_u32 :: "nat \<Rightarrow> byte list" where "enc_u32 = le_bytes 4"
definition enc_u64 :: "nat \<Rightarrow> byte list" where "enc_u64 = le_bytes 8"

text \<open>A \<open>float32\<close> by its bit pattern.\<close>

type_synonym f32 = "32 word"

definition enc_f32 :: "f32 \<Rightarrow> byte list" where "enc_f32 w = le_bytes 4 (unat w)"
definition dec_f32 :: "byte list \<Rightarrow> f32" where "dec_f32 bs = word_of_nat (le_nat bs)"

interpretation u32: fixed_width enc_u32 le_nat "\<lambda>x. x < 2 ^ 32" 4
proof
  fix bs :: "byte list" assume len: "length bs = 4"
  show "enc_u32 (le_nat bs) = bs" using le_bytes_nat [of bs] by (simp add: enc_u32_def len)
  show "le_nat bs < 2 ^ 32" using le_nat_less [of bs] by (simp add: len)
qed (auto simp: enc_u32_def le_nat_bytes)

interpretation u64: fixed_width enc_u64 le_nat "\<lambda>x. x < 2 ^ 64" 8
proof
  fix bs :: "byte list" assume len: "length bs = 8"
  show "enc_u64 (le_nat bs) = bs" using le_bytes_nat [of bs] by (simp add: enc_u64_def len)
  show "le_nat bs < 2 ^ 64" using le_nat_less [of bs] by (simp add: len)
qed (auto simp: enc_u64_def le_nat_bytes)

interpretation f32: fixed_width enc_f32 dec_f32 "\<lambda>_. True" 4
proof
  fix bs :: "byte list" assume len: "length bs = 4"
  have "le_nat bs < 2 ^ 32" using le_nat_less [of bs] by (simp add: len)
  then have "unat (word_of_nat (le_nat bs) :: f32) = le_nat bs" by (simp add: unat_of_nat)
  then show "enc_f32 (dec_f32 bs) = bs"
    using le_bytes_nat [of bs] by (simp add: enc_f32_def dec_f32_def len)
next
  fix w :: f32
  have "unat w < 2 ^ LENGTH(32)" by (rule unsigned_less)
  then have "unat w < 256 ^ 4" by simp
  then show "dec_f32 (enc_f32 w) = w" by (simp add: dec_f32_def enc_f32_def le_nat_bytes)
qed (auto simp: enc_f32_def)

section \<open>Headers\<close>

datatype ir_label = Scalar f32 | Labels "f32 list"

record ir_header =
  ir_flag :: int
  ir_label :: ir_label
  ir_id :: int
  ir_id2 :: int

definition ir_size :: nat where "ir_size = 24"

definition struct_pack :: "int \<Rightarrow> f32 \<Rightarrow> int \<Rightarrow> int \<Rightarrow> byte list result" where
  "struct_pack flag label i i2 =
     (if 0 \<le> flag \<and> flag < 2 ^ 32 \<and> 0 \<le> i \<and> i < 2 ^ 64 \<and> 0 \<le> i2 \<and> i2 < 2 ^ 64
      then Inr (enc_u32 (nat flag) @ enc_f32 label @ enc_u64 (nat i) @ enc_u64 (nat i2))
      else Inl StructError)"

definition struct_unpack :: "byte list \<Rightarrow> (int \<times> f32 \<times> int \<times> int) result" where
  "struct_unpack bs =
     (if length bs = ir_size
      then Inr (int (le_nat (take 4 bs)), dec_f32 (take 4 (drop 4 bs)),
                int (le_nat (take 8 (drop 8 bs))), int (le_nat (take 8 (drop 16 bs))))
      else Inl StructError)"

text \<open>\<open>label.tostring()\<close> and \<open>np.frombuffer(s, np.float32, count)\<close>.\<close>

definition label_bytes :: "f32 list \<Rightarrow> byte list" where
  "label_bytes ls = concat (map enc_f32 ls)"

definition frombuffer :: "byte list \<Rightarrow> nat \<Rightarrow> f32 list result" where
  "frombuffer s cnt =
     (if length s < cnt * 4 then Inl ValueError
      else Inr (map dec_f32 (chunks 4 (take (cnt * 4) s))))"

definition pack :: "ir_header \<Rightarrow> byte list \<Rightarrow> byte list result" where
  "pack header s =
     (case ir_label header of
        Scalar w \<Rightarrow>
          rbind (struct_pack 0 w (ir_id header) (ir_id2 header)) (\<lambda>h. Inr (h @ s))
      | Labels ls \<Rightarrow>
          rbind (struct_pack (int (length ls)) 0 (ir_id header) (ir_id2 header)) (\<lambda>h.
            Inr (h @ label_bytes ls @ s)))"

definition unpack :: "byte list \<Rightarrow> (ir_header \<times> byte list) result" where
  "unpack s =
     rbind (struct_unpack (take ir_size s)) (\<lambda>(flag, w, i, i2).
       let header = \<lparr> ir_flag = flag, ir_label = Scalar w, ir_id = i, ir_id2 = i2 \<rparr>;
           s = drop ir_size s
       in if 0 < flag
          then rbind (frombuffer s (nat flag)) (\<lambda>ls.
                 Inr (header\<lparr> ir_label := Labels ls \<rparr>, drop (nat flag * 4) s))
          else Inr (header, s))"

text \<open>Images: \<open>imdecode\<close> and \<open>imencode\<close> are those of \<open>cv2\<close>.\<close>

datatype imwrite_param = IMWRITE_JPEG_QUALITY int | IMWRITE_PNG_COMPRESSION int

definition upper_char :: "char \<Rightarrow> char" where
  "upper_char c =
     (if 97 \<le> (of_char c :: nat) \<and> (of_char c :: nat) \<le> 122 then char_of (of_char c - 32 :: nat) else c)"

definition unpack_img ::
  "(byte list \<Rightarrow> int \<Rightarrow> 'img) \<Rightarrow> byte list \<Rightarrow> int \<Rightarrow> (ir_header \<times> 'img) result" where
  "unpack_img imdecode s iscolor =
     rbind (unpack s) (\<lambda>(header, s).
       if s = [] then Inl ValueError else Inr (header, imdecode s iscolor))"

definition pack_img ::
  "(string \<Rightarrow> 'img \<Rightarrow> imwrite_param option \<Rightarrow> bool \<times> byte list) \<Rightarrow> ir_header \<Rightarrow> 'img \<Rightarrow> int \<Rightarrow>
   string \<Rightarrow> byte list result" where
  "pack_img imencode header img quality img_fmt =
     (let fmt = map upper_char img_fmt;
          params = (if fmt \<in> {''.JPG'', ''.JPEG''} then Some (IMWRITE_JPEG_QUALITY quality)
                    else if fmt = ''.PNG'' then Some (IMWRITE_PNG_COMPRESSION quality)
                    else None)
      in case imencode img_fmt img params of
           (ret, buf) \<Rightarrow> if ret then pack header buf else Inl AssertionError)"

section \<open>Round trips\<close>

lemma enc_lengths [simp]:
  "length (enc_u32 x) = 4" "length (enc_u64 x) = 8" "length (enc_f32 w) = 4"
  by (simp_all add: u32.enc_length u64.enc_length f32.enc_length)

lemma struct_unpack_pack:
  assumes "struct_pack flag w i i2 = Inr h"
  shows "length h = ir_size" and "struct_unpack h = Inr (flag, w, i, i2)"
proof -
  from assms have h: "h = enc_u32 (nat flag) @ enc_f32 w @ enc_u64 (nat i) @ enc_u64 (nat i2)"
    and range: "0 \<le> flag" "flag < 2 ^ 32" "0 \<le> i" "i < 2 ^ 64" "0 \<le> i2" "i2 < 2 ^ 64"
    by (auto simp: struct_pack_def split: if_splits)
  show len: "length h = ir_size" by (simp add: h ir_size_def)
  have "le_nat (enc_u32 (nat flag)) = nat flag" "le_nat (enc_u64 (nat i)) = nat i"
    "le_nat (enc_u64 (nat i2)) = nat i2" "dec_f32 (enc_f32 w) = w"
    using range u32.dec_enc [of "nat flag"] u64.dec_enc [of "nat i"] u64.dec_enc [of "nat i2"]
    by (simp_all add: f32.dec_enc nat_less_iff)
  then show "struct_unpack h = Inr (flag, w, i, i2)"
    using len range by (simp add: struct_unpack_def) (simp add: h)
qed

lemma struct_pack_unpack:
  assumes "struct_unpack bs = Inr (flag, w, i, i2)"
  shows "\<exists>h. struct_pack flag x i i2 = Inr h" and "0 \<le> flag" and "flag < 2 ^ 32"
proof -
  from assms have len: "length bs = 24" and v: "flag = int (le_nat (take 4 bs))"
    "i = int (le_nat (take 8 (drop 8 bs)))" "i2 = int (le_nat (take 8 (drop 16 bs)))"
    by (auto simp: struct_unpack_def ir_size_def split: if_splits)
  have "le_nat (take 4 bs) < 2 ^ 32" "le_nat (take 8 (drop 8 bs)) < 2 ^ 64"
    "le_nat (take 8 (drop 16 bs)) < 2 ^ 64"
    using u32.fits_dec [of "take 4 bs"] u64.fits_dec [of "take 8 (drop 8 bs)"]
      u64.fits_dec [of "take 8 (drop 16 bs)"] len by simp_all
  then show "\<exists>h. struct_pack flag x i i2 = Inr h" "0 \<le> flag" "flag < 2 ^ 32"
    by (simp_all add: struct_pack_def v)
qed

lemma frombuffer_labels:
  "frombuffer (label_bytes ls @ s) (length ls) = Inr ls"
  "length (label_bytes ls) = length ls * 4"
proof -
  show len: "length (label_bytes ls) = length ls * 4"
    using f32.length_enc_array [of ls] by (simp add: f32.enc_array_def label_bytes_def)
  show "frombuffer (label_bytes ls @ s) (length ls) = Inr ls"
    using f32.dec_enc_array [of ls] len
    by (simp add: frombuffer_def f32.enc_array_def f32.dec_array_def label_bytes_def)
qed

lemma frombuffer_length:
  assumes "frombuffer s k = Inr ls"
  shows "length ls = k" and "label_bytes ls = take (k * 4) s"
proof -
  from assms have k: "length (take (k * 4) s) = k * 4" and ls: "ls = f32.dec_array (take (k * 4) s)"
    by (auto simp: frombuffer_def f32.dec_array_def split: if_splits)
  show "length ls = k" "label_bytes ls = take (k * 4) s"
    using f32.enc_dec_array(1,2) [OF k] by (simp_all add: ls f32.enc_array_def label_bytes_def)
qed


text \<open>What \<open>unpack\<close> accepts can be packed again: \<open>pack\<close> of the header and payload succeeds, gives a
  record of the same length, and unpacking that gives the same header and payload.\<close>

theorem pack_unpack:
  assumes "unpack b = Inr (header, s)"
  shows "\<exists>b'. pack header s = Inr b' \<and> length b' = length b \<and> unpack b' = Inr (header, s)"
proof -
  from assms obtain flag w i i2 where
    u: "struct_unpack (take ir_size b) = Inr (flag, w, i, i2)"
    and rest: "(let header = \<lparr> ir_flag = flag, ir_label = Scalar w, ir_id = i, ir_id2 = i2 \<rparr>;
           s = drop ir_size b
       in if 0 < flag
          then rbind (frombuffer s (nat flag)) (\<lambda>ls.
                 Inr (header\<lparr> ir_label := Labels ls \<rparr>, drop (nat flag * 4) s))
          else Inr (header, s)) = Inr (header, s)"
    by (auto simp: unpack_def)
  have len: "length (take ir_size b) = ir_size"
    using u by (auto simp: struct_unpack_def split: if_splits)
  show ?thesis
  proof (cases "0 < flag")
    case False
    with rest struct_pack_unpack(2) [OF u] have h: "flag = 0"
      "header = \<lparr> ir_flag = 0, ir_label = Scalar w, ir_id = i, ir_id2 = i2 \<rparr>" "s = drop ir_size b"
      by (auto simp: Let_def)
    obtain e where e: "struct_pack 0 w i i2 = Inr e" using struct_pack_unpack(1) [OF u] h(1) by blast
    then have p: "pack header s = Inr (e @ s)" by (simp add: pack_def h(2))
    moreover have "length (e @ s) = length b" using struct_unpack_pack(1) [OF e] len by (simp add: h(3))
    moreover have "unpack (e @ s) = Inr (header, s)"
      using struct_unpack_pack [OF e] by (simp add: unpack_def h(2) Let_def)
    ultimately show ?thesis by blast
  next
    case True
    with rest obtain ls where ls: "frombuffer (drop ir_size b) (nat flag) = Inr ls"
      and h: "header = \<lparr> ir_flag = flag, ir_label = Labels ls, ir_id = i, ir_id2 = i2 \<rparr>"
      "s = drop (nat flag * 4) (drop ir_size b)"
      by (auto simp: Let_def)
    note fl = frombuffer_length [OF ls]
    have flag: "flag = int (length ls)" using True fl(1) by simp
    obtain e where e: "struct_pack (int (length ls)) 0 i i2 = Inr e"
      using struct_pack_unpack(1) [OF u, of 0] flag by blast
    then have p: "pack header s = Inr (e @ label_bytes ls @ s)" by (simp add: pack_def h(1))
    moreover have "label_bytes ls @ s = drop ir_size b" by (simp only: fl(2) h(2) append_take_drop_id)
    then have "length (e @ label_bytes ls @ s) = length b"
      using struct_unpack_pack(1) [OF e] len by simp
    moreover have "unpack (e @ label_bytes ls @ s) = Inr (header, s)"
      using struct_unpack_pack [OF e] frombuffer_labels(1) [of ls s] frombuffer_labels(2) [of ls]
        True [unfolded flag]
      by (simp add: unpack_def h(1) [unfolded flag] Let_def)
    ultimately show ?thesis by blast
  qed
qed

text \<open>Images through a lossless codec.\<close>

lemma unpack_pack_img:
  assumes "pack_img imencode header img quality fmt = Inr b"
    and lossless: "\<And>params buf. imencode fmt img params = (True, buf) \<Longrightarrow> buf \<noteq> [] \<and> imdecode buf c = img"
    and "ir_label header = Scalar w"
  shows "unpack_img imdecode b c = Inr (header\<lparr> ir_flag := 0 \<rparr>, img)"
proof -
  from assms(1) obtain params buf where "imencode fmt img params = (True, buf)" "pack header buf = Inr b"
    by (auto simp: pack_img_def Let_def split: prod.splits if_splits)
  moreover from this(2) assms(3) obtain h where
    "struct_pack 0 w (ir_id header) (ir_id2 header) = Inr h" "b = h @ buf" by (auto simp: pack_def)
  ultimately show ?thesis
    using lossless struct_unpack_pack [of 0 w "ir_id header" "ir_id2 header" h] assms(3)
    by (auto simp: unpack_img_def unpack_def Let_def)
qed

section \<open>Witnesses\<close>

definition demo_header :: ir_header where
  "demo_header = \<lparr> ir_flag = 7, ir_label = Labels [1, 2], ir_id = 300, ir_id2 = 0 \<rparr>"

definition demo_packed :: "byte list" where
  "demo_packed = [2, 0, 0, 0, 0, 0, 0, 0, 44, 1, 0, 0, 0, 0, 0, 0, 0, 0, 0, 0, 0, 0, 0, 0,
     1, 0, 0, 0, 2, 0, 0, 0, 9, 8]"

lemma demo_pack: "pack demo_header [9, 8] = Inr demo_packed"
  by code_simp


lemma demo_unpack: "unpack demo_packed = Inr (demo_header\<lparr> ir_flag := 2 \<rparr>, [9, 8])"
  by code_simp

theorem pack_unpack_witness:
  "\<exists>b. pack (demo_header\<lparr> ir_flag := 2 \<rparr>) [9, 8] = Inr b \<and> length b = length demo_packed
     \<and> unpack b = Inr (demo_header\<lparr> ir_flag := 2 \<rparr>, [9, 8])"
  using pack_unpack [OF demo_unpack] .

end
