(* ===== verification/Record_IO.thy ===== *)
theory Record_IO
  imports Record_Pack Py_Text
begin

text \<open>
  Record files of \<open>python/mxnet/recordio.py\<close>: \<open>MXRecordIO\<close> (sequential) and \<open>MXIndexedRecordIO\<close>
  (random access through an index file).

  A call works on the file system (\<open>files\<close>: the bytes of the record files and the text of the index
  files) and on the object.  The native library (the \<open>dmlc-core\<close> submodule, reached through
  \<open>src/c_api/c_api.cc\<close>) determines how one record is framed in the file: \<open>frame\<close> gives the bytes it
  appends for a record and \<open>unframe\<close> splits the first record off the bytes at the read position.
  Opening for writing truncates the file, \<open>Tell\<close> is its length, \<open>Seek\<close> sets the read position and
  reading at the end gives no record.  The process the call runs in is the parameter \<open>me\<close>.  What is
  written to the index file reaches it when the file is closed.
\<close>

section \<open>State\<close>

datatype native_handle = NoHandle | Writing | Reading nat | Freed

record files =
  recs :: "string \<Rightarrow> byte list option"
  texts :: "string \<Rightarrow> string option"

record mx_record_io =
  uri :: string
  rio_flag :: string
  writable :: bool
  is_open :: bool
  rio_pid :: "nat option"
  rio_handle :: native_handle

record mx_indexed_record_io = mx_record_io +
  idx_path :: string
  rio_idx :: "int \<Rightarrow> nat option"
  rio_keys :: "int list"
  fidx :: string

section \<open>MXRecordIO\<close>

definition rio_open ::
  "nat \<Rightarrow> files \<Rightarrow> 'z mx_record_io_scheme \<Rightarrow> (files \<times> 'z mx_record_io_scheme, unit) outcome" where
  "rio_open me w r =
     (if rio_flag r = ''w''
      then ((w\<lparr> recs := (recs w)(uri r \<mapsto> []) \<rparr>,
             r\<lparr> rio_handle := Writing, writable := True, rio_pid := Some me, is_open := True \<rparr>), Inr ())
      else if rio_flag r = ''r''
      then (case recs w (uri r) of
              None \<Rightarrow> ((w, r), Inl MXNetError)
            | Some _ \<Rightarrow>
                ((w, r\<lparr> rio_handle := Reading 0, writable := False, rio_pid := Some me,
                        is_open := True \<rparr>), Inr ()))
      else ((w, r), Inl ValueError))"

definition rio_close :: "'z mx_record_io_scheme \<Rightarrow> 'z mx_record_io_scheme" where
  "rio_close r =
     (if \<not> is_open r then r
      else r\<lparr> rio_handle := Freed, is_open := False, rio_pid := None \<rparr>)"

definition MXRecordIO_init ::
  "nat \<Rightarrow> files \<Rightarrow> string \<Rightarrow> string \<Rightarrow> (files \<times> mx_record_io, unit) outcome" where
  "MXRecordIO_init me w u flag =
     rio_open me w \<lparr> uri = u, rio_flag = flag, writable = False, is_open = False, rio_pid = None,
                     rio_handle = NoHandle \<rparr>"

definition MXRecordIO_reset ::
  "nat \<Rightarrow> files \<Rightarrow> mx_record_io \<Rightarrow> (files \<times> mx_record_io, unit) outcome" where
  "MXRecordIO_reset me w r = rio_open me w (rio_close r)"

text \<open>\<open>_check_pid\<close> without permission to reset.\<close>

definition check_pid :: "nat \<Rightarrow> 'z mx_record_io_scheme \<Rightarrow> unit result" where
  "check_pid me r = (if rio_pid r = Some me then Inr () else Inl RuntimeError)"

definition rio_write ::
  "(byte list \<Rightarrow> byte list) \<Rightarrow> nat \<Rightarrow> files \<Rightarrow> 'z mx_record_io_scheme \<Rightarrow> byte list \<Rightarrow>
   (files \<times> 'z mx_record_io_scheme, unit) outcome" where
  "rio_write frame me w r buf =
     (if \<not> writable r then ((w, r), Inl AssertionError)
      else case check_pid me r of
             Inl e \<Rightarrow> ((w, r), Inl e)
           | Inr _ \<Rightarrow>
               (case (rio_handle r, recs w (uri r)) of
                  (Writing, Some bs) \<Rightarrow>
                    ((w\<lparr> recs := (recs w)(uri r \<mapsto> bs @ frame buf) \<rparr>, r), Inr ())
                | _ \<Rightarrow> ((w, r), Inl NativeFault)))"

definition rio_read ::
  "(byte list \<Rightarrow> (byte list \<times> byte list) option) \<Rightarrow> nat \<Rightarrow> files \<Rightarrow> 'z mx_record_io_scheme \<Rightarrow>
   (files \<times> 'z mx_record_io_scheme, byte list option) outcome" where
  "rio_read unframe me w r =
     (if writable r then ((w, r), Inl AssertionError)
      else case check_pid me r of
             Inl e \<Rightarrow> ((w, r), Inl e)
           | Inr _ \<Rightarrow>
               (case (rio_handle r, recs w (uri r)) of
                  (Reading p, Some bs) \<Rightarrow>
                    (if drop p bs = [] then ((w, r), Inr None)
                     else (case unframe (drop p bs) of
                             None \<Rightarrow> ((w, r), Inl MXNetError)
                           | Some (buf, rest) \<Rightarrow>
                               ((w, r\<lparr> rio_handle := Reading (length bs - length rest) \<rparr>),
                                Inr (Some buf))))
                | _ \<Rightarrow> ((w, r), Inl NativeFault)))"

text \<open>
  Pickling: \<open>__getstate__\<close> closes the object and keeps whether it was open; \<open>__setstate__\<close> opens the
  copy again.  The pickled state is the closed record with that flag.
\<close>

definition rio_getstate :: "mx_record_io \<Rightarrow> mx_record_io \<times> mx_record_io" where
  "rio_getstate r =
     (let r' = rio_close r in (r', r'\<lparr> is_open := is_open r, rio_handle := NoHandle \<rparr>))"

definition rio_setstate ::
  "nat \<Rightarrow> files \<Rightarrow> mx_record_io \<Rightarrow> (files \<times> mx_record_io, unit) outcome" where
  "rio_setstate me w d =
     (let r = d\<lparr> is_open := False, rio_handle := NoHandle \<rparr>
      in if is_open d then rio_open me w r else ((w, r), Inr ()))"

section \<open>MXIndexedRecordIO\<close>

text \<open>
  The loop of \<open>open\<close> over the lines of the index file.  Positions are naturals; a negative one, which
  is never written, reads as 0.
\<close>

definition parse_index_line :: "string \<Rightarrow> (int \<times> nat) result" where
  "parse_index_line line =
     (let fields = py_split tab (py_strip line) in
      rbind (py_get fields 0) (\<lambda>f0.
      rbind (py_int f0) (\<lambda>key.
      rbind (py_get fields 1) (\<lambda>f1.
      rbind (py_int f1) (\<lambda>pos. Inr (key, nat pos))))))"

fun load_index ::
  "string list \<Rightarrow> mx_indexed_record_io \<Rightarrow> (mx_indexed_record_io, unit) outcome" where
  "load_index [] r = (r, Inr ())"
| "load_index (line # lines) r =
     (case parse_index_line line of
        Inl e \<Rightarrow> (r, Inl e)
      | Inr (key, pos) \<Rightarrow>
          load_index lines (r\<lparr> rio_idx := (rio_idx r)(key \<mapsto> pos), rio_keys := rio_keys r @ [key] \<rparr>))"

definition indexed_open ::
  "nat \<Rightarrow> files \<Rightarrow> mx_indexed_record_io \<Rightarrow> (files \<times> mx_indexed_record_io, unit) outcome" where
  "indexed_open me w r =
     sbind (rio_open me w r) (\<lambda>(w, r) _.
       let r = r\<lparr> rio_idx := Map.empty, rio_keys := [], fidx := [] \<rparr> in
       if writable r then ((w\<lparr> texts := (texts w)(idx_path r \<mapsto> []) \<rparr>, r), Inr ())
       else (case texts w (idx_path r) of
               None \<Rightarrow> ((w, r), Inl OSError)
             | Some txt \<Rightarrow> (case load_index (py_lines txt) r of (r, x) \<Rightarrow> ((w, r), x))))"

definition indexed_close ::
  "files \<Rightarrow> mx_indexed_record_io \<Rightarrow> files \<times> mx_indexed_record_io" where
  "indexed_close w r =
     (if \<not> is_open r then (w, r)
      else ((if writable r then w\<lparr> texts := (texts w)(idx_path r \<mapsto> fidx r) \<rparr> else w),
            rio_close r))"

definition MXIndexedRecordIO_init ::
  "nat \<Rightarrow> files \<Rightarrow> string \<Rightarrow> string \<Rightarrow> string \<Rightarrow> (files \<times> mx_indexed_record_io, unit) outcome" where
  "MXIndexedRecordIO_init me w ipath u flag =
     indexed_open me w \<lparr> uri = u, rio_flag = flag, writable = False, is_open = False, rio_pid = None,
                         rio_handle = NoHandle, idx_path = ipath, rio_idx = Map.empty,
                         rio_keys = [], fidx = [] \<rparr>"

definition indexed_reset ::
  "nat \<Rightarrow> files \<Rightarrow> mx_indexed_record_io \<Rightarrow> (files \<times> mx_indexed_record_io, unit) outcome" where
  "indexed_reset me w r = (case indexed_close w r of (w, r) \<Rightarrow> indexed_open me w r)"

definition indexed_seek ::
  "nat \<Rightarrow> files \<Rightarrow> mx_indexed_record_io \<Rightarrow> int \<Rightarrow> (files \<times> mx_indexed_record_io, unit) outcome" where
  "indexed_seek me w r k =
     (if writable r then ((w, r), Inl AssertionError)
      else
       sbind (if rio_pid r = Some me then ((w, r), Inr ()) else indexed_reset me w r) (\<lambda>(w, r) _.
         case dict_get (rio_idx r) k of
           Inl e \<Rightarrow> ((w, r), Inl e)
         | Inr pos \<Rightarrow>
             (case rio_handle r of
                Reading _ \<Rightarrow> ((w, r\<lparr> rio_handle := Reading pos \<rparr>), Inr ())
              | _ \<Rightarrow> ((w, r), Inl NativeFault))))"

definition indexed_tell :: "files \<Rightarrow> mx_indexed_record_io \<Rightarrow> nat result" where
  "indexed_tell w r =
     (if \<not> writable r then Inl AssertionError
      else case (rio_handle r, recs w (uri r)) of
             (Writing, Some bs) \<Rightarrow> Inr (length bs)
           | _ \<Rightarrow> Inl NativeFault)"

definition read_idx ::
  "(byte list \<Rightarrow> (byte list \<times> byte list) option) \<Rightarrow> nat \<Rightarrow> files \<Rightarrow> mx_indexed_record_io \<Rightarrow> int \<Rightarrow>
   (files \<times> mx_indexed_record_io, byte list option) outcome" where
  "read_idx unframe me w r k =
     sbind (indexed_seek me w r k) (\<lambda>(w, r) _. rio_read unframe me w r)"

definition index_line :: "int \<Rightarrow> nat \<Rightarrow> string" where
  "index_line key pos = str_of_int key @ [tab] @ str_of_int (int pos) @ [newline]"

definition write_idx ::
  "(byte list \<Rightarrow> byte list) \<Rightarrow> nat \<Rightarrow> files \<Rightarrow> mx_indexed_record_io \<Rightarrow> int \<Rightarrow> byte list \<Rightarrow>
   (files \<times> mx_indexed_record_io, unit) outcome" where
  "write_idx frame me w r key buf =
     (case indexed_tell w r of
        Inl e \<Rightarrow> ((w, r), Inl e)
      | Inr pos \<Rightarrow>
          sbind (rio_write frame me w r buf) (\<lambda>(w, r) _.
            ((w, r\<lparr> fidx := fidx r @ index_line key pos, rio_idx := (rio_idx r)(key \<mapsto> pos),
                    rio_keys := rio_keys r @ [key] \<rparr>), Inr ())))"

section \<open>The index file\<close>

fun positions :: "(byte list \<Rightarrow> byte list) \<Rightarrow> nat \<Rightarrow> (int \<times> byte list) list \<Rightarrow> (int \<times> nat) list" where
  "positions frame off [] = []"
| "positions frame off ((k, b) # kvs) = (k, off) # positions frame (off + length (frame b)) kvs"

definition rec_file :: "(byte list \<Rightarrow> byte list) \<Rightarrow> byte list list \<Rightarrow> byte list" where
  "rec_file frame bs = concat (map frame bs)"

definition index_text :: "(int \<times> nat) list \<Rightarrow> string" where
  "index_text ps = concat (map (\<lambda>(k, p). index_line k p) ps)"

lemma rec_file_append [simp]: "rec_file frame (xs @ ys) = rec_file frame xs @ rec_file frame ys"
  by (simp add: rec_file_def)

lemma rec_file_simps [simp]:
  "rec_file frame [] = []" "rec_file frame (b # bs) = frame b @ rec_file frame bs"
  by (simp_all add: rec_file_def)

lemma index_text_append [simp]: "index_text (ps @ qs) = index_text ps @ index_text qs"
  by (simp add: index_text_def)

lemma positions_append:
  "positions frame off (xs @ ys)
     = positions frame off xs @ positions frame (off + length (rec_file frame (map snd xs))) ys"
  by (induction frame off xs rule: positions.induct) (auto simp: add.assoc)

lemma map_fst_positions [simp]: "map fst (positions frame off kvs) = map fst kvs"
  by (induction frame off kvs rule: positions.induct) auto

lemma str_of_int_not_Nil [simp]: "str_of_int i \<noteq> []"
  by (simp add: str_of_int_def)

lemma parse_index_line_print: "parse_index_line (index_line k p) = Inr (k, p)"
proof -
  let ?s = "str_of_int k @ [tab] @ str_of_int (int p)"
  have "\<not> is_space (hd ?s)" "\<not> is_space (last ?s)"
    using str_of_int_chars(1) [of "hd (str_of_int k)" k]
      str_of_int_chars(1) [of "last (str_of_int (int p))" "int p"] by simp_all
  then have "py_strip (index_line k p) = ?s"
    using py_strip_line [of ?s newline] by (simp add: index_line_def)
  moreover have "py_split tab ?s = [str_of_int k, str_of_int (int p)]"
    using py_split_field [of tab "str_of_int k" "str_of_int (int p)"]
      py_split_none [of tab "str_of_int (int p)"] by simp
  ultimately show ?thesis
    by (simp add: parse_index_line_def py_get_def py_int_str)
qed

lemma py_lines_index: "py_lines (index_text ps) = map (\<lambda>(k, p). index_line k p) ps"
proof (induction ps)
  case (Cons kp ps)
  obtain k p where kp: "kp = (k, p)" by (cases kp)
  have "newline \<notin> set (str_of_int k @ [tab] @ str_of_int (int p))"
    by simp
  from py_lines_cons [OF this, of "index_text ps"] Cons kp show ?case
    by (simp add: index_text_def index_line_def)
qed (simp add: index_text_def)

lemma load_index_lines:
  "load_index (map (\<lambda>(k, p). index_line k p) ps) r
     = (r\<lparr> rio_idx := rio_idx r ++ map_of (rev ps), rio_keys := rio_keys r @ map fst ps \<rparr>, Inr ())"
proof (induction ps arbitrary: r)
  case (Cons kp ps)
  obtain k p where "kp = (k, p)" by (cases kp)
  then show ?case by (simp add: parse_index_line_print Cons map_add_def fun_eq_iff
        split: option.splits)
qed simp

section \<open>Writing\<close>

fun write_all ::
  "(byte list \<Rightarrow> byte list) \<Rightarrow> nat \<Rightarrow> files \<Rightarrow> mx_indexed_record_io \<Rightarrow> (int \<times> byte list) list \<Rightarrow>
   (files \<times> mx_indexed_record_io, unit) outcome" where
  "write_all frame me w r [] = ((w, r), Inr ())"
| "write_all frame me w r ((k, b) # kvs) =
     sbind (write_idx frame me w r k b) (\<lambda>(w, r) _. write_all frame me w r kvs)"

definition writer_ok ::
  "(byte list \<Rightarrow> byte list) \<Rightarrow> nat \<Rightarrow> string \<Rightarrow> string \<Rightarrow> (int \<times> byte list) list \<Rightarrow>
   files \<times> mx_indexed_record_io \<Rightarrow> bool" where
  "writer_ok frame me ip u kvs = (\<lambda>(w, r).
     writable r \<and> is_open r \<and> rio_handle r = Writing \<and> rio_pid r = Some me
     \<and> uri r = u \<and> idx_path r = ip
     \<and> recs w u = Some (rec_file frame (map snd kvs))
     \<and> fidx r = index_text (positions frame 0 kvs))"

lemma write_idx_ok:
  assumes "writer_ok frame me ip u kvs (w, r)"
  shows "\<exists>wr. write_idx frame me w r k b = (wr, Inr ()) \<and> writer_ok frame me ip u (kvs @ [(k, b)]) wr"
  using assms
  by (auto simp: writer_ok_def write_idx_def indexed_tell_def rio_write_def check_pid_def
      positions_append index_text_def)

lemma write_all_ok:
  "writer_ok frame me ip u done (w, r) \<Longrightarrow>
   \<exists>wr. write_all frame me w r kvs = (wr, Inr ()) \<and> writer_ok frame me ip u (done @ kvs) wr"
proof (induction kvs arbitrary: "done" w r)
  case (Cons kb kvs)
  obtain k b where kb: "kb = (k, b)" by (cases kb)
  from write_idx_ok [OF Cons.prems, of k b] obtain w' r' where
    "write_idx frame me w r k b = ((w', r'), Inr ())" "writer_ok frame me ip u (done @ [(k, b)]) (w', r')"
    by auto
  with Cons.IH [of "done @ [(k, b)]" w' r'] kb show ?case by simp
qed simp

section \<open>Reading\<close>

definition reader_ok ::
  "(byte list \<Rightarrow> byte list) \<Rightarrow> string \<Rightarrow> string \<Rightarrow> (int \<times> byte list) list \<Rightarrow> files \<Rightarrow>
   mx_indexed_record_io \<Rightarrow> bool" where
  "reader_ok frame ip u kvs w r \<longleftrightarrow>
     \<not> writable r \<and> is_open r \<and> rio_flag r = ''r'' \<and> uri r = u \<and> idx_path r = ip
     \<and> (\<exists>p. rio_handle r = Reading p)
     \<and> recs w u = Some (rec_file frame (map snd kvs))
     \<and> texts w ip = Some (index_text (positions frame 0 kvs))
     \<and> rio_idx r = map_of (rev (positions frame 0 kvs)) \<and> rio_keys r = map fst kvs"

lemma indexed_open_reader:
  assumes "recs w (uri r) = Some (rec_file frame (map snd kvs))"
    and "texts w (idx_path r) = Some (index_text (positions frame 0 kvs))" and "rio_flag r = ''r''"
  shows "\<exists>r'. indexed_open me w r = ((w, r'), Inr ()) \<and> reader_ok frame (idx_path r) (uri r) kvs w r'
    \<and> rio_pid r' = Some me"
  using assms
  by (simp add: indexed_open_def rio_open_def py_lines_index load_index_lines reader_ok_def Let_def)

text \<open>Where the index points: the last record written under the key.\<close>

lemma index_lookup:
  "rel_option (\<lambda>p b. \<exists>rest. drop p (rec_file frame (map snd kvs)) = frame b @ rest)
     (map_of (rev (positions frame 0 kvs)) k) (map_of (rev kvs) k)"
proof (induction kvs rule: rev_induct)
  case (snoc kb kvs)
  obtain k' b where kb: "kb = (k', b)" by (cases kb)
  show ?case
  proof (cases "k = k'")
    case True
    then show ?thesis by (simp add: positions_append kb)
  next
    case False
    show ?thesis
    proof (cases "map_of (rev kvs) k")
      case None
      with snoc False kb show ?thesis by (simp add: positions_append option_rel_Some2 rel_option_None2)
    next
      case (Some b')
      with snoc obtain p rest where p: "map_of (rev (positions frame 0 kvs)) k = Some p"
        "drop p (rec_file frame (map snd kvs)) = frame b' @ rest"
        by (auto simp: option_rel_Some2)
      have "\<exists>rest. drop p (rec_file frame (map snd kvs) @ frame b) = frame b' @ rest"
        by (auto simp: p(2))
      with p(1) Some False kb show ?thesis by (simp add: positions_append)
    qed
  qed
qed simp

lemma read_idx_ok:
  assumes R: "reader_ok frame ip u kvs w r"
    and unframe: "\<And>b rest. unframe (frame b @ rest) = Some (b, rest)" "\<And>b. frame b \<noteq> []"
  shows "\<exists>r'. read_idx unframe me w r k
      = ((w, r'), case map_of (rev kvs) k of None \<Rightarrow> Inl KeyError | Some b \<Rightarrow> Inr (Some b))
    \<and> reader_ok frame ip u kvs w r'"
proof -
  let ?file = "rec_file frame (map snd kvs)"
  have "\<exists>r1. (if rio_pid r = Some me then ((w, r), Inr ()) else indexed_reset me w r) = ((w, r1), Inr ())
      \<and> reader_ok frame ip u kvs w r1 \<and> rio_pid r1 = Some me"
  proof (cases "rio_pid r = Some me")
    case False
    have "indexed_close w r = (w, rio_close r)"
      using R by (auto simp: indexed_close_def reader_ok_def rio_close_def)
    moreover have "\<exists>r1. indexed_open me w (rio_close r) = ((w, r1), Inr ())
        \<and> reader_ok frame (idx_path (rio_close r)) (uri (rio_close r)) kvs w r1 \<and> rio_pid r1 = Some me"
      by (rule indexed_open_reader) (use R in \<open>auto simp: reader_ok_def rio_close_def\<close>)
    ultimately show ?thesis using R False
      by (auto simp: indexed_reset_def reader_ok_def rio_close_def)
  qed (use R in simp)
  then obtain r1 where r1: "(if rio_pid r = Some me then ((w, r), Inr ()) else indexed_reset me w r)
      = ((w, r1), Inr ())" "reader_ok frame ip u kvs w r1" "rio_pid r1 = Some me"
    by auto
  have nw: "\<not> writable r" using R by (simp add: reader_ok_def)
  note rel = index_lookup [of frame kvs k]
  show ?thesis
  proof (cases "map_of (rev kvs) k")
    case None
    with rel have "rio_idx r1 k = None" using r1(2) by (simp add: reader_ok_def)
    then have "read_idx unframe me w r k = ((w, r1), Inl KeyError)"
      using nw by (simp add: read_idx_def indexed_seek_def r1(1) dict_get_def)
    with None r1(2) show ?thesis by auto
  next
    case (Some b)
    with rel obtain p rest where p: "rio_idx r1 k = Some p" "drop p ?file = frame b @ rest"
      using r1(2) by (auto simp: reader_ok_def option_rel_Some2)
    obtain q where q: "rio_handle r1 = Reading q" using r1(2) by (auto simp: reader_ok_def)
    let ?r' = "r1\<lparr> rio_handle := Reading (length ?file - length rest) \<rparr>"
    have "indexed_seek me w r k = ((w, r1\<lparr> rio_handle := Reading p \<rparr>), Inr ())"
      using nw q by (simp add: indexed_seek_def r1(1) dict_get_def p(1))
    then have "read_idx unframe me w r k = ((w, ?r'), Inr (Some b))"
      using r1(2,3) by (simp add: read_idx_def rio_read_def check_pid_def reader_ok_def p(2) unframe)
    moreover have "reader_ok frame ip u kvs w ?r'" using r1(2) by (simp add: reader_ok_def)
    ultimately show ?thesis using Some by auto
  qed
qed

text \<open>Reads by key, each from some process, with the results in order.\<close>

fun read_all ::
  "(byte list \<Rightarrow> (byte list \<times> byte list) option) \<Rightarrow> files \<Rightarrow> mx_indexed_record_io \<Rightarrow>
   (nat \<times> int) list \<Rightarrow> byte list option result list" where
  "read_all unframe w r [] = []"
| "read_all unframe w r ((me, k) # ks) =
     (case read_idx unframe me w r k of ((w', r'), x) \<Rightarrow> x # read_all unframe w' r' ks)"

lemma read_all_ok:
  assumes "reader_ok frame ip u kvs w r"
    and "\<And>b rest. unframe (frame b @ rest) = Some (b, rest)" "\<And>b. frame b \<noteq> []"
  shows "read_all unframe w r ks
    = map (\<lambda>(_, k). case map_of (rev kvs) k of None \<Rightarrow> Inl KeyError | Some b \<Rightarrow> Inr (Some b)) ks"
  using assms(1)
proof (induction ks arbitrary: r)
  case (Cons mk ks)
  obtain me k where mk: "mk = (me, k)" by (cases mk)
  from read_idx_ok [OF Cons.prems assms(2,3), of me k] obtain r' where
    "read_idx unframe me w r k
      = ((w, r'), case map_of (rev kvs) k of None \<Rightarrow> Inl KeyError | Some b \<Rightarrow> Inr (Some b))"
    "reader_ok frame ip u kvs w r'"
    by auto
  with Cons.IH [of r'] mk show ?case by simp
qed simp

text \<open>C3. Random access: after the records \<open>kvs\<close> were written under their keys with \<open>write_idx\<close> and the
  file was closed, opening it for reading succeeds, lists the keys in the order they were written,
  and every \<open>read_idx\<close>, in any order and from any process (a forked worker included), returns the
  record last written under the key, or raises \<open>KeyError\<close> for a key that was never written.\<close>

theorem indexed_round_trip:
  assumes unframe: "\<And>b rest. unframe (frame b @ rest) = Some (b, rest)" "\<And>b. frame b \<noteq> []"
    and opened: "MXIndexedRecordIO_init me w ip u ''w'' = ((w1, r1), Inr ())"
    and written: "write_all frame me w1 r1 kvs = ((w2, r2), x)"
    and closed: "indexed_close w2 r2 = (w3, r3)"
  shows "x = Inr ()
    \<and> (\<exists>r4. MXIndexedRecordIO_init me' w3 ip u ''r'' = ((w3, r4), Inr ())
         \<and> rio_keys r4 = map fst kvs
         \<and> read_all unframe w3 r4 ks
           = map (\<lambda>(_, k). case map_of (rev kvs) k of
                              None \<Rightarrow> Inl KeyError | Some b \<Rightarrow> Inr (Some b)) ks)"
proof -
  have "writer_ok frame me ip u [] (w1, r1)"
    using opened by (auto simp: MXIndexedRecordIO_init_def indexed_open_def rio_open_def writer_ok_def
        index_text_def Let_def)
  from write_all_ok [OF this, of kvs] written have
    x: "x = Inr ()" and W: "writer_ok frame me ip u kvs (w2, r2)" by auto
  have w3: "recs w3 u = Some (rec_file frame (map snd kvs))"
    "texts w3 ip = Some (index_text (positions frame 0 kvs))"
    using W closed by (auto simp: writer_ok_def indexed_close_def)
  obtain r4 where r4: "MXIndexedRecordIO_init me' w3 ip u ''r'' = ((w3, r4), Inr ())"
    "reader_ok frame ip u kvs w3 r4"
    using indexed_open_reader [of w3 "\<lparr> uri = u, rio_flag = ''r'', writable = False, is_open = False,
          rio_pid = None, rio_handle = NoHandle, idx_path = ip, rio_idx = Map.empty, rio_keys = [],
          fidx = [] \<rparr>" frame kvs me'] w3
    by (auto simp: MXIndexedRecordIO_init_def)
  have "read_all unframe w3 r4 ks = map (\<lambda>(_, k). case map_of (rev kvs) k of
      None \<Rightarrow> Inl KeyError | Some b \<Rightarrow> Inr (Some b)) ks"
    by (rule read_all_ok [OF r4(2)]) (use unframe in auto)
  with x r4 show ?thesis by (auto simp: reader_ok_def)
qed

section \<open>Sequential files\<close>

fun rio_write_all ::
  "(byte list \<Rightarrow> byte list) \<Rightarrow> nat \<Rightarrow> files \<Rightarrow> mx_record_io \<Rightarrow> byte list list \<Rightarrow>
   (files \<times> mx_record_io, unit) outcome" where
  "rio_write_all frame me w r [] = ((w, r), Inr ())"
| "rio_write_all frame me w r (b # bs) =
     sbind (rio_write frame me w r b) (\<lambda>(w, r) _. rio_write_all frame me w r bs)"

fun rio_read_n ::
  "(byte list \<Rightarrow> (byte list \<times> byte list) option) \<Rightarrow> nat \<Rightarrow> files \<Rightarrow> mx_record_io \<Rightarrow> nat \<Rightarrow>
   byte list option result list" where
  "rio_read_n unframe me w r 0 = []"
| "rio_read_n unframe me w r (Suc n) =
     (case rio_read unframe me w r of ((w', r'), x) \<Rightarrow> x # rio_read_n unframe me w' r' n)"

lemma rio_write_all_ok:
  "writable r \<Longrightarrow> rio_handle r = Writing \<Longrightarrow> rio_pid r = Some me \<Longrightarrow> recs w (uri r) = Some bs \<Longrightarrow>
   \<exists>w'. rio_write_all frame me w r xs = ((w', r), Inr ())
     \<and> recs w' (uri r) = Some (bs @ rec_file frame xs)"
proof (induction xs arbitrary: w bs)
  case (Cons x xs)
  then show ?case
    using Cons.IH [of "w\<lparr> recs := (recs w)(uri r \<mapsto> bs @ frame x) \<rparr>" "bs @ frame x"]
    by (simp add: rio_write_def check_pid_def)
qed simp

lemma rio_read_n_ok:
  assumes "\<And>b rest. unframe (frame b @ rest) = Some (b, rest)" "\<And>b. frame b \<noteq> []"
  shows "\<not> writable r \<Longrightarrow> rio_handle r = Reading (length pre) \<Longrightarrow> rio_pid r = Some me \<Longrightarrow>
    recs w (uri r) = Some (pre @ rec_file frame xs) \<Longrightarrow>
    rio_read_n unframe me w r (length xs + j) = map (Inr \<circ> Some) xs @ replicate j (Inr None)"
proof (induction xs arbitrary: r pre)
  case Nil
  then show ?case by (induction j) (simp_all add: rio_read_def check_pid_def)
next
  case (Cons x xs)
  then show ?case
    using Cons.IH [of "r\<lparr> rio_handle := Reading (length (pre @ frame x)) \<rparr>" "pre @ frame x"]
    by (simp add: rio_read_def check_pid_def assms)
qed

text \<open>Sequential access: the records written to a file are read back by a reader opened on it
  afterwards, one by one in the order they were written, and after the last one every read returns \<open>None\<close>.\<close>

theorem record_round_trip:
  assumes unframe: "\<And>b rest. unframe (frame b @ rest) = Some (b, rest)" "\<And>b. frame b \<noteq> []"
    and opened: "MXRecordIO_init me w u ''w'' = ((w1, r1), Inr ())"
    and written: "rio_write_all frame me w1 r1 xs = ((w2, r2), x)"
  shows "x = Inr ()
    \<and> (\<exists>r4. MXRecordIO_init me' w2 u ''r'' = ((w2, r4), Inr ())
         \<and> rio_read_n unframe me' w2 r4 (length xs + j) = map (Inr \<circ> Some) xs @ replicate j (Inr None))"
proof -
  from opened have r1: "writable r1" "rio_handle r1 = Writing" "rio_pid r1 = Some me" "uri r1 = u"
    "recs w1 u = Some []"
    by (auto simp: MXRecordIO_init_def rio_open_def)
  with rio_write_all_ok [of r1 me w1 "[]" frame xs] written have
    x: "x = Inr ()" and w2: "recs w2 u = Some (rec_file frame xs)" by auto
  then obtain r4 where r4: "MXRecordIO_init me' w2 u ''r'' = ((w2, r4), Inr ())" "\<not> writable r4"
    "rio_handle r4 = Reading (length ([] :: byte list))" "rio_pid r4 = Some me'" "uri r4 = u"
    by (simp add: MXRecordIO_init_def rio_open_def)
  with rio_read_n_ok [where unframe = unframe and frame = frame and pre = "[]" and r = r4]
    unframe w2 x show ?thesis by auto
qed

section \<open>Witnesses\<close>

text \<open>A framing with the laws: the length in one byte per unit, ended by a zero.\<close>

definition demo_frame :: "byte list \<Rightarrow> byte list" where
  "demo_frame b = replicate (length b) 1 @ [0] @ b"

definition demo_unframe :: "byte list \<Rightarrow> (byte list \<times> byte list) option" where
  "demo_unframe bs =
     (let n = length (takeWhile (\<lambda>x. x = 1) bs); rest = drop (n + 1) bs
      in Some (take n rest, drop n rest))"

lemma demo_unframe: "demo_unframe (demo_frame b @ rest) = Some (b, rest)" "demo_frame b \<noteq> []"
proof -
  have "takeWhile (\<lambda>x. x = 1) (replicate k 1 @ 0 # ys) = replicate k (1 :: byte)" for k ys
    by (induction k) auto
  then show "demo_unframe (demo_frame b @ rest) = Some (b, rest)"
    by (simp add: demo_unframe_def demo_frame_def Let_def)
qed (simp add: demo_frame_def)

definition no_files :: files where
  "no_files = \<lparr> recs = Map.empty, texts = Map.empty \<rparr>"

theorem indexed_round_trip_witness:
  "\<exists>w1 r1 w2 r2 w3 r3 r4. MXIndexedRecordIO_init 1 no_files ''a.idx'' ''a.rec'' ''w'' = ((w1, r1), Inr ())
     \<and> write_all demo_frame 1 w1 r1 [(5, [1, 2]), (- 7, []), (5, [3])] = ((w2, r2), Inr ())
     \<and> indexed_close w2 r2 = (w3, r3)
     \<and> MXIndexedRecordIO_init 2 w3 ''a.idx'' ''a.rec'' ''r'' = ((w3, r4), Inr ())
     \<and> read_all demo_unframe w3 r4 [(2, 5), (3, - 7), (2, 6)]
       = [Inr (Some [3]), Inr (Some []), Inl KeyError]"
proof -
  obtain w1 r1 where o: "MXIndexedRecordIO_init 1 no_files ''a.idx'' ''a.rec'' ''w'' = ((w1, r1), Inr ())"
    by (simp add: MXIndexedRecordIO_init_def indexed_open_def rio_open_def Let_def)
  obtain w2 r2 x where w: "write_all demo_frame 1 w1 r1 [(5, [1, 2]), (- 7, []), (5, [3])] = ((w2, r2), x)"
    by (metis surj_pair)
  obtain w3 r3 where c: "indexed_close w2 r2 = (w3, r3)" by (metis surj_pair)
  from indexed_round_trip [OF demo_unframe o w c, of 2 "[(2, 5), (3, - 7), (2, 6)]"] o w c
  show ?thesis by (auto simp del: read_all.simps write_all.simps)
qed

theorem record_round_trip_witness:
  "\<exists>w1 r1 w2 r2 r4. MXRecordIO_init 1 no_files ''a.rec'' ''w'' = ((w1, r1), Inr ())
     \<and> rio_write_all demo_frame 1 w1 r1 [[1, 2], []] = ((w2, r2), Inr ())
     \<and> MXRecordIO_init 1 w2 ''a.rec'' ''r'' = ((w2, r4), Inr ())
     \<and> rio_read_n demo_unframe 1 w2 r4 3 = [Inr (Some [1, 2]), Inr (Some []), Inr None]"
proof -
  obtain w1 r1 where o: "MXRecordIO_init 1 no_files ''a.rec'' ''w'' = ((w1, r1), Inr ())"
    by (simp add: MXRecordIO_init_def rio_open_def)
  obtain w2 r2 x where w: "rio_write_all demo_frame 1 w1 r1 [[1, 2], []] = ((w2, r2), x)"
    by (metis surj_pair)
  from record_round_trip [OF demo_unframe o w, of 1 1] o w show ?thesis
    by (auto simp del: rio_read_n.simps rio_write_all.simps simp: numeral_3_eq_3)
qed

end
