(* ===== verification/Optimizer_Kernels.thy ===== *)
theory Optimizer_Kernels
  imports Prelude
begin

text \<open>
  The native update operators of \<open>src/operator/optimizer_op-inl.h\<close> (and the CPU kernels of
  \<open>src/operator/optimizer_op.cc\<close>) that the optimizers of \<open>python/mxnet/optimizer/optimizer.py\<close> call.

  A tensor is the list of its elements in memory order and floating point numbers are reals.  A
  kernel is a function on the elements at one position; an operator applies it at every position.
  The operators write the weight in place (\<open>out=weight\<close>), so they return the arrays they changed,
  the gradient included where the operator overwrites it.  Where the master copy of a weight is
  stored in less precision, \<open>rnd\<close> is the rounding of the conversion.

  A row-sparse gradient holds the indices of its rows and the concatenation of these rows; the
  kernels for them address the flat arrays through \<open>row_length\<close> as the code does.
\<close>

section \<open>Dense kernels\<close>

text \<open>A function of four more numbers.  The parameters come in the order clipping bound, momentum (where
  there is one), learning rate, weight decay, rescaling factor, and then those of the method.\<close>

type_synonym 'a reals4 = "real \<Rightarrow> real \<Rightarrow> real \<Rightarrow> real \<Rightarrow> 'a"

definition clip_map :: "real \<Rightarrow> real \<Rightarrow> real" where
  "clip_map x bound = (if x > bound then bound else if x < - bound then - bound else x)"

definition sgd_kernel :: "(real \<Rightarrow> real \<Rightarrow> real) reals4" where
  "sgd_kernel clip lr wd rescale w g =
     (if clip \<ge> 0 then (1 - lr * wd) * w - lr * clip_map (rescale * g) clip
      else (1 - lr * wd) * w - (lr * rescale) * g)"

definition sgd_update :: "(real list \<Rightarrow> real list \<Rightarrow> real list) reals4" where
  "sgd_update clip lr wd rescale weight grad = map2 (sgd_kernel clip lr wd rescale) weight grad"

text \<open>The new momentum; the new weight is the weight plus it.\<close>

definition sgd_mom_kernel :: "real reals4 reals4" where
  "sgd_mom_kernel clip momentum lr wd rescale w g m =
     (if clip \<ge> 0
      then momentum * m - lr * wd * w - lr * clip_map (rescale * g) clip
      else momentum * m - lr * wd * w - lr * rescale * g)"

definition sgd_mom_update ::
  "(real \<Rightarrow> real list \<Rightarrow> real list \<Rightarrow> real list \<Rightarrow> real list \<times> real list) reals4" where
  "sgd_mom_update clip momentum lr wd rescale weight grad mom =
     (let mom' = map2 (\<lambda>w (g, m). sgd_mom_kernel clip momentum lr wd rescale w g m)
                   weight (zip grad mom)
      in (map2 (+) weight mom', mom'))"

text \<open>The mixed precision versions keep the weight in \<open>weight32\<close> and store a rounded copy.\<close>

definition mp_sgd_update ::
  "(real \<Rightarrow> real) \<Rightarrow> (real list \<Rightarrow> real list \<Rightarrow> real list \<times> real list) reals4" where
  "mp_sgd_update rnd clip lr wd rescale grad weight32 =
     (let w = sgd_update clip lr wd rescale weight32 grad in (map rnd w, w))"

definition mp_sgd_mom_update ::
  "(real \<Rightarrow> real) \<Rightarrow> (real \<Rightarrow> real list \<Rightarrow> real list \<Rightarrow> real list \<Rightarrow> real list \<times> real list \<times> real list) reals4" where
  "mp_sgd_mom_update rnd clip momentum lr wd rescale grad mom weight32 =
     (let (w, m) = sgd_mom_update clip momentum lr wd rescale weight32 grad mom in (map rnd w, m, w))"

section \<open>The aggregated SGD kernel\<close>

text \<open>
  One call updates several weights: \<open>slot\<close> holds the arrays and rates of one of them.  The kernel is
  launched for every position up to the largest size and loops over the weights.  Its parameter
  block has room for 60 weights and the code does not check the number.
\<close>

record slot =
  sl_weight :: "real list"
  sl_grad :: "real list"
  sl_mom :: "real list"
  sl_weight32 :: "real list"
  sl_lr :: real
  sl_wd :: real

definition multi_sgd_slot ::
  "(real \<Rightarrow> real) \<Rightarrow> bool \<Rightarrow> bool \<Rightarrow> real \<Rightarrow> real \<Rightarrow> real \<Rightarrow> nat \<Rightarrow> slot \<Rightarrow> slot" where
  "multi_sgd_slot rnd has_momentum has_mixed_precision clip momentum rescale i s =
     (if i < length (sl_weight s)
      then
       (let w = (if has_mixed_precision then sl_weight32 s ! i else sl_weight s ! i);
            mom = (if has_momentum then sl_mom s ! i else 0);
            mom = (if clip \<ge> 0
                   then momentum * mom - sl_lr s * sl_wd s * w
                        - sl_lr s * clip_map (rescale * sl_grad s ! i) clip
                   else momentum * mom - sl_lr s * sl_wd s * w - sl_lr s * rescale * sl_grad s ! i);
            s = (if has_momentum then s\<lparr> sl_mom := (sl_mom s)[i := mom] \<rparr> else s);
            w = w + mom;
            s = (if has_mixed_precision then s\<lparr> sl_weight32 := (sl_weight32 s)[i := w] \<rparr> else s)
        in s\<lparr> sl_weight :=
                (sl_weight s)[i := (if has_mixed_precision then rnd w else w)] \<rparr>)
      else s)"

definition max_slots :: nat where "max_slots = 60"

definition multi_sgd_launch ::
  "(real \<Rightarrow> real) \<Rightarrow> bool \<Rightarrow> bool \<Rightarrow> real \<Rightarrow> real \<Rightarrow> real \<Rightarrow> slot list \<Rightarrow> slot list result" where
  "multi_sgd_launch rnd has_momentum has_mixed_precision clip momentum rescale slots =
     (if length slots > max_slots then Inl NativeFault
      else Inr (foldl (\<lambda>ss i. map (multi_sgd_slot rnd has_momentum has_mixed_precision clip momentum
                                     rescale i) ss)
                  slots [0..<foldr (\<lambda>s n. max (length (sl_weight s)) n) slots 0]))"

section \<open>Row-sparse gradients\<close>

record row_sparse =
  rsp_idx :: "nat list"
  rsp_val :: "real list"

text \<open>Row \<open>i\<close> of the gradient, applied to its row of the weight.\<close>

definition sgd_dns_rsp_kernel ::
  "nat \<Rightarrow> (row_sparse \<Rightarrow> real list \<Rightarrow> nat \<Rightarrow> real list) reals4" where
  "sgd_dns_rsp_kernel row_length clip lr wd rescale grad weight i =
     foldl (\<lambda>w j. let data_i = rsp_idx grad ! i * row_length + j; grad_i = i * row_length + j
                  in w[data_i := sgd_kernel clip lr wd rescale (w ! data_i) (rsp_val grad ! grad_i)])
       weight [0..<row_length]"

definition sgd_update_dns_rsp ::
  "bool \<Rightarrow> nat \<Rightarrow> (real list \<Rightarrow> row_sparse \<Rightarrow> real list) reals4" where
  "sgd_update_dns_rsp lazy_update row_length clip lr wd rescale weight grad =
     (let weight' = (if lazy_update then weight else map (\<lambda>w. w * (1 - lr * wd)) weight);
          wd' = (if lazy_update then wd else 0)
      in if rsp_idx grad = [] then weight'
         else foldl (sgd_dns_rsp_kernel row_length clip lr wd' rescale grad) weight'
                [0..<length (rsp_idx grad)])"

text \<open>The lazy momentum kernel works on weight and momentum.\<close>

definition sgd_mom_dns_rsp_kernel ::
  "nat \<Rightarrow> (real \<Rightarrow> row_sparse \<Rightarrow> real list \<times> real list \<Rightarrow> nat \<Rightarrow> real list \<times> real list) reals4" where
  "sgd_mom_dns_rsp_kernel row_length clip momentum lr wd rescale grad wm i =
     foldl (\<lambda>(w, m) j.
              let data_i = rsp_idx grad ! i * row_length + j; grad_i = i * row_length + j;
                  mom = sgd_mom_kernel clip momentum lr wd rescale (w ! data_i)
                          (rsp_val grad ! grad_i) (m ! data_i)
              in (w[data_i := w ! data_i + mom], m[data_i := mom]))
       wm [0..<row_length]"

definition sgd_mom_lazy_update ::
  "nat \<Rightarrow> (real \<Rightarrow> real list \<Rightarrow> row_sparse \<Rightarrow> real list \<Rightarrow> real list \<times> real list) reals4" where
  "sgd_mom_lazy_update row_length clip momentum lr wd rescale weight grad mom =
     (if rsp_idx grad = [] then (weight, mom)
      else foldl (sgd_mom_dns_rsp_kernel row_length clip momentum lr wd rescale grad) (weight, mom)
             [0..<length (rsp_idx grad)])"

text \<open>
  The standard momentum update visits every row of the weight and finds the row of the gradient by
  an inclusive prefix sum over the flags of the rows that are present.
\<close>

definition mark_rows :: "nat list \<Rightarrow> nat list \<Rightarrow> nat list" where
  "mark_rows idx flags = foldl (\<lambda>f r. f[r := 1]) flags idx"

definition inclusive_sum :: "nat \<Rightarrow> nat list \<Rightarrow> nat list" where
  "inclusive_sum num_rows flags = foldl (\<lambda>p i. p[i := p ! i + p ! (i - 1)]) flags [1..<num_rows]"

definition sgd_mom_std_kernel ::
  "nat \<Rightarrow> (real \<Rightarrow> row_sparse \<Rightarrow> nat list \<Rightarrow> real list \<times> real list \<Rightarrow> nat \<Rightarrow> real list \<times> real list) reals4" where
  "sgd_mom_std_kernel row_length clip momentum lr wd rescale grad prefix_sum wm i =
     (let non_zero = (if i = 0 then prefix_sum ! 0 > 0 else prefix_sum ! i > prefix_sum ! (i - 1));
          row_i = i * row_length;
          grad_i = (prefix_sum ! i - 1) * row_length
      in foldl (\<lambda>(w, m) j.
              let data_i = row_i + j;
                  g = (if non_zero then rsp_val grad ! (grad_i + j) else 0);
                  mom = sgd_mom_kernel clip momentum lr wd rescale (w ! data_i) g (m ! data_i)
              in (w[data_i := w ! data_i + mom], m[data_i := mom]))
           wm [0..<row_length])"

definition sgd_mom_std_update ::
  "nat \<Rightarrow> nat \<Rightarrow> (real \<Rightarrow> real list \<Rightarrow> row_sparse \<Rightarrow> real list \<Rightarrow> real list \<times> real list) reals4" where
  "sgd_mom_std_update num_rows row_length clip momentum lr wd rescale weight grad mom =
     (let prefix_sum = replicate num_rows 0;
          prefix_sum = (if rsp_idx grad = [] then prefix_sum
                        else inclusive_sum num_rows (mark_rows (rsp_idx grad) prefix_sum))
      in foldl (sgd_mom_std_kernel row_length clip momentum lr wd rescale grad prefix_sum)
           (weight, mom) [0..<num_rows])"

section \<open>Adaptive kernels\<close>

text \<open>Adam: the gradient array is overwritten with the rescaled gradient plus the decay.\<close>

definition adam_kernel ::
  "((real \<Rightarrow> real \<Rightarrow> real \<Rightarrow> real \<times> real \<times> real \<times> real) reals4) reals4" where
  "adam_kernel clip lr wd rescale beta1 beta2 epsilon w g mean var =
     (let grad = rescale * g + wd * w;
          mean' = (if clip \<ge> 0 then beta1 * mean + (1 - beta1) * clip_map grad clip
                   else beta1 * mean + (1 - beta1) * grad);
          var' = (if clip \<ge> 0 then beta2 * var + (1 - beta2) * (clip_map grad clip)\<^sup>2
                  else beta2 * var + (1 - beta2) * grad\<^sup>2)
      in (w - lr * mean' / (sqrt var' + epsilon), grad, mean', var'))"

definition clip_weight :: "real \<Rightarrow> real \<Rightarrow> real" where
  "clip_weight clip_weights w = (if clip_weights \<ge> 0 then clip_map w clip_weights else w)"

definition rmsprop_kernel ::
  "((real \<Rightarrow> real \<Rightarrow> real \<times> real \<times> real) reals4) reals4" where
  "rmsprop_kernel clip clip_weights lr wd rescale gamma1 epsilon w g n =
     (let grad = rescale * g + wd * w;
          c = (if clip \<ge> 0 then clip_map grad clip else grad);
          n' = (1 - gamma1) * c * c + gamma1 * n
      in (clip_weight clip_weights (w - lr * (c / sqrt (n' + epsilon))), grad, n'))"

definition rmspropalex_kernel ::
  "(((real \<Rightarrow> real \<times> real \<times> real \<times> real \<times> real) reals4) reals4) reals4" where
  "rmspropalex_kernel clip clip_weights lr wd rescale gamma1 gamma2 epsilon w gr n g delta =
     (let grad = rescale * gr + wd * w;
          c = (if clip \<ge> 0 then clip_map grad clip else grad);
          n' = (1 - gamma1) * c * c + gamma1 * n;
          g' = (1 - gamma1) * c + gamma1 * g;
          delta' = gamma2 * delta - lr * (c / sqrt (n' - g' * g' + epsilon))
      in (clip_weight clip_weights (w + delta'), grad, n', g', delta'))"

definition ftrl_kernel ::
  "((real \<Rightarrow> real \<Rightarrow> real \<times> real \<times> real \<times> real) reals4) reals4" where
  "ftrl_kernel clip lr wd rescale lamda1 beta w g z n =
     (let grad = rescale * g;
          c = (if clip \<ge> 0 then clip_map grad clip else grad);
          z' = z + (c - (sqrt (n + c\<^sup>2) - sqrt n) * w / lr);
          n' = n + c\<^sup>2
      in ((sgn z' * lamda1 - z') / ((beta + sqrt n') / lr + wd) * (if \<bar>z'\<bar> > lamda1 then 1 else 0),
          grad, z', n'))"

definition ftml_kernel ::
  "(real \<Rightarrow> real \<Rightarrow> real \<Rightarrow> nat \<Rightarrow> (real \<Rightarrow> real \<times> real \<times> real \<times> real) reals4) reals4" where
  "ftml_kernel clip lr wd rescale beta1 beta2 epsilon t w g d v z =
     (let grad_i = (if clip \<ge> 0 then clip_map (rescale * g + wd * w) clip else rescale * g + wd * w);
          v' = beta2 * v + (1 - beta2) * grad_i\<^sup>2;
          d_t = (1 - beta1 ^ t) / lr * (sqrt (v' / (1 - beta2 ^ t)) + epsilon);
          z' = beta1 * z + (1 - beta1) * grad_i - (d_t - beta1 * d) * w
      in (- z' / d_t, d_t, v', z'))"

definition signsgd_kernel :: "real reals4" where
  "signsgd_kernel lr wd w g = (1 - lr * wd) * w - lr * sgn g"

definition signum_kernel ::
  "((real \<Rightarrow> real \<times> real) reals4) reals4" where
  "signum_kernel clip momentum lr wd rescale wd_lh w g m =
     (let m' = (if clip \<ge> 0
                then momentum * m - (1 - momentum) * wd * w
                     - (1 - momentum) * clip_map (rescale * g) clip
                else momentum * m - (1 - momentum) * wd * w - (1 - momentum) * rescale * g)
      in ((1 - lr * wd_lh) * w + lr * sgn m', m'))"


section \<open>Loops over the rows of an array\<close>

text \<open>
  The row loops of the sparse kernels, on an array of cells: the body replaces the cell it visits.
\<close>

definition row_loop :: "(nat \<Rightarrow> 'c \<Rightarrow> 'c) \<Rightarrow> nat \<Rightarrow> nat \<Rightarrow> 'c list \<Rightarrow> 'c list" where
  "row_loop F rl p c = foldl (\<lambda>c j. c[p + j := F j (c ! (p + j))]) c [0..<rl]"

definition rows_loop :: "(nat \<Rightarrow> nat \<Rightarrow> 'c \<Rightarrow> 'c) \<Rightarrow> nat \<Rightarrow> (nat \<Rightarrow> nat) \<Rightarrow> nat \<Rightarrow> 'c list \<Rightarrow> 'c list" where
  "rows_loop F rl row n c = foldl (\<lambda>c i. row_loop (F i) rl (row i * rl) c) c [0..<n]"

lemma length_row_loop [simp]: "length (row_loop F rl p c) = length c"
  by (induction rl) (simp_all add: row_loop_def)

lemma row_loop_nth:
  "q < length c \<Longrightarrow> row_loop F rl p c ! q = (if p \<le> q \<and> q < p + rl then F (q - p) (c ! q) else c ! q)"
proof (induction rl)
  case (Suc rl)
  have "row_loop F (Suc rl) p c = (row_loop F rl p c)[p + rl := F rl (row_loop F rl p c ! (p + rl))]"
    by (simp add: row_loop_def)
  then show ?case using Suc by (cases "q = p + rl") auto
qed (auto simp: row_loop_def)

lemma length_rows_loop [simp]: "length (rows_loop F rl row n c) = length c"
  by (induction n) (simp_all add: rows_loop_def)

lemma rows_loop_0 [simp]: "rows_loop F rl row 0 c = c"
  by (simp add: rows_loop_def)

lemma rows_loop_Suc:
  "rows_loop F rl row (Suc n) c = row_loop (F n) rl (row n * rl) (rows_loop F rl row n c)"
  by (simp add: rows_loop_def)

lemma row_range_iff: "0 < rl \<Longrightarrow> r * rl \<le> q \<and> q < r * rl + rl \<longleftrightarrow> q div rl = (r :: nat)"
  by (metis add.commute div_nat_eqI dividend_less_times_div less_eq_div_iff_mult_less_eq mult.commute mult_Suc order_refl)

lemma rows_loop_nth_Suc:
  assumes "0 < rl" "q < length c"
  shows "rows_loop F rl row (Suc n) c ! q =
    (if row n = q div rl then F n (q mod rl) (rows_loop F rl row n c ! q)
     else rows_loop F rl row n c ! q)"
  using assms row_range_iff [of rl "row n" q]
  by (auto simp: rows_loop_Suc row_loop_nth minus_div_mult_eq_mod)

lemma rows_loop_other:
  "0 < rl \<Longrightarrow> q < length c \<Longrightarrow> \<forall>i < n. row i \<noteq> q div rl \<Longrightarrow> rows_loop F rl row n c ! q = c ! q"
  by (induction n) (simp_all add: rows_loop_nth_Suc rows_loop_def [where n = 0])

lemma rows_loop_nth:
  assumes "0 < rl" "q < length c" "inj_on row {..<n}" "i < n" "row i = q div rl"
  shows "rows_loop F rl row n c ! q = F i (q mod rl) (c ! q)"
  using assms(3,4)
proof (induction n)
  case (Suc n)
  have inj: "inj_on row {..<n}" using Suc.prems by (auto intro: inj_on_subset)
  show ?case
  proof (cases "i = n")
    case True
    then have "\<forall>k < n. row k \<noteq> q div rl"
      using Suc.prems assms(5) by (metis inj_onD lessI less_SucI lessThan_iff nat_neq_iff)
    then show ?thesis using True assms by (simp add: rows_loop_nth_Suc rows_loop_other)
  next
    case False
    then have "row n \<noteq> row i" using Suc.prems by (metis inj_onD lessI lessThan_iff)
    then show ?thesis using False Suc inj assms by (simp add: rows_loop_nth_Suc)
  qed
qed simp

text \<open>The loops over weight and momentum are loops over the array of pairs.\<close>

definition pair_loop ::
  "(nat \<Rightarrow> 'a \<times> 'b \<Rightarrow> 'a \<times> 'b) \<Rightarrow> nat \<Rightarrow> nat \<Rightarrow> 'a list \<times> 'b list \<Rightarrow> 'a list \<times> 'b list" where
  "pair_loop F rl p wm =
     foldl (\<lambda>(w, m) j. let x = F j (w ! (p + j), m ! (p + j))
                        in (w[p + j := fst x], m[p + j := snd x])) wm [0..<rl]"

definition zipped :: "'a list \<times> 'b list \<Rightarrow> ('a \<times> 'b) list" where
  "zipped wm = zip (fst wm) (snd wm)"

definition same_length :: "'a list \<times> 'b list \<Rightarrow> nat \<Rightarrow> bool" where
  "same_length wm n \<longleftrightarrow> length (fst wm) = n \<and> length (snd wm) = n"

lemma pair_loop_zipped:
  assumes "same_length wm n"
  shows "zipped (pair_loop F rl p wm) = row_loop F rl p (zipped wm) \<and> same_length (pair_loop F rl p wm) n"
proof (induction rl)
  case (Suc rl)
  let ?s = "pair_loop F rl p wm"
  let ?x = "F rl (fst ?s ! (p + rl), snd ?s ! (p + rl))"
  have r: "pair_loop F (Suc rl) p wm = ((fst ?s)[p + rl := fst ?x], (snd ?s)[p + rl := snd ?x])"
    by (simp add: pair_loop_def Let_def split: prod.split)
  have "zipped (pair_loop F (Suc rl) p wm) = (zipped ?s)[p + rl := ?x]"
    unfolding r zipped_def by (simp add: update_zip)
  also have "\<dots> = (zipped ?s)[p + rl := F rl (zipped ?s ! (p + rl))]"
  proof -
    have "length (fst ?s) = n" "length (snd ?s) = n" using Suc by (auto simp: same_length_def)
    then show ?thesis
      unfolding zipped_def by (cases "p + rl < n") (simp_all add: list_update_beyond)
  qed
  finally show ?case using Suc by (simp add: r row_loop_def same_length_def)
qed (use assms in \<open>simp add: row_loop_def pair_loop_def\<close>)

lemma pair_rows_zipped:
  assumes "same_length wm n"
  shows "zipped (foldl (\<lambda>wm i. pair_loop (F i) rl (row i * rl) wm) wm [0..<k])
           = rows_loop F rl row k (zipped wm)
         \<and> same_length (foldl (\<lambda>wm i. pair_loop (F i) rl (row i * rl) wm) wm [0..<k]) n"
proof (induction k)
  case (Suc k)
  let ?s = "foldl (\<lambda>wm i. pair_loop (F i) rl (row i * rl) wm) wm [0..<k]"
  have s: "same_length ?s n" and z: "zipped ?s = rows_loop F rl row k (zipped wm)"
    using Suc by auto
  show ?case using pair_loop_zipped [OF s, of "F k" rl "row k * rl"] by (simp add: rows_loop_Suc z)
qed (use assms in \<open>simp add: rows_loop_def\<close>)

lemma zipped_inject: "same_length a n \<Longrightarrow> same_length b n \<Longrightarrow> zipped a = zipped b \<Longrightarrow> a = b"
  unfolding zipped_def same_length_def
  by (metis map_fst_zip map_snd_zip prod.expand)


section \<open>The prefix sum over the rows present\<close>

definition rsp_ok :: "nat \<Rightarrow> nat \<Rightarrow> row_sparse \<Rightarrow> bool" where
  "rsp_ok num_rows row_length g \<longleftrightarrow>
     sorted_wrt (<) (rsp_idx g) \<and> (\<forall>r \<in> set (rsp_idx g). r < num_rows)
     \<and> length (rsp_val g) = length (rsp_idx g) * row_length"

text \<open>The dense array a row-sparse gradient stands for.\<close>

definition rsp_to_dense :: "nat \<Rightarrow> nat \<Rightarrow> row_sparse \<Rightarrow> real list" where
  "rsp_to_dense num_rows row_length g =
     map (\<lambda>q. case find (\<lambda>k. rsp_idx g ! k = q div row_length) [0..<length (rsp_idx g)] of
                None \<Rightarrow> 0
              | Some k \<Rightarrow> rsp_val g ! (k * row_length + q mod row_length))
       [0..<num_rows * row_length]"

lemma length_mark_rows [simp]: "length (mark_rows idx f) = length f"
  by (induction idx arbitrary: f) (simp_all add: mark_rows_def)

lemma mark_rows_nth:
  "r < length f \<Longrightarrow> mark_rows idx f ! r = (if r \<in> set idx then 1 else f ! r)"
proof (induction idx arbitrary: f)
  case (Cons a idx)
  have "mark_rows (a # idx) f = mark_rows idx (f[a := 1])" by (simp add: mark_rows_def)
  then show ?case using Cons.IH [of "f[a := 1]"] Cons.prems by (auto simp: nth_list_update)
qed (simp add: mark_rows_def)

lemma inclusive_sum_nth:
  assumes "n \<le> length f"
  shows "length (inclusive_sum n f) = length f
    \<and> (\<forall>i < length f. inclusive_sum n f ! i = (if i < n then sum_list (take (Suc i) f) else f ! i))"
  using assms
proof (induction n)
  case (Suc n)
  have IH: "length (inclusive_sum n f) = length f"
    "\<And>i. i < length f \<Longrightarrow>
       inclusive_sum n f ! i = (if i < n then sum_list (take (Suc i) f) else f ! i)"
    using Suc by auto
  show ?case
  proof (cases n)
    case 0
    then show ?thesis using Suc.prems by (auto simp: inclusive_sum_def take_Suc_conv_app_nth)
  next
    case (Suc m)
    then have "inclusive_sum (Suc n) f =
        (inclusive_sum n f)[n := inclusive_sum n f ! n + inclusive_sum n f ! (n - 1)]"
      by (simp add: inclusive_sum_def)
    moreover have "inclusive_sum n f ! n + inclusive_sum n f ! (n - 1) = sum_list (take (Suc n) f)"
      using IH Suc \<open>Suc n \<le> length f\<close> by (simp add: take_Suc_conv_app_nth)
    ultimately show ?thesis using IH by (auto simp: nth_list_update less_Suc_eq)
  qed
qed (simp add: inclusive_sum_def)

lemma sum_flags:
  assumes "n \<le> length f" "\<And>r. r < length f \<Longrightarrow> f ! r = (if r \<in> S then 1 else (0 :: nat))"
  shows "sum_list (take n f) = card {r \<in> S. r < n}"
  using assms(1)
proof (induction n)
  case (Suc n)
  have "{r \<in> S. r < Suc n} = (if n \<in> S then insert n {r \<in> S. r < n} else {r \<in> S. r < n})"
    by (auto simp: less_Suc_eq)
  then show ?case using Suc assms(2) [of n] by (simp add: take_Suc_conv_app_nth)
qed simp

lemma sorted_idx_less:
  "sorted_wrt (<) (xs :: nat list) \<Longrightarrow> k < length xs \<Longrightarrow> card {r \<in> set xs. r < xs ! k} = k"
proof -
  assume s: "sorted_wrt (<) xs" and k: "k < length xs"
  have "{r \<in> set xs. r < xs ! k} = (!) xs ` {..<k}"
  proof (intro equalityI subsetI)
    fix r assume "r \<in> {r \<in> set xs. r < xs ! k}"
    then obtain i where i: "i < length xs" "r = xs ! i" "xs ! i < xs ! k"
      by (auto simp: in_set_conv_nth)
    then have "i < k" using s k by (metis linorder_neqE_nat not_less_iff_gr_or_eq sorted_wrt_nth_less)
    then show "r \<in> (!) xs ` {..<k}" using i by auto
  qed (use s k in \<open>auto simp: sorted_wrt_nth_less\<close>)
  moreover have "inj_on ((!) xs) {..<k}"
    using s k by (intro inj_on_nth) (auto simp: strict_sorted_iff)
  ultimately show ?thesis by (simp add: card_image)
qed


definition row_prefix :: "nat \<Rightarrow> row_sparse \<Rightarrow> nat list" where
  "row_prefix num_rows g =
     (if rsp_idx g = [] then replicate num_rows 0
      else inclusive_sum num_rows (mark_rows (rsp_idx g) (replicate num_rows 0)))"

lemma row_prefix_nth:
  "i < num_rows \<Longrightarrow> row_prefix num_rows g ! i = card {r \<in> set (rsp_idx g). r < Suc i}"
  using inclusive_sum_nth [of num_rows "mark_rows (rsp_idx g) (replicate num_rows 0)"]
    sum_flags [of "Suc i" "mark_rows (rsp_idx g) (replicate num_rows 0)" "set (rsp_idx g)"]
  by (simp add: row_prefix_def mark_rows_nth)

lemma row_prefix_found:
  assumes "i < num_rows"
  shows "(if i = 0 then row_prefix num_rows g ! 0 > 0
          else row_prefix num_rows g ! i > row_prefix num_rows g ! (i - 1)) \<longleftrightarrow> i \<in> set (rsp_idx g)"
proof -
  let ?S = "\<lambda>n. {r \<in> set (rsp_idx g). r < n}"
  have *: "?S (Suc i) = (if i \<in> set (rsp_idx g) then insert i (?S i) else ?S i)"
    by (auto simp: less_Suc_eq)
  have "card (?S (Suc i)) > card (?S i) \<longleftrightarrow> i \<in> set (rsp_idx g)"
    by (simp add: *)
  moreover have "card (?S 0) = 0" by simp
  ultimately show ?thesis using assms by (cases i) (simp_all only: row_prefix_nth, auto simp: row_prefix_nth)
qed

lemma row_prefix_position:
  assumes "rsp_ok num_rows rl g" "k < length (rsp_idx g)"
  shows "row_prefix num_rows g ! (rsp_idx g ! k) - 1 = k"
proof -
  let ?i = "rsp_idx g ! k"
  have i: "?i < num_rows" "?i \<in> set (rsp_idx g)" using assms by (auto simp: rsp_ok_def)
  have "{r \<in> set (rsp_idx g). r < Suc ?i} = insert ?i {r \<in> set (rsp_idx g). r < ?i}"
    using i by (auto simp: less_Suc_eq)
  then show ?thesis
    using i assms sorted_idx_less [of "rsp_idx g" k] by (simp add: row_prefix_nth rsp_ok_def)
qed

section \<open>Sparse standard updates are dense updates\<close>

lemma rsp_to_dense_nth:
  assumes "rsp_ok num_rows rl g" "q < num_rows * rl"
  shows "k < length (rsp_idx g) \<Longrightarrow> rsp_idx g ! k = q div rl \<Longrightarrow>
           rsp_to_dense num_rows rl g ! q = rsp_val g ! (k * rl + q mod rl)"
    and "q div rl \<notin> set (rsp_idx g) \<Longrightarrow> rsp_to_dense num_rows rl g ! q = 0"
proof -
  have d: "distinct (rsp_idx g)" using assms by (simp add: rsp_ok_def strict_sorted_iff)
  show "rsp_to_dense num_rows rl g ! q = rsp_val g ! (k * rl + q mod rl)"
    if k: "k < length (rsp_idx g)" "rsp_idx g ! k = q div rl"
  proof -
    have "find (\<lambda>k. rsp_idx g ! k = q div rl) [0..<length (rsp_idx g)] = Some k"
      using k d by (auto simp: find_Some_iff intro!: exI [of _ k])
        (metis less_trans nat_neq_iff nth_eq_iff_index_eq)
    then show ?thesis using assms by (simp add: rsp_to_dense_def)
  qed
  show "rsp_to_dense num_rows rl g ! q = 0" if "q div rl \<notin> set (rsp_idx g)"
  proof -
    have "find (\<lambda>k. rsp_idx g ! k = q div rl) [0..<length (rsp_idx g)] = None"
      using that by (auto simp: find_None_iff in_set_conv_nth)
    then show ?thesis using assms by (simp add: rsp_to_dense_def)
  qed
qed

lemma length_rsp_to_dense [simp]: "length (rsp_to_dense num_rows rl g) = num_rows * rl"
  by (simp add: rsp_to_dense_def)

lemma clip_map_0 [simp]: "0 \<le> c \<Longrightarrow> clip_map 0 c = 0"
  by (simp add: clip_map_def)

lemma sgd_dns_rsp_rows:
  "foldl (sgd_dns_rsp_kernel rl clip lr wd rescale g) w [0..<n] =
   rows_loop (\<lambda>i j x. sgd_kernel clip lr wd rescale x (rsp_val g ! (i * rl + j))) rl
     (\<lambda>i. rsp_idx g ! i) n w"
  by (simp add: rows_loop_def row_loop_def sgd_dns_rsp_kernel_def [abs_def] Let_def)

lemma sgd_update_std_dense:
  assumes ok: "rsp_ok num_rows rl g" and len: "length w = num_rows * rl" and rl: "0 < rl"
  shows "sgd_update_dns_rsp False rl clip lr wd rescale w g =
    sgd_update clip lr wd rescale w (rsp_to_dense num_rows rl g)"
proof (rule nth_equalityI)
  show "length (sgd_update_dns_rsp False rl clip lr wd rescale w g) =
      length (sgd_update clip lr wd rescale w (rsp_to_dense num_rows rl g))"
    by (simp add: sgd_update_dns_rsp_def sgd_update_def sgd_dns_rsp_rows len Let_def)
next
  fix q assume "q < length (sgd_update_dns_rsp False rl clip lr wd rescale w g)"
  then have q: "q < num_rows * rl"
    by (simp add: sgd_update_dns_rsp_def sgd_dns_rsp_rows len Let_def split: if_splits)
  let ?w = "map (\<lambda>w. w * (1 - lr * wd)) w"
  have lhs: "sgd_update_dns_rsp False rl clip lr wd rescale w g =
      rows_loop (\<lambda>i j x. sgd_kernel clip lr 0 rescale x (rsp_val g ! (i * rl + j))) rl
        (\<lambda>i. rsp_idx g ! i) (length (rsp_idx g)) ?w"
    by (cases "rsp_idx g = []") (simp_all add: sgd_update_dns_rsp_def sgd_dns_rsp_rows)
  have rhs: "sgd_update clip lr wd rescale w (rsp_to_dense num_rows rl g) ! q =
      sgd_kernel clip lr wd rescale (w ! q) (rsp_to_dense num_rows rl g ! q)"
    using q len by (simp add: sgd_update_def)
  have inj: "inj_on ((!) (rsp_idx g)) {..<length (rsp_idx g)}"
    using ok by (intro inj_on_nth) (auto simp: rsp_ok_def strict_sorted_iff)
  show "sgd_update_dns_rsp False rl clip lr wd rescale w g ! q =
      sgd_update clip lr wd rescale w (rsp_to_dense num_rows rl g) ! q"
  proof (cases "q div rl \<in> set (rsp_idx g)")
    case True
    then obtain k where k: "k < length (rsp_idx g)" "rsp_idx g ! k = q div rl"
      by (auto simp: in_set_conv_nth)
    show ?thesis
      using rows_loop_nth [OF rl _ inj k, of ?w] rsp_to_dense_nth(1) [OF ok q k] q len
      by (simp add: lhs rhs sgd_kernel_def algebra_simps)
  next
    case False
    then have "\<forall>i < length (rsp_idx g). rsp_idx g ! i \<noteq> q div rl" by (auto simp: in_set_conv_nth)
    then show ?thesis
      using rows_loop_other [OF rl, of q ?w] rsp_to_dense_nth(2) [OF ok q False] q len
      by (simp add: lhs rhs sgd_kernel_def algebra_simps)
  qed
qed


definition mom_cell ::
  "(real \<Rightarrow> real \<Rightarrow> real \<times> real \<Rightarrow> real \<times> real) reals4" where
  "mom_cell clip momentum lr wd rescale g =
     (\<lambda>(w, m). let mom = sgd_mom_kernel clip momentum lr wd rescale w g m in (w + mom, mom))"

lemma sgd_mom_std_rows:
  "sgd_mom_std_update num_rows rl clip momentum lr wd rescale w g m =
   foldl (\<lambda>wm i. pair_loop (\<lambda>j. mom_cell clip momentum lr wd rescale
       (if (if i = 0 then row_prefix num_rows g ! 0 > 0
            else row_prefix num_rows g ! i > row_prefix num_rows g ! (i - 1))
        then rsp_val g ! ((row_prefix num_rows g ! i - 1) * rl + j) else 0)) rl (i * rl) wm)
     (w, m) [0..<num_rows]"
  unfolding sgd_mom_std_update_def sgd_mom_std_kernel_def [abs_def] pair_loop_def mom_cell_def
    row_prefix_def Let_def
  by (simp add: case_prod_unfold)

lemma zipped_sgd_mom_update:
  assumes "length w = n" "length g = n" "length m = n"
  shows "same_length (sgd_mom_update clip momentum lr wd rescale w g m) n"
    and "q < n \<Longrightarrow> zipped (sgd_mom_update clip momentum lr wd rescale w g m) ! q =
      mom_cell clip momentum lr wd rescale (g ! q) (w ! q, m ! q)"
  using assms by (simp_all add: sgd_mom_update_def same_length_def zipped_def mom_cell_def Let_def)

lemma sgd_mom_std_dense:
  assumes ok: "rsp_ok num_rows rl g" and rl: "0 < rl"
    and len: "length w = num_rows * rl" "length m = num_rows * rl"
  shows "sgd_mom_std_update num_rows rl clip momentum lr wd rescale w g m =
    sgd_mom_update clip momentum lr wd rescale w (rsp_to_dense num_rows rl g) m" (is "?lhs = ?rhs")
proof (rule zipped_inject)
  let ?n = "num_rows * rl"
  define G where "G = (\<lambda>i j. if (if i = 0 then row_prefix num_rows g ! 0 > 0
            else row_prefix num_rows g ! i > row_prefix num_rows g ! (i - 1))
        then rsp_val g ! ((row_prefix num_rows g ! i - 1) * rl + j) else 0)"
  have sl: "same_length (w, m) ?n" using len by (simp add: same_length_def)
  have z: "zipped ?lhs =
      rows_loop (\<lambda>i j. mom_cell clip momentum lr wd rescale (G i j)) rl (\<lambda>i. i) num_rows (zip w m)"
    and "same_length ?lhs ?n"
    using pair_rows_zipped [OF sl, of "\<lambda>i j. mom_cell clip momentum lr wd rescale (G i j)" rl "\<lambda>i. i"]
    by (simp_all add: sgd_mom_std_rows G_def zipped_def)
  then show "same_length ?lhs ?n" by simp
  show sr: "same_length ?rhs ?n" using zipped_sgd_mom_update(1) len by simp
  show "zipped ?lhs = zipped ?rhs"
  proof (rule nth_equalityI)
    show "length (zipped ?lhs) = length (zipped ?rhs)"
      using sr len unfolding z by (simp add: zipped_def same_length_def)
    fix q assume "q < length (zipped ?lhs)"
    then have q: "q < ?n" using len unfolding z by simp
    have r: "q div rl < num_rows" using q rl by (simp add: less_mult_imp_div_less)
    have "G (q div rl) (q mod rl) = rsp_to_dense num_rows rl g ! q"
    proof (cases "q div rl \<in> set (rsp_idx g)")
      case True
      then obtain k where k: "k < length (rsp_idx g)" "rsp_idx g ! k = q div rl"
        by (auto simp: in_set_conv_nth)
      show ?thesis
        using True rsp_to_dense_nth(1) [OF ok q k] row_prefix_position [OF ok k(1)] k
        unfolding G_def row_prefix_found [OF r, of g] by simp
    next
      case False
      then show ?thesis
        using rsp_to_dense_nth(2) [OF ok q] unfolding G_def row_prefix_found [OF r, of g] by simp
    qed
    then show "zipped ?lhs ! q = zipped ?rhs ! q"
      unfolding z using rows_loop_nth [OF rl, of q "zip w m" "\<lambda>i. i" num_rows "q div rl"] q r len
      by (simp add: zipped_sgd_mom_update(2))
  qed
qed

text \<open>C5. Without lazy updates a row-sparse gradient and its dense form have the same effect: the SGD
  update that decays all rows first, and the SGD update with momentum that finds the gradient rows by a
  prefix sum over the rows present, give exactly the weight (and the momentum) of the dense
  operators, with or without clipping.\<close>

theorem sparse_std_updates_dense:
  assumes "rsp_ok num_rows row_length g" "0 < row_length"
    and "length weight = num_rows * row_length" "length mom = num_rows * row_length"
  shows "sgd_update_dns_rsp False row_length clip lr wd rescale weight g =
           sgd_update clip lr wd rescale weight (rsp_to_dense num_rows row_length g)
    \<and> sgd_mom_std_update num_rows row_length clip momentum lr wd rescale weight g mom =
           sgd_mom_update clip momentum lr wd rescale weight (rsp_to_dense num_rows row_length g) mom"
  using sgd_update_std_dense [OF assms(1,3,2)] sgd_mom_std_dense [OF assms] by simp


theorem sparse_std_updates_dense_witness:
  "rsp_ok 3 2 \<lparr> rsp_idx = [0, 2], rsp_val = [1, 2, 3, 4] \<rparr>
   \<and> rsp_to_dense 3 2 \<lparr> rsp_idx = [0, 2], rsp_val = [1, 2, 3, 4] \<rparr> = [1, 2, 0, 0, 3, 4]
   \<and> sgd_mom_std_update 3 2 (-1) (1/2) (1/2) 0 1 [1, 1, 1, 1, 1, 1]
        \<lparr> rsp_idx = [0, 2], rsp_val = [1, 2, 3, 4] \<rparr> [0, 0, 1, 1, 2, 2]
      = sgd_mom_update (-1) (1/2) (1/2) 0 1 [1, 1, 1, 1, 1, 1] [1, 2, 0, 0, 3, 4] [0, 0, 1, 1, 2, 2]
   \<and> sgd_update_dns_rsp False 2 1 (1/2) (1/2) 1 [1, 1, 1, 1, 1, 1]
        \<lparr> rsp_idx = [0, 2], rsp_val = [1, 2, 3, 4] \<rparr>
      = sgd_update 1 (1/2) (1/2) 1 [1, 1, 1, 1, 1, 1] [1, 2, 0, 0, 3, 4]"
proof -
  let ?g = "\<lparr> rsp_idx = [0, 2], rsp_val = [1, 2, 3, 4] \<rparr>"
  have ok: "rsp_ok 3 2 ?g" by (simp add: rsp_ok_def)
  have d: "rsp_to_dense 3 2 ?g = [1, 2, 0, 0, 3, 4]"
    unfolding rsp_to_dense_def by (simp add: upt_rec)
  show ?thesis
    using ok d
      sparse_std_updates_dense [OF ok, of "[1, 1, 1, 1, 1, 1]" "[0, 0, 1, 1, 2, 2]" "-1" "1/2" 0 1 "1/2"]
      sparse_std_updates_dense [OF ok, of "[1, 1, 1, 1, 1, 1]" "[0, 0, 1, 1, 2, 2]" 1 "1/2" "1/2" 1 0]
    by simp
qed

text \<open>A lazy update applies the dense rule to the rows present and leaves the others alone.\<close>

lemma sgd_mom_lazy_nth:
  assumes ok: "rsp_ok num_rows rl g" and rl: "0 < rl"
    and len: "length w = num_rows * rl" "length m = num_rows * rl" and q: "q < num_rows * rl"
  shows "zipped (sgd_mom_lazy_update rl clip momentum lr wd rescale w g m) ! q =
    (if q div rl \<in> set (rsp_idx g)
     then mom_cell clip momentum lr wd rescale (rsp_to_dense num_rows rl g ! q) (w ! q, m ! q)
     else (w ! q, m ! q))"
proof -
  let ?F = "\<lambda>i j. mom_cell clip momentum lr wd rescale (rsp_val g ! (i * rl + j))"
  have sl: "same_length (w, m) (num_rows * rl)" using len by (simp add: same_length_def)
  have "sgd_mom_lazy_update rl clip momentum lr wd rescale w g m =
      foldl (\<lambda>wm i. pair_loop (?F i) rl (rsp_idx g ! i * rl) wm) (w, m) [0..<length (rsp_idx g)]"
    by (simp add: sgd_mom_lazy_update_def sgd_mom_dns_rsp_kernel_def [abs_def] pair_loop_def
        mom_cell_def Let_def case_prod_unfold)
  then have z: "zipped (sgd_mom_lazy_update rl clip momentum lr wd rescale w g m) =
      rows_loop ?F rl ((!) (rsp_idx g)) (length (rsp_idx g)) (zip w m)"
    using pair_rows_zipped [OF sl, of ?F rl "(!) (rsp_idx g)" "length (rsp_idx g)"]
    by (simp add: zipped_def)
  have inj: "inj_on ((!) (rsp_idx g)) {..<length (rsp_idx g)}"
    using ok by (intro inj_on_nth) (auto simp: rsp_ok_def strict_sorted_iff)
  show ?thesis
  proof (cases "q div rl \<in> set (rsp_idx g)")
    case True
    then obtain k where k: "k < length (rsp_idx g)" "rsp_idx g ! k = q div rl"
      by (auto simp: in_set_conv_nth)
    show ?thesis
      using rows_loop_nth [OF rl _ inj k, of "zip w m"] rsp_to_dense_nth(1) [OF ok q k] q len True
      by (simp add: z)
  next
    case False
    then have "\<forall>i < length (rsp_idx g). rsp_idx g ! i \<noteq> q div rl" by (auto simp: in_set_conv_nth)
    then show ?thesis using rows_loop_other [OF rl, of q "zip w m"] q len False by (simp add: z)
  qed
qed

section \<open>The aggregated kernel updates every weight as the single operators do\<close>

definition slot_ok :: "bool \<Rightarrow> bool \<Rightarrow> slot \<Rightarrow> bool" where
  "slot_ok hm hp s \<longleftrightarrow> length (sl_grad s) = length (sl_weight s)
     \<and> (hm \<longrightarrow> length (sl_mom s) = length (sl_weight s))
     \<and> (hp \<longrightarrow> length (sl_weight32 s) = length (sl_weight s))"

text \<open>The slot after \<open>sgd_update\<close>, \<open>sgd_mom_update\<close>, \<open>mp_sgd_update\<close> or \<open>mp_sgd_mom_update\<close>.\<close>

definition slot_single :: "(real \<Rightarrow> real) \<Rightarrow> bool \<Rightarrow> bool \<Rightarrow> real \<Rightarrow> real \<Rightarrow> real \<Rightarrow> slot \<Rightarrow> slot" where
  "slot_single rnd hm hp clip momentum rescale s =
     (case (hm, hp) of
        (False, False) \<Rightarrow>
          s\<lparr> sl_weight := sgd_update clip (sl_lr s) (sl_wd s) rescale (sl_weight s) (sl_grad s) \<rparr>
      | (True, False) \<Rightarrow>
          (let (w, m) = sgd_mom_update clip momentum (sl_lr s) (sl_wd s) rescale (sl_weight s)
                          (sl_grad s) (sl_mom s)
           in s\<lparr> sl_weight := w, sl_mom := m \<rparr>)
      | (False, True) \<Rightarrow>
          (let (w, w32) = mp_sgd_update rnd clip (sl_lr s) (sl_wd s) rescale (sl_grad s) (sl_weight32 s)
           in s\<lparr> sl_weight := w, sl_weight32 := w32 \<rparr>)
      | (True, True) \<Rightarrow>
          (let (w, m, w32) = mp_sgd_mom_update rnd clip momentum (sl_lr s) (sl_wd s) rescale
                               (sl_grad s) (sl_mom s) (sl_weight32 s)
           in s\<lparr> sl_weight := w, sl_mom := m, sl_weight32 := w32 \<rparr>))"

lemma overwrite_step:
  "k < length xs \<Longrightarrow> length ys = length xs \<Longrightarrow>
   (take k ys @ drop k xs)[k := ys ! k] = take (Suc k) ys @ drop (Suc k) xs"
  by (simp add: list_update_append take_Suc_conv_app_nth Cons_nth_drop_Suc [symmetric])

lemma overwrite_read: "k < length xs \<Longrightarrow> length ys = length xs \<Longrightarrow> (take k ys @ drop k xs) ! k = xs ! k"
  by (simp add: nth_append)

lemma multi_sgd_slot_loop:
  fixes s :: slot
  assumes ok: "slot_ok hm hp s" and k: "k \<le> length (sl_weight s)"
    and t: "t = slot_single rnd hm hp clip momentum rescale s"
  shows "foldl (\<lambda>s i. multi_sgd_slot rnd hm hp clip momentum rescale i s) s [0..<k] =
    s\<lparr> sl_weight := take k (sl_weight t) @ drop k (sl_weight s),
       sl_mom := (if hm then take k (sl_mom t) @ drop k (sl_mom s) else sl_mom s),
       sl_weight32 := (if hp then take k (sl_weight32 t) @ drop k (sl_weight32 s)
                       else sl_weight32 s) \<rparr>"
  using k
proof (induction k)
  case (Suc k)
  then have k: "k < length (sl_weight s)" by simp
  show ?case
    using Suc k ok unfolding t slot_ok_def
    by (cases hm; cases hp)
      (simp_all add: multi_sgd_slot_def slot_single_def Let_def sgd_update_def sgd_mom_update_def
        mp_sgd_update_def mp_sgd_mom_update_def overwrite_read overwrite_step [symmetric]
        sgd_kernel_def sgd_mom_kernel_def algebra_simps)
qed simp

lemma multi_sgd_slot_all:
  assumes ok: "slot_ok hm hp s" and n: "length (sl_weight s) \<le> n"
  shows "foldl (\<lambda>s i. multi_sgd_slot rnd hm hp clip momentum rescale i s) s [0..<n] =
    slot_single rnd hm hp clip momentum rescale s"
proof -
  let ?f = "\<lambda>s i. multi_sgd_slot rnd hm hp clip momentum rescale i s"
  let ?k = "length (sl_weight s)" and ?t = "slot_single rnd hm hp clip momentum rescale s"
  have idle: "foldl ?f t [length (sl_weight t)..<j] = t" for t j
    by (induction j) (simp_all add: multi_sgd_slot_def)
  have len: "length (sl_weight ?t) = ?k" "hm \<Longrightarrow> length (sl_mom ?t) = length (sl_mom s)"
    "hp \<Longrightarrow> length (sl_weight32 ?t) = length (sl_weight32 s)"
    using ok by (cases hm; cases hp;
      simp add: slot_single_def slot_ok_def Let_def sgd_update_def sgd_mom_update_def
        mp_sgd_update_def mp_sgd_mom_update_def)+
  have rest: "\<not> hm \<Longrightarrow> sl_mom ?t = sl_mom s" "\<not> hp \<Longrightarrow> sl_weight32 ?t = sl_weight32 s"
    "sl_grad ?t = sl_grad s" "sl_lr ?t = sl_lr s" "sl_wd ?t = sl_wd s"
    by (cases hm; cases hp; simp add: slot_single_def split: prod.split)+
  have "foldl ?f s [0..<?k] = ?t"
    unfolding multi_sgd_slot_loop [OF ok order_refl refl]
    using ok len rest by (auto simp: slot_ok_def intro!: slot.equality)
  moreover have "[0..<n] = [0..<?k] @ [?k..<n]" using n by (metis le_add_diff_inverse upt_add_eq_append le0)
  ultimately show ?thesis using idle [of ?t n] len(1) by simp
qed

lemma foldl_map_map:
  "foldl (\<lambda>ss i. map (f i) ss) xs is = map (\<lambda>x. foldl (\<lambda>s i. f i s) x is) xs"
  by (induction "is" arbitrary: xs) simp_all

lemma slot_le_max: "s \<in> set ss \<Longrightarrow> length (sl_weight s) \<le> foldr (\<lambda>s n. max (length (sl_weight s)) n) ss 0"
  by (induction ss) auto

lemma multi_sgd_launch_single:
  "length slots \<le> max_slots \<Longrightarrow> \<forall>s \<in> set slots. slot_ok hm hp s \<Longrightarrow>
   multi_sgd_launch rnd hm hp clip momentum rescale slots =
     Inr (map (slot_single rnd hm hp clip momentum rescale) slots)"
  by (auto simp: multi_sgd_launch_def foldl_map_map slot_le_max intro!: multi_sgd_slot_all)

end
