(* ===== verification/Optimizer_Base.thy ===== *)
theory Optimizer_Base
  imports LR_Schedulers Py_Text
begin

text \<open>
  The base class \<open>Optimizer\<close> of \<open>python/mxnet/optimizer/optimizer.py\<close>: learning rate and weight decay
  of every parameter, their multipliers, and the count of updates.

  A parameter is named by an index, a number or a string (\<open>pkey\<close>).  The scheduler is whatever
  object the caller passed: \<open>call\<close> applies it to a number of updates, giving the object after the
  call and the rate, and \<open>set_base\<close> assigns its \<open>base_lr\<close>.  A parameter of \<open>param_dict\<close> is given by
  its two multipliers.  \<open>sym_info\<close> holds the attributes of the symbol's variables and its argument
  names.  Floating point numbers are reals, so the strings \<open>inf\<close> and \<open>nan\<close> are outside the model.
\<close>

section \<open>Reading a float\<close>

definition is_digit :: "char \<Rightarrow> bool" where
  "is_digit c \<longleftrightarrow> digit_val c \<noteq> None"

definition digits_value :: "string \<Rightarrow> nat" where
  "digits_value s = (case parse_digits 0 s of None \<Rightarrow> 0 | Some n \<Rightarrow> n)"

text \<open>Splits an optional sign off a string.\<close>

definition sign_of :: "string \<Rightarrow> real \<times> string" where
  "sign_of s =
     (case s of
        [] \<Rightarrow> (1, [])
      | c # r \<Rightarrow> if c = CHR ''-'' then (-1, r) else if c = CHR ''+'' then (1, r) else (1, s))"

definition unsigned_float :: "string \<Rightarrow> real result" where
  "unsigned_float s =
     (let ip = takeWhile is_digit s; r = dropWhile is_digit s;
          point = (r \<noteq> [] \<and> hd r = CHR ''.'');
          fp = (if point then takeWhile is_digit (tl r) else []);
          r = (if point then dropWhile is_digit (tl r) else r);
          mant = real (digits_value (ip @ fp)) / 10 ^ length fp
      in if ip = [] \<and> fp = [] then Inl ValueError
         else if r = [] then Inr mant
         else if hd r \<noteq> CHR ''e'' \<and> hd r \<noteq> CHR ''E'' then Inl ValueError
         else (case sign_of (tl r) of
                 (sg, ds) \<Rightarrow>
                   if ds = [] \<or> \<not> list_all is_digit ds then Inl ValueError
                   else Inr (if sg = 1 then mant * 10 ^ digits_value ds
                             else mant / 10 ^ digits_value ds)))"

definition py_float :: "string \<Rightarrow> real result" where
  "py_float s = (case sign_of (py_strip s) of (sg, r) \<Rightarrow> rbind (unsigned_float r) (\<lambda>x. Inr (sg * x)))"

section \<open>The optimizer object\<close>

datatype pkey = KInt int | KStr string

type_synonym sym_attrs = "string \<Rightarrow> (string \<Rightarrow> string option) option"

record 's optimizer =
  rescale_grad :: real
  opt_lr :: real
  opt_scheduler :: "'s option"
  opt_wd :: real
  lr_mult :: "pkey \<Rightarrow> real option"
  wd_mult :: "pkey \<Rightarrow> real option"
  begin_num_update :: int
  num_update :: int
  index_update_count :: "pkey \<Rightarrow> int option"
  clip_gradient :: "real option"
  multi_precision :: bool
  aggregate_num :: int
  idx2name :: "(pkey \<times> string) list"
  sym_info :: "(sym_attrs \<times> string list) option"
  param_dict :: "pkey \<Rightarrow> (real \<times> real) option"

text \<open>The multipliers the symbol's variables carry, entered into a table in argument order.\<close>

fun sym_mults ::
  "sym_attrs \<Rightarrow> string \<Rightarrow> string list \<Rightarrow> (pkey \<Rightarrow> real option) \<Rightarrow> (pkey \<Rightarrow> real option, unit) outcome" where
  "sym_mults attr key [] m = (m, Inr ())"
| "sym_mults attr key (name # names) m =
     (case attr name of
        None \<Rightarrow> sym_mults attr key names m
      | Some a \<Rightarrow>
          (case a key of
             None \<Rightarrow> sym_mults attr key names m
           | Some s \<Rightarrow>
               (case py_float s of
                  Inl e \<Rightarrow> (m, Inl e)
                | Inr x \<Rightarrow> sym_mults attr key names (m(KStr name \<mapsto> x)))))"

definition set_lr_mult ::
  "('s, 'z) optimizer_scheme \<Rightarrow> (pkey \<Rightarrow> real option) \<Rightarrow> (('s, 'z) optimizer_scheme, unit) outcome" where
  "set_lr_mult opt args =
     (case (case sym_info opt of
              None \<Rightarrow> (Map.empty, Inr ())
            | Some (attr, names) \<Rightarrow> sym_mults attr ''__lr_mult__'' names Map.empty) of
        (m, Inl e) \<Rightarrow> (opt\<lparr> lr_mult := m \<rparr>, Inl e)
      | (m, Inr _) \<Rightarrow> (opt\<lparr> lr_mult := m ++ args \<rparr>, Inr ()))"

definition ends_with :: "string \<Rightarrow> string \<Rightarrow> bool" where
  "ends_with s t \<longleftrightarrow> drop (length s - length t) s = t"

definition decayed_name :: "string \<Rightarrow> bool" where
  "decayed_name n \<longleftrightarrow> ends_with n ''_weight'' \<or> ends_with n ''_gamma''"

definition set_wd_mult ::
  "('s, 'z) optimizer_scheme \<Rightarrow> (pkey \<Rightarrow> real option) \<Rightarrow> (('s, 'z) optimizer_scheme, unit) outcome" where
  "set_wd_mult opt args =
     (let m = foldl (\<lambda>m n. if \<not> decayed_name n then m(KStr n \<mapsto> 0) else m) Map.empty
                (map snd (idx2name opt))
      in case (case sym_info opt of
                 None \<Rightarrow> (m, Inr ())
               | Some (attr, names) \<Rightarrow> sym_mults attr ''__wd_mult__'' names m) of
           (m, Inl e) \<Rightarrow> (opt\<lparr> wd_mult := m \<rparr>, Inl e)
         | (m, Inr _) \<Rightarrow> (opt\<lparr> wd_mult := m ++ args \<rparr>, Inr ()))"

definition Optimizer_init ::
  "(real \<Rightarrow> 's \<Rightarrow> 's) \<Rightarrow> real \<Rightarrow> (pkey \<times> string) list \<Rightarrow> real \<Rightarrow> real option \<Rightarrow> real \<Rightarrow> 's option \<Rightarrow>
   (sym_attrs \<times> string list) option \<Rightarrow> int \<Rightarrow> bool \<Rightarrow> (pkey \<Rightarrow> (real \<times> real) option) \<Rightarrow>
   's optimizer result" where
  "Optimizer_init set_base rescale names wd clip learning_rate scheduler symbol begin mp params =
     (let opt = \<lparr> rescale_grad = rescale, opt_lr = learning_rate,
                  opt_scheduler = map_option (set_base learning_rate) scheduler, opt_wd = wd,
                  lr_mult = Map.empty, wd_mult = Map.empty, begin_num_update = begin,
                  num_update = begin, index_update_count = Map.empty, clip_gradient = clip,
                  multi_precision = mp, aggregate_num = 0, idx2name = names, sym_info = symbol,
                  param_dict = params \<rparr>
      in snd (sbind (set_lr_mult opt Map.empty) (\<lambda>opt _.
              sbind (set_wd_mult opt Map.empty) (\<lambda>opt _. (opt, Inr opt)))))"

section \<open>Learning rate and weight decay\<close>

text \<open>\<open>lr_scheduler(num_update)\<close>, or the fixed rate.\<close>

definition learning_rate ::
  "('s \<Rightarrow> int \<Rightarrow> ('s, real) outcome) \<Rightarrow> ('s, 'z) optimizer_scheme \<Rightarrow>
   (('s, 'z) optimizer_scheme, real) outcome" where
  "learning_rate call opt =
     (case opt_scheduler opt of
        None \<Rightarrow> (opt, Inr (opt_lr opt))
      | Some s \<Rightarrow>
          (case call s (num_update opt) of (s', r) \<Rightarrow> (opt\<lparr> opt_scheduler := Some s' \<rparr>, r)))"

definition set_learning_rate ::
  "('s, 'z) optimizer_scheme \<Rightarrow> real \<Rightarrow> (('s, 'z) optimizer_scheme, unit) outcome" where
  "set_learning_rate opt lr =
     (if opt_scheduler opt \<noteq> None then (opt, Inl UserWarning) else (opt\<lparr> opt_lr := lr \<rparr>, Inr ()))"

text \<open>The multiplier of an index: of its parameter, else under the index, else under its name.\<close>

definition multiplier ::
  "(pkey \<Rightarrow> real option) \<Rightarrow> (pkey \<Rightarrow> real option) \<Rightarrow> (pkey \<times> string) list \<Rightarrow> pkey \<Rightarrow> real" where
  "multiplier params table names index =
     (case params index of
        Some x \<Rightarrow> x
      | None \<Rightarrow>
          (case table index of
             Some x \<Rightarrow> x
           | None \<Rightarrow>
               (case map_of names index of
                  Some n \<Rightarrow> dict_get_default table (KStr n) 1
                | None \<Rightarrow> 1)))"

definition lr_multiplier :: "('s, 'z) optimizer_scheme \<Rightarrow> pkey \<Rightarrow> real" where
  "lr_multiplier opt = multiplier (\<lambda>i. map_option fst (param_dict opt i)) (lr_mult opt) (idx2name opt)"

definition wd_multiplier :: "('s, 'z) optimizer_scheme \<Rightarrow> pkey \<Rightarrow> real" where
  "wd_multiplier opt = multiplier (\<lambda>i. map_option snd (param_dict opt i)) (wd_mult opt) (idx2name opt)"

definition get_lrs ::
  "('s \<Rightarrow> int \<Rightarrow> ('s, real) outcome) \<Rightarrow> ('s, 'z) optimizer_scheme \<Rightarrow> pkey list \<Rightarrow>
   (('s, 'z) optimizer_scheme, real list) outcome" where
  "get_lrs call opt indices =
     sbind (learning_rate call opt) (\<lambda>opt lr.
       (opt, Inr (map (\<lambda>i. lr * lr_multiplier opt i) indices)))"

definition get_lr ::
  "('s \<Rightarrow> int \<Rightarrow> ('s, real) outcome) \<Rightarrow> ('s, 'z) optimizer_scheme \<Rightarrow> pkey \<Rightarrow>
   (('s, 'z) optimizer_scheme, real) outcome" where
  "get_lr call opt index =
     sbind (get_lrs call opt [index]) (\<lambda>opt lrs. (opt, Inr (hd lrs)))"

definition get_wds :: "('s, 'z) optimizer_scheme \<Rightarrow> pkey list \<Rightarrow> real list" where
  "get_wds opt indices = map (\<lambda>i. opt_wd opt * wd_multiplier opt i) indices"

definition get_wd :: "('s, 'z) optimizer_scheme \<Rightarrow> pkey \<Rightarrow> real" where
  "get_wd opt index = hd (get_wds opt [index])"

section \<open>Update counts\<close>

definition count_one :: "('s, 'z) optimizer_scheme \<Rightarrow> pkey \<Rightarrow> ('s, 'z) optimizer_scheme" where
  "count_one opt idx =
     (let c = (case index_update_count opt idx of None \<Rightarrow> begin_num_update opt | Some c \<Rightarrow> c) + 1
      in opt\<lparr> index_update_count := (index_update_count opt)(idx \<mapsto> c),
              num_update := max c (num_update opt) \<rparr>)"

definition update_count :: "('s, 'z) optimizer_scheme \<Rightarrow> pkey list \<Rightarrow> ('s, 'z) optimizer_scheme" where
  "update_count opt indices = foldl count_one opt indices"

text \<open>The gradient clipping argument: absent when \<open>None\<close> or zero, and the operators' default is -1.\<close>

definition clip_arg :: "('s, 'z) optimizer_scheme \<Rightarrow> real" where
  "clip_arg opt = (case clip_gradient opt of None \<Rightarrow> -1 | Some c \<Rightarrow> if c = 0 then -1 else c)"


section \<open>Properties\<close>

subsection \<open>The counts determine the number of updates\<close>

lemma count_one_fields [simp]:
  "begin_num_update (count_one opt i) = begin_num_update opt"
  "opt_scheduler (count_one opt i) = opt_scheduler opt" "opt_lr (count_one opt i) = opt_lr opt"
  "lr_mult (count_one opt i) = lr_mult opt" "wd_mult (count_one opt i) = wd_mult opt"
  "idx2name (count_one opt i) = idx2name opt" "param_dict (count_one opt i) = param_dict opt"
  "opt_wd (count_one opt i) = opt_wd opt" "clip_gradient (count_one opt i) = clip_gradient opt"
  "rescale_grad (count_one opt i) = rescale_grad opt"
  "multi_precision (count_one opt i) = multi_precision opt"
  "aggregate_num (count_one opt i) = aggregate_num opt"
  "optimizer.more (count_one opt i) = optimizer.more opt"
  by (simp_all add: count_one_def Let_def)

definition counts_ok :: "('s, 'z) optimizer_scheme \<Rightarrow> pkey list \<Rightarrow> bool" where
  "counts_ok opt hist \<longleftrightarrow>
     (\<forall>i. index_update_count opt i =
            (if i \<in> set hist then Some (begin_num_update opt + int (count_list hist i)) else None))
     \<and> num_update opt = begin_num_update opt
         + Max (insert 0 ((\<lambda>i. int (count_list hist i)) ` set hist))"

lemma counts_ok_step:
  assumes ok: "counts_ok opt hist"
  shows "counts_ok (count_one opt i) (hist @ [i])"
proof -
  let ?b = "begin_num_update opt"
  let ?f = "\<lambda>h j. int (count_list h j)"
  have c: "(case index_update_count opt i of None \<Rightarrow> ?b | Some c \<Rightarrow> c) = ?b + ?f hist i"
    using ok by (auto simp: counts_ok_def count_list_0_iff)
  have rest: "?f (hist @ [i]) j = (if j = i then ?f hist i + 1 else ?f hist j)" for j
    by simp
  have "Max (insert 0 (?f (hist @ [i]) ` set (hist @ [i]))) =
      max (?f hist i + 1) (Max (insert 0 (?f hist ` set hist)))"
  proof (rule antisym)
    show "Max (insert 0 (?f (hist @ [i]) ` set (hist @ [i])))
        \<le> max (?f hist i + 1) (Max (insert 0 (?f hist ` set hist)))"
      by (intro Max.boundedI) (auto simp: rest le_max_iff_disj)
    have "?f hist i + 1 \<le> Max (insert 0 (?f (hist @ [i]) ` set (hist @ [i])))"
      by (rule Max_ge) (auto simp: rest image_iff)
    moreover have "Max (insert 0 (?f hist ` set hist))
        \<le> Max (insert 0 (?f (hist @ [i]) ` set (hist @ [i])))"
    proof (intro Max.boundedI)
      fix x assume "x \<in> insert 0 (?f hist ` set hist)"
      then consider "x = 0" | j where "j \<in> set hist" "x = ?f hist j" by auto
      then show "x \<le> Max (insert 0 (?f (hist @ [i]) ` set (hist @ [i])))"
      proof cases
        case 2
        then have "x \<le> ?f (hist @ [i]) j" by simp
        also have "\<dots> \<le> Max (insert 0 (?f (hist @ [i]) ` set (hist @ [i])))"
          using 2 by (intro Max_ge) (auto simp del: count_list_append)
        finally show ?thesis .
      qed (simp del: count_list_append)
    qed auto
    ultimately show "max (?f hist i + 1) (Max (insert 0 (?f hist ` set hist)))
        \<le> Max (insert 0 (?f (hist @ [i]) ` set (hist @ [i])))" by simp
  qed
  then show ?thesis
    using ok unfolding counts_ok_def by (auto simp: count_one_def c Let_def)
qed


lemma counts_ok_steps: "counts_ok opt hist \<Longrightarrow> counts_ok (foldl count_one opt is) (hist @ is)"
proof (induction "is" arbitrary: opt hist)
  case (Cons i "is")
  then show ?case using Cons.IH [OF counts_ok_step [of opt hist i]] by simp
qed simp

lemma update_count_concat: "foldl update_count opt calls = foldl count_one opt (concat calls)"
  by (induction calls arbitrary: opt) (simp_all add: update_count_def)

lemma foldl_count_fields [simp]:
  "begin_num_update (foldl count_one opt is) = begin_num_update opt"
  "opt_scheduler (foldl count_one opt is) = opt_scheduler opt"
  "opt_lr (foldl count_one opt is) = opt_lr opt"
  "lr_mult (foldl count_one opt is) = lr_mult opt" "wd_mult (foldl count_one opt is) = wd_mult opt"
  "idx2name (foldl count_one opt is) = idx2name opt"
  "param_dict (foldl count_one opt is) = param_dict opt"
  "opt_wd (foldl count_one opt is) = opt_wd opt"
  "clip_gradient (foldl count_one opt is) = clip_gradient opt"
  "rescale_grad (foldl count_one opt is) = rescale_grad opt"
  "multi_precision (foldl count_one opt is) = multi_precision opt"
  "aggregate_num (foldl count_one opt is) = aggregate_num opt"
  "optimizer.more (foldl count_one opt is) = optimizer.more opt"
  by (induction "is" arbitrary: opt) simp_all

lemma update_count_keeps [simp]:
  "opt_scheduler (update_count opt is) = opt_scheduler opt" "opt_lr (update_count opt is) = opt_lr opt"
  "rescale_grad (update_count opt is) = rescale_grad opt" "clip_arg (update_count opt is) = clip_arg opt"
  "lr_multiplier (update_count opt is) = lr_multiplier opt" "get_wds (update_count opt is) = get_wds opt"
  "get_wd (update_count opt is) = get_wd opt"
  "aggregate_num (update_count opt is) = aggregate_num opt"
  "clip_gradient (update_count opt is) = clip_gradient opt"
  "begin_num_update (update_count opt is) = begin_num_update opt"
  by (simp_all add: update_count_def clip_arg_def lr_multiplier_def get_wds_def get_wd_def
      wd_multiplier_def fun_eq_iff)

lemma get_lrs_fixed:
  "opt_scheduler opt = None \<Longrightarrow>
   get_lrs call opt is = (opt, Inr (map (\<lambda>i. opt_lr opt * lr_multiplier opt i) is))"
  by (simp add: get_lrs_def learning_rate_def)

lemma get_wds_map: "get_wds opt is = map (get_wd opt) is"
  by (simp add: get_wds_def get_wd_def)

lemma set_mult_fields:
  assumes "set_lr_mult opt args = (opt', r) \<or> set_wd_mult opt args = (opt', r)"
  shows "index_update_count opt' = index_update_count opt" "num_update opt' = num_update opt"
    "begin_num_update opt' = begin_num_update opt"
  using assms by (auto simp: set_lr_mult_def set_wd_mult_def Let_def split: prod.splits sum.splits)

lemma Optimizer_init_counts:
  assumes "Optimizer_init set_base rescale names wd clip lr sched symbol begin mp params = Inr opt"
  shows "index_update_count opt = Map.empty" "num_update opt = begin" "begin_num_update opt = begin"
proof -
  obtain o0 o1 where o0: "index_update_count o0 = Map.empty" "num_update o0 = begin"
      "begin_num_update o0 = begin"
    and o1: "set_lr_mult o0 Map.empty = (o1, Inr ())" "set_wd_mult o1 Map.empty = (opt, Inr ())"
    using assms unfolding Optimizer_init_def Let_def sbind_def
    by (force split: prod.splits sum.splits)
  show "index_update_count opt = Map.empty" "num_update opt = begin" "begin_num_update opt = begin"
    using o0 set_mult_fields [OF disjI1 [OF o1(1)]] set_mult_fields [OF disjI2 [OF o1(2)]] by simp_all
qed

text \<open>The update counters of an optimizer, after any sequence of \<open>_update_count\<close> calls on single
  indices or lists: the count of every index is \<open>begin_num_update\<close> plus the number of times it was
  updated, indices never updated have no count, and \<open>num_update\<close>, which the learning rate scheduler
  sees, is \<open>begin_num_update\<close> plus the largest number of updates of an index.\<close>

theorem update_count_tracks:
  assumes "Optimizer_init set_base rescale names wd clip lr sched symbol begin mp params = Inr opt"
  shows "(\<forall>i. index_update_count (foldl update_count opt calls) i =
            (if i \<in> set (concat calls) then Some (begin + int (count_list (concat calls) i)) else None))
    \<and> num_update (foldl update_count opt calls) =
        begin + Max (insert 0 ((\<lambda>i. int (count_list (concat calls) i)) ` set (concat calls)))"
proof -
  have "counts_ok opt []"
    using Optimizer_init_counts [OF assms] by (simp add: counts_ok_def)
  from counts_ok_steps [OF this, of "concat calls"] show ?thesis
    using Optimizer_init_counts [OF assms] by (simp add: counts_ok_def update_count_concat)
qed

theorem update_count_tracks_witness:
  "\<exists>opt :: unit optimizer.
     Optimizer_init (\<lambda>_ s. s) 1 [] 0 None (1/100) None None 5 False Map.empty = Inr opt
     \<and> index_update_count (foldl update_count opt [[KInt 0, KInt 1], [KInt 0]]) (KInt 0) = Some 7
     \<and> index_update_count (foldl update_count opt [[KInt 0, KInt 1], [KInt 0]]) (KInt 2) = None
     \<and> num_update (foldl update_count opt [[KInt 0, KInt 1], [KInt 0]]) = 7"
proof -
  obtain opt :: "unit optimizer" where
    i: "Optimizer_init (\<lambda>_ s. s) 1 [] 0 None (1/100) None None 5 False Map.empty = Inr opt"
    by (simp add: Optimizer_init_def set_lr_mult_def set_wd_mult_def)
  show ?thesis
    using i update_count_tracks [OF i, of "[[KInt 0, KInt 1], [KInt 0]]"] by auto
qed

subsection \<open>Weight decay of a parameter\<close>

lemma zeroed_names:
  "foldl (\<lambda>m n. if \<not> decayed_name n then m(KStr n \<mapsto> 0) else m) m ns k =
   (case k of
      KStr n \<Rightarrow> if n \<in> set ns \<and> \<not> decayed_name n then Some (0 :: real) else m k
    | KInt _ \<Rightarrow> m k)"
  by (induction ns arbitrary: m) (auto split: pkey.splits)

text \<open>The weight decay of a parameter with a numeric index, when the optimizer has no symbol and
  \<open>set_wd_mult(args)\<close> was called last: the decay times the multiplier of the index in \<open>args\<close> if there
  is one, else of the parameter's name, else zero exactly when the name ends neither in \<open>_weight\<close> nor
  in \<open>_gamma\<close>; a parameter of \<open>param_dict\<close> brings its own multiplier.  The call never fails.\<close>

theorem get_wd_rule:
  assumes "sym_info opt = None" "map_of (idx2name opt) (KInt i) = Some n"
  shows "\<exists>opt'. set_wd_mult opt args = (opt', Inr ())
    \<and> get_wd opt' (KInt i) = opt_wd opt *
        (case param_dict opt (KInt i) of
           Some (_, m) \<Rightarrow> m
         | None \<Rightarrow>
             (case args (KInt i) of
                Some m \<Rightarrow> m
              | None \<Rightarrow>
                  (case args (KStr n) of
                     Some m \<Rightarrow> m
                   | None \<Rightarrow> if ends_with n ''_weight'' \<or> ends_with n ''_gamma'' then 1 else 0)))"
proof -
  have "n \<in> set (map snd (idx2name opt))" using assms(2) by (force dest: map_of_SomeD)
  then show ?thesis
    using assms unfolding decayed_name_def [symmetric]
    by (auto simp: set_wd_mult_def get_wd_def get_wds_def wd_multiplier_def multiplier_def Let_def
        zeroed_names map_add_def dict_get_default_def split: option.splits)
qed

theorem get_wd_rule_witness:
  "\<exists>opt opt' :: unit optimizer.
     Optimizer_init (\<lambda>_ s. s) 1 [(KInt 0, ''fc_weight''), (KInt 1, ''fc_bias'')] (1/10) None 1 None None
       0 False Map.empty = Inr opt
     \<and> set_wd_mult opt [KStr ''fc_weight'' \<mapsto> 3] = (opt', Inr ())
     \<and> get_wd opt' (KInt 0) = 3/10 \<and> get_wd opt' (KInt 1) = 0"
proof -
  obtain opt :: "unit optimizer" where
    i: "Optimizer_init (\<lambda>_ s. s) 1 [(KInt 0, ''fc_weight''), (KInt 1, ''fc_bias'')] (1/10) None 1
          None None 0 False Map.empty = Inr opt"
    and o: "sym_info opt = None" "idx2name opt = [(KInt 0, ''fc_weight''), (KInt 1, ''fc_bias'')]"
      "opt_wd opt = 1/10" "param_dict opt = Map.empty"
    by (simp add: Optimizer_init_def set_lr_mult_def set_wd_mult_def Let_def)
  have a: "map_of (idx2name opt) (KInt 0) = Some ''fc_weight''"
    "map_of (idx2name opt) (KInt 1) = Some ''fc_bias''" using o by simp_all
  show ?thesis
    using i get_wd_rule [OF o(1) a(1), of "[KStr ''fc_weight'' \<mapsto> 3]"]
      get_wd_rule [OF o(1) a(2), of "[KStr ''fc_weight'' \<mapsto> 3]"] o
    by (auto simp: ends_with_def)
qed

end
