(* ===== verification/SGD_Updater.thy ===== *)
theory SGD_Updater
  imports Optimizer_Kernels Optimizer_Base "HOL-Library.Multiset"
begin

text \<open>
  The \<open>SGD\<close> optimizer and the \<open>Updater\<close> of \<open>python/mxnet/optimizer/optimizer.py\<close>, down to the native
  operators of \<open>Optimizer_Kernels\<close>.

  Weights are dense (\<open>tensor\<close>: a number of rows of the same length), gradients dense or row-sparse.
  The code updates the arrays in place; the model returns the updated items (index, weight, gradient
  and state of one parameter) in the order the code updates them.  \<open>rnd\<close> rounds a master copy to the
  type of the weight, \<open>call\<close> is the learning rate scheduler.  Moving a state to another device leaves
  its contents alone, so \<open>sync_state_context\<close> only sets the flag.
\<close>

section \<open>SGD\<close>

record tensor =
  tn_dtype :: string
  tn_rows :: nat
  tn_rowlen :: nat
  tn_vals :: "real list"

datatype gradient = DenseGrad "real list" | RowSparseGrad row_sparse

datatype sgd_state = NoState | Momentum "real list" | Master "real list option" "real list"

record 's sgd = "'s optimizer" +
  sgd_momentum :: real
  lazy_update :: bool

record 'st upd_item =
  it_index :: pkey
  it_weight :: tensor
  it_grad :: gradient
  it_state :: 'st

definition SGD_init :: "'s optimizer \<Rightarrow> real \<Rightarrow> bool \<Rightarrow> int \<Rightarrow> 's sgd" where
  "SGD_init base momentum lazy aggregation =
     optimizer.extend (base\<lparr> aggregate_num := aggregation \<rparr>) (sgd.fields momentum lazy)"

definition SGD_create_state :: "'s sgd \<Rightarrow> real list \<Rightarrow> real list option" where
  "SGD_create_state opt weight =
     (if sgd_momentum opt \<noteq> 0 then Some (replicate (length weight) 0) else None)"

definition half_precision :: "'s sgd \<Rightarrow> tensor \<Rightarrow> bool" where
  "half_precision opt w \<longleftrightarrow> multi_precision opt \<and> tn_dtype w = ''float16''"

definition SGD_create_state_multi_precision :: "'s sgd \<Rightarrow> tensor \<Rightarrow> sgd_state" where
  "SGD_create_state_multi_precision opt w =
     (if half_precision opt w
      then Master (SGD_create_state opt (tn_vals w)) (tn_vals w)
      else (case SGD_create_state opt (tn_vals w) of None \<Rightarrow> NoState | Some m \<Rightarrow> Momentum m))"

definition is_dense :: "gradient \<Rightarrow> bool" where
  "is_dense g \<longleftrightarrow> (case g of DenseGrad _ \<Rightarrow> True | RowSparseGrad _ \<Rightarrow> False)"

definition grad_dense :: "tensor \<Rightarrow> gradient \<Rightarrow> real list" where
  "grad_dense w g =
     (case g of DenseGrad v \<Rightarrow> v | RowSparseGrad r \<Rightarrow> rsp_to_dense (tn_rows w) (tn_rowlen w) r)"

definition momentum_arg :: "'s sgd \<Rightarrow> real" where
  "momentum_arg opt = (if sgd_momentum opt > 0 then sgd_momentum opt else 0)"

text \<open>The inputs of the aggregated operators for one parameter, and the item after the call.\<close>

definition slot_of :: "bool \<Rightarrow> bool \<Rightarrow> sgd_state upd_item \<times> real \<times> real \<Rightarrow> slot result" where
  "slot_of hm hp = (\<lambda>(it, lr, wd).
     let mk = (\<lambda>m w32. \<lparr> sl_weight = tn_vals (it_weight it),
                         sl_grad = grad_dense (it_weight it) (it_grad it),
                         sl_mom = m, sl_weight32 = w32, sl_lr = lr, sl_wd = wd \<rparr>)
     in case it_state it of
          NoState \<Rightarrow> if hm \<or> hp then Inl TypeError else Inr (mk [] [])
        | Momentum m \<Rightarrow> if hp then Inl TypeError else Inr (mk (if hm then m else []) [])
        | Master mo w32 \<Rightarrow>
            (if \<not> hp then (if hm then Inl TypeError else Inr (mk [] []))
             else if \<not> hm then Inr (mk [] w32)
             else (case mo of None \<Rightarrow> Inl TypeError | Some m \<Rightarrow> Inr (mk m w32))))"

definition set_weight :: "real list \<Rightarrow> 'st upd_item \<Rightarrow> 'st upd_item" where
  "set_weight v it = it\<lparr> it_weight := (it_weight it)\<lparr> tn_vals := v \<rparr> \<rparr>"

definition item_of_slot :: "bool \<Rightarrow> bool \<Rightarrow> sgd_state upd_item \<Rightarrow> slot \<Rightarrow> sgd_state upd_item" where
  "item_of_slot hm hp it s =
     (set_weight (sl_weight s) it)\<lparr> it_state :=
        (case it_state it of
           NoState \<Rightarrow> NoState
         | Momentum m \<Rightarrow> Momentum (if hm then sl_mom s else m)
         | Master mo w32 \<Rightarrow>
             (if hp then Master (if hm then Some (sl_mom s) else mo) (sl_weight32 s)
              else Master mo w32)) \<rparr>"

text \<open>The operator called for one parameter when the batch is not aggregated.\<close>

definition sgd_one ::
  "(real \<Rightarrow> real) \<Rightarrow> 's sgd \<Rightarrow> bool \<Rightarrow> sgd_state upd_item \<times> real \<times> real \<Rightarrow> sgd_state upd_item result" where
  "sgd_one rnd opt mp = (\<lambda>(it, lr, wd).
     let w = it_weight it; c = clip_arg opt; mu = momentum_arg opt; rs = rescale_grad opt
     in if \<not> mp
        then (case it_state it of
                NoState \<Rightarrow>
                  Inr (set_weight
                    (case it_grad it of
                       DenseGrad g \<Rightarrow> sgd_update c lr wd rs (tn_vals w) g
                     | RowSparseGrad g \<Rightarrow>
                         sgd_update_dns_rsp (lazy_update opt) (tn_rowlen w) c lr wd rs (tn_vals w) g) it)
              | Momentum m \<Rightarrow>
                  (case (case it_grad it of
                           DenseGrad g \<Rightarrow> sgd_mom_update c mu lr wd rs (tn_vals w) g m
                         | RowSparseGrad g \<Rightarrow>
                             (if lazy_update opt
                              then sgd_mom_lazy_update (tn_rowlen w) c mu lr wd rs (tn_vals w) g m
                              else sgd_mom_std_update (tn_rows w) (tn_rowlen w) c mu lr wd rs
                                     (tn_vals w) g m)) of
                     (v, m') \<Rightarrow> Inr ((set_weight v it)\<lparr> it_state := Momentum m' \<rparr>))
              | Master _ _ \<Rightarrow> Inl TypeError)
        else (case it_state it of
                Master (Some m) w32 \<Rightarrow>
                  (case mp_sgd_mom_update rnd c mu lr wd rs (grad_dense w (it_grad it)) m w32 of
                     (v, m', w') \<Rightarrow> Inr ((set_weight v it)\<lparr> it_state := Master (Some m') w' \<rparr>))
              | Master None w32 \<Rightarrow>
                  (case mp_sgd_update rnd c lr wd rs (grad_dense w (it_grad it)) w32 of
                     (v, w') \<Rightarrow> Inr ((set_weight v it)\<lparr> it_state := Master None w' \<rparr>))
              | _ \<Rightarrow> Inl TypeError))"

fun sgd_loop ::
  "(sgd_state upd_item \<times> real \<times> real \<Rightarrow> sgd_state upd_item result) \<Rightarrow>
   (sgd_state upd_item \<times> real \<times> real) list \<Rightarrow> (sgd_state upd_item list, unit) outcome" where
  "sgd_loop f [] = ([], Inr ())"
| "sgd_loop f (x # xs) =
     (case f x of
        Inl e \<Rightarrow> (map fst (x # xs), Inl e)
      | Inr y \<Rightarrow> (case sgd_loop f xs of (ys, r) \<Rightarrow> (y # ys, r)))"

definition SGD_update_impl ::
  "(real \<Rightarrow> real) \<Rightarrow> ('s \<Rightarrow> int \<Rightarrow> ('s, real) outcome) \<Rightarrow> bool \<Rightarrow> 's sgd \<Rightarrow> sgd_state upd_item list \<Rightarrow>
   ('s sgd \<times> sgd_state upd_item list, unit) outcome" where
  "SGD_update_impl rnd call mp opt items =
     (let aggregate = list_all (\<lambda>it. is_dense (it_grad it)) items;
          indices = map it_index items;
          opt = update_count opt indices
      in case get_lrs call opt indices of
           (opt, Inl e) \<Rightarrow> ((opt, items), Inl e)
         | (opt, Inr lrs) \<Rightarrow>
             (let wds = get_wds opt indices;
                  args = zip items (zip lrs wds);
                  hm = (sgd_momentum opt > 0)
              in if aggregate
                 then (case rbind (mapM (slot_of hm mp) args)
                              (multi_sgd_launch rnd hm mp (clip_arg opt) (momentum_arg opt)
                                 (rescale_grad opt)) of
                         Inl e \<Rightarrow> ((opt, items), Inl e)
                       | Inr slots \<Rightarrow> ((opt, map2 (item_of_slot hm mp) items slots), Inr ()))
                 else (case sgd_loop (sgd_one rnd opt mp) args of
                         (items', r) \<Rightarrow> ((opt, items'), r))))"

text \<open>The precision is chosen by the first weight; a call has at least one.\<close>

definition SGD_update_multi_precision ::
  "(real \<Rightarrow> real) \<Rightarrow> ('s \<Rightarrow> int \<Rightarrow> ('s, real) outcome) \<Rightarrow> 's sgd \<Rightarrow> sgd_state upd_item list \<Rightarrow>
   ('s sgd \<times> sgd_state upd_item list, unit) outcome" where
  "SGD_update_multi_precision rnd call opt items =
     SGD_update_impl rnd call (\<exists>it \<in> set (take 1 items). half_precision opt (it_weight it)) opt items"

section \<open>Updater\<close>

record ('o, 'st) updater =
  upd_optimizer :: 'o
  upd_states :: "pkey \<Rightarrow> 'st option"
  states_synced :: "pkey \<Rightarrow> bool option"
  aggregate_updates :: bool

definition Updater_init :: "('s, 'z) optimizer_scheme \<Rightarrow> (('s, 'z) optimizer_scheme, 'st) updater" where
  "Updater_init opt = \<lparr> upd_optimizer = opt, upd_states = Map.empty, states_synced = Map.empty,
                        aggregate_updates = (aggregate_num opt > 0) \<rparr>"

definition ensure_state ::
  "('o \<Rightarrow> tensor \<Rightarrow> 'st) \<Rightarrow> ('o, 'st) updater \<Rightarrow> pkey \<times> tensor \<times> gradient \<Rightarrow> ('o, 'st) updater" where
  "ensure_state create u = (\<lambda>(idx, w, g).
     case upd_states u idx of
       None \<Rightarrow> u\<lparr> upd_states := (upd_states u)(idx \<mapsto> create (upd_optimizer u) w),
                   states_synced := (states_synced u)(idx \<mapsto> True) \<rparr>
     | Some _ \<Rightarrow>
         (if states_synced u idx = Some False
          then u\<lparr> states_synced := (states_synced u)(idx \<mapsto> True) \<rparr> else u))"

text \<open>The parameters grouped by type, the types in order of first occurrence.\<close>

fun add_group :: "string \<Rightarrow> 'x \<Rightarrow> (string \<times> 'x list) list \<Rightarrow> (string \<times> 'x list) list" where
  "add_group k x [] = [(k, [x])]"
| "add_group k x ((k', xs) # m) = (if k = k' then (k', xs @ [x]) # m else (k', xs) # add_group k x m)"

definition type_map :: "(pkey \<times> tensor \<times> gradient) list \<Rightarrow> (string \<times> (pkey \<times> tensor \<times> gradient) list) list" where
  "type_map xs = foldl (\<lambda>m (i, w, g). add_group (tn_dtype w) (i, w, g) m) [] xs"

definition attach :: "('o, 'st) updater \<Rightarrow> pkey \<times> tensor \<times> gradient \<Rightarrow> 'st upd_item result" where
  "attach u = (\<lambda>(i, w, g). rbind (dict_get (upd_states u) i) (\<lambda>st.
     Inr \<lparr> it_index = i, it_weight = w, it_grad = g, it_state = st \<rparr>))"

definition store_states :: "'st upd_item list \<Rightarrow> (pkey \<Rightarrow> 'st option) \<Rightarrow> pkey \<Rightarrow> 'st option" where
  "store_states items sts = sts ++ map_of (map (\<lambda>it. (it_index it, it_state it)) items)"

fun run_batches ::
  "('o \<Rightarrow> 'st upd_item list \<Rightarrow> ('o \<times> 'st upd_item list, unit) outcome) \<Rightarrow> ('o, 'st) updater \<Rightarrow>
   (pkey \<times> tensor \<times> gradient) list list \<Rightarrow> (('o, 'st) updater \<times> 'st upd_item list, unit) outcome" where
  "run_batches upd u [] = ((u, []), Inr ())"
| "run_batches upd u (b # bs) =
     (case mapM (attach u) b of
        Inl e \<Rightarrow> ((u, []), Inl e)
      | Inr items \<Rightarrow>
          (case upd (upd_optimizer u) items of
             ((opt, items'), r) \<Rightarrow>
               (let u' = u\<lparr> upd_optimizer := opt, upd_states := store_states items' (upd_states u) \<rparr>
                in case r of
                     Inl e \<Rightarrow> ((u', items'), Inl e)
                   | Inr _ \<Rightarrow> (case run_batches upd u' bs of
                                ((u'', rest), r) \<Rightarrow> ((u'', items' @ rest), r)))))"

definition Updater_call ::
  "(('s, 'z) optimizer_scheme \<Rightarrow> tensor \<Rightarrow> 'st) \<Rightarrow>
   (('s, 'z) optimizer_scheme \<Rightarrow> 'st upd_item list \<Rightarrow>
      (('s, 'z) optimizer_scheme \<times> 'st upd_item list, unit) outcome) \<Rightarrow>
   (('s, 'z) optimizer_scheme, 'st) updater \<Rightarrow> (pkey \<times> tensor \<times> gradient) list \<Rightarrow>
   ((('s, 'z) optimizer_scheme, 'st) updater \<times> 'st upd_item list, unit) outcome" where
  "Updater_call create upd u xs =
     (let u = foldl (ensure_state create) u xs; n = aggregate_num (upd_optimizer u)
      in if aggregate_updates u
         then (if xs \<noteq> [] \<and> n \<le> 0 then ((u, []), Inl NativeFault)
               else run_batches upd u (concat (map (\<lambda>(_, g). chunks (nat n) g) (type_map xs))))
         else run_batches upd u (map (\<lambda>x. [x]) xs))"

text \<open>Saving and restoring: the pickled value is the states, with the optimizer if asked for.\<close>

definition get_states :: "bool \<Rightarrow> ('o, 'st) updater \<Rightarrow> (pkey \<Rightarrow> 'st option) \<times> 'o option" where
  "get_states dump_optimizer u =
     (upd_states u, if dump_optimizer then Some (upd_optimizer u) else None)"

definition set_states :: "(pkey \<Rightarrow> 'st option) \<times> 'o option \<Rightarrow> ('o, 'st) updater \<Rightarrow> ('o, 'st) updater" where
  "set_states d u =
     u\<lparr> upd_states := fst d,
         upd_optimizer := (case snd d of None \<Rightarrow> upd_optimizer u | Some opt \<Rightarrow> opt),
         states_synced := (\<lambda>i. if fst d i = None then None else Some False) \<rparr>"


section \<open>One batch of SGD updates\<close>

definition fits :: "'s sgd \<Rightarrow> tensor \<Rightarrow> sgd_state \<Rightarrow> bool" where
  "fits opt w st \<longleftrightarrow>
     (case st of
        NoState \<Rightarrow> \<not> half_precision opt w \<and> sgd_momentum opt = 0
      | Momentum m \<Rightarrow>
          \<not> half_precision opt w \<and> sgd_momentum opt \<noteq> 0 \<and> length m = length (tn_vals w)
      | Master mo w32 \<Rightarrow>
          half_precision opt w \<and> length w32 = length (tn_vals w)
          \<and> (case mo of None \<Rightarrow> sgd_momentum opt = 0
             | Some m \<Rightarrow> sgd_momentum opt \<noteq> 0 \<and> length m = length (tn_vals w)))"

definition tensor_ok :: "tensor \<Rightarrow> gradient \<Rightarrow> bool" where
  "tensor_ok w g \<longleftrightarrow> length (tn_vals w) = tn_rows w * tn_rowlen w \<and> 0 < tn_rowlen w
     \<and> (case g of DenseGrad v \<Rightarrow> length v = length (tn_vals w)
        | RowSparseGrad r \<Rightarrow> rsp_ok (tn_rows w) (tn_rowlen w) r)"

definition item_ok :: "'s sgd \<Rightarrow> sgd_state upd_item \<Rightarrow> bool" where
  "item_ok opt it \<longleftrightarrow> tensor_ok (it_weight it) (it_grad it) \<and> fits opt (it_weight it) (it_state it)"

text \<open>The effect of updating one parameter on its own, by the operator made for it.\<close>

definition sgd_ref :: "(real \<Rightarrow> real) \<Rightarrow> 's sgd \<Rightarrow> sgd_state upd_item \<Rightarrow> sgd_state upd_item" where
  "sgd_ref rnd opt it =
     (case sgd_one rnd opt (half_precision opt (it_weight it))
             (it, opt_lr opt * lr_multiplier opt (it_index it), get_wd opt (it_index it)) of
        Inl _ \<Rightarrow> it | Inr it' \<Rightarrow> it')"

lemma sgd_one_ok:
  "item_ok opt it \<Longrightarrow> \<exists>it'. sgd_one rnd opt (half_precision opt (it_weight it)) (it, lr, wd) = Inr it'"
  unfolding item_ok_def fits_def sgd_one_def
  by (auto simp: Let_def split: sgd_state.splits option.splits prod.splits)

lemma sgd_ref_ok:
  "item_ok opt it \<Longrightarrow>
   sgd_one rnd opt (half_precision opt (it_weight it))
     (it, opt_lr opt * lr_multiplier opt (it_index it), get_wd opt (it_index it)) =
   Inr (sgd_ref rnd opt it)"
  using sgd_one_ok [of opt it rnd "opt_lr opt * lr_multiplier opt (it_index it)"
      "get_wd opt (it_index it)"] by (auto simp: sgd_ref_def)

lemma slot_agrees:
  assumes ok: "item_ok opt it" and d: "is_dense (it_grad it)" and mu: "0 \<le> sgd_momentum opt"
    and hm: "hm = (sgd_momentum opt > 0)" and hp: "hp = half_precision opt (it_weight it)"
  shows "\<exists>s. slot_of hm hp (it, lr, wd) = Inr s \<and> slot_ok hm hp s
    \<and> sgd_one rnd opt hp (it, lr, wd) =
        Inr (item_of_slot hm hp it (slot_single rnd hm hp (clip_arg opt) (momentum_arg opt)
               (rescale_grad opt) s))"
proof -
  obtain g where g: "it_grad it = DenseGrad g" using d by (cases "it_grad it") (auto simp: is_dense_def)
  note defs = slot_of_def slot_ok_def sgd_one_def slot_single_def item_of_slot_def grad_dense_def
    set_weight_def momentum_arg_def Let_def
  have len: "length g = length (tn_vals (it_weight it))"
    using ok g by (simp add: item_ok_def tensor_ok_def)
  have f: "fits opt (it_weight it) (it_state it)" using ok by (simp add: item_ok_def)
  show ?thesis
  proof (cases "it_state it")
    case NoState
    then have "hm = False" "hp = False" using f hm hp by (simp_all add: fits_def)
    then show ?thesis using NoState g len by (simp add: defs)
  next
    case (Momentum m)
    then have "hm = True" "hp = False" "length m = length (tn_vals (it_weight it))"
      using f hm hp mu by (simp_all add: fits_def)
    then show ?thesis using Momentum g len hm by (simp add: defs split: prod.split)
  next
    case (Master mo w32)
    then have hp': "hp = True" and w: "length w32 = length (tn_vals (it_weight it))"
      using f hp by (simp_all add: fits_def)
    show ?thesis
    proof (cases mo)
      case None
      then have "hm = False" using Master f hm by (simp add: fits_def)
      then show ?thesis using Master None g len hp' w by (simp add: defs split: prod.split)
    next
      case (Some m)
      then have "hm = True" "length m = length (tn_vals (it_weight it))"
        using Master f hm mu by (simp_all add: fits_def)
      then show ?thesis using Master Some g len hp' w hm by (simp add: defs split: prod.split)
    qed
  qed
qed

lemma sgd_loop_ok:
  "(\<And>x. x \<in> set xs \<Longrightarrow> f x = Inr (g x)) \<Longrightarrow> sgd_loop f xs = (map g xs, Inr ())"
  by (induction xs) simp_all

lemma sgd_count_one [simp]:
  "sgd_momentum (count_one opt i) = sgd_momentum opt" "lazy_update (count_one opt i) = lazy_update opt"
  by (simp_all add: count_one_def Let_def)

lemma sgd_update_count [simp]:
  "sgd_momentum (update_count opt is) = sgd_momentum opt"
  "lazy_update (update_count opt is) = lazy_update opt"
  by (induction "is" arbitrary: opt) (simp_all add: update_count_def)

lemma sgd_count_keeps [simp]:
  "half_precision (update_count opt is) = half_precision opt"
  "momentum_arg (update_count opt is) = momentum_arg opt"
  "sgd_one rnd (update_count opt is) = sgd_one rnd opt"
  "sgd_ref rnd (update_count opt is) = sgd_ref rnd opt"
  "fits (update_count opt is) = fits opt" "item_ok (update_count opt is) = item_ok opt"
proof -
  show h: "half_precision (update_count opt is) = half_precision opt"
    by (simp add: half_precision_def fun_eq_iff update_count_def)
  show m: "momentum_arg (update_count opt is) = momentum_arg opt"
    by (simp add: momentum_arg_def)
  show s: "sgd_one rnd (update_count opt is) = sgd_one rnd opt"
    unfolding sgd_one_def m sgd_update_count update_count_keeps ..
  show "sgd_ref rnd (update_count opt is) = sgd_ref rnd opt"
    unfolding sgd_ref_def [abs_def] s h update_count_keeps ..
  show f: "fits (update_count opt is) = fits opt"
    unfolding fits_def [abs_def] h sgd_update_count ..
  show "item_ok (update_count opt is) = item_ok opt"
    by (simp add: item_ok_def f fun_eq_iff)
qed

lemma zip_rates:
  "zip items (zip (map (\<lambda>i. f i) (map it_index items)) (map g (map it_index items))) =
   map (\<lambda>it. (it, f (it_index it), g (it_index it))) items"
  by (induction items) simp_all

lemma SGD_batch:
  assumes none: "opt_scheduler opt = None" and mu: "0 \<le> sgd_momentum opt"
    and ok: "\<forall>it \<in> set items. item_ok opt it" and len: "length items \<le> max_slots"
    and hp: "\<forall>it \<in> set items. half_precision opt (it_weight it) = hp"
  shows "SGD_update_impl rnd call hp opt items =
    ((update_count opt (map it_index items), map (sgd_ref rnd opt) items), Inr ())"
proof -
  let ?o = "update_count opt (map it_index items)"
  let ?a = "\<lambda>it. (it, opt_lr opt * lr_multiplier opt (it_index it), get_wd opt (it_index it))"
  have args: "zip items (zip (map (\<lambda>i. opt_lr opt * lr_multiplier opt i) (map it_index items))
      (get_wds opt (map it_index items))) = map ?a items"
    unfolding get_wds_map by (rule zip_rates)
  have lrs: "get_lrs call ?o (map it_index items) =
      (?o, Inr (map (\<lambda>i. opt_lr opt * lr_multiplier opt i) (map it_index items)))"
    using none by (simp add: get_lrs_fixed)
  have one: "sgd_one rnd opt hp (?a it) = Inr (sgd_ref rnd opt it)" if "it \<in> set items" for it
    using sgd_ref_ok [of opt it rnd] ok hp that by auto
  show ?thesis
  proof (cases "list_all (\<lambda>it. is_dense (it_grad it)) items")
    case True
    let ?hm = "sgd_momentum opt > 0"
    let ?S = "slot_single rnd ?hm hp (clip_arg opt) (momentum_arg opt) (rescale_grad opt)"
    have "\<forall>it \<in> set items. \<exists>s. slot_of ?hm hp (?a it) = Inr s \<and> slot_ok ?hm hp s
        \<and> sgd_ref rnd opt it = item_of_slot ?hm hp it (?S s)"
    proof
      fix it assume it: "it \<in> set items"
      then have "item_ok opt it" "is_dense (it_grad it)" "hp = half_precision opt (it_weight it)"
        using ok hp True by (auto simp: list_all_iff)
      from slot_agrees [OF this(1,2) mu refl this(3), of _ _ rnd] one [OF it]
      show "\<exists>s. slot_of ?hm hp (?a it) = Inr s \<and> slot_ok ?hm hp s
        \<and> sgd_ref rnd opt it = item_of_slot ?hm hp it (?S s)" by fastforce
    qed
    then obtain S where S: "\<And>it. it \<in> set items \<Longrightarrow> slot_of ?hm hp (?a it) = Inr (S it)
        \<and> slot_ok ?hm hp (S it) \<and> sgd_ref rnd opt it = item_of_slot ?hm hp it (?S (S it))"
      by metis
    have "mapM (slot_of ?hm hp) (map ?a items) = Inr (map S items)"
      using S by (induction items) simp_all
    moreover have "multi_sgd_launch rnd ?hm hp (clip_arg opt) (momentum_arg opt) (rescale_grad opt)
        (map S items) = Inr (map ?S (map S items))"
      using S len by (intro multi_sgd_launch_single) auto
    moreover have "map2 (item_of_slot ?hm hp) items (map ?S (map S items)) = map (sgd_ref rnd opt) items"
      using S by (induction items) simp_all
    ultimately show ?thesis
      using True unfolding SGD_update_impl_def Let_def lrs prod.case sum.case update_count_keeps
        sgd_update_count sgd_count_keeps args by simp
  next
    case False
    have "sgd_loop (sgd_one rnd opt hp) (map ?a items) = (map (sgd_ref rnd opt) items, Inr ())"
      using one by (subst sgd_loop_ok [where g = "\<lambda>x. sgd_ref rnd opt (fst x)"]) auto
    then show ?thesis
      using False unfolding SGD_update_impl_def Let_def lrs prod.case sum.case update_count_keeps
        sgd_update_count sgd_count_keeps args by simp
  qed
qed


section \<open>A run of the updater\<close>

definition the_item :: "('o, 'st) updater \<Rightarrow> pkey \<times> tensor \<times> gradient \<Rightarrow> 'st upd_item" where
  "the_item u = (\<lambda>(i, w, g).
     \<lparr> it_index = i, it_weight = w, it_grad = g, it_state = the (upd_states u i) \<rparr>)"

definition param_ok :: "('s sgd, sgd_state) updater \<Rightarrow> pkey \<times> tensor \<times> gradient \<Rightarrow> bool" where
  "param_ok u = (\<lambda>(i, w, g).
     tensor_ok w g \<and> (case upd_states u i of None \<Rightarrow> False | Some st \<Rightarrow> fits (upd_optimizer u) w st))"

definition batch_ok :: "(pkey \<times> tensor \<times> gradient) list \<Rightarrow> bool" where
  "batch_ok b \<longleftrightarrow> b \<noteq> [] \<and> length b \<le> max_slots
     \<and> (\<exists>d. \<forall>x \<in> set b. tn_dtype (fst (snd x)) = d)"

lemma it_index_sgd_ref [simp]: "it_index (sgd_ref rnd opt it) = it_index it"
  by (auto simp: sgd_ref_def sgd_one_def set_weight_def Let_def
      split: sum.splits sgd_state.splits option.splits prod.splits if_splits)

lemma the_item_fields [simp]:
  "it_index (the_item u x) = fst x" "it_weight (the_item u x) = fst (snd x)"
  by (simp_all add: the_item_def split: prod.split)

lemma attach_ok: "param_ok u x \<Longrightarrow> attach u x = Inr (the_item u x)"
  by (auto simp: param_ok_def attach_def the_item_def dict_get_def split: prod.splits option.splits)

lemma item_ok_the_item: "param_ok u x \<Longrightarrow> item_ok (upd_optimizer u) (the_item u x)"
  by (auto simp: param_ok_def item_ok_def the_item_def split: prod.splits option.splits)

lemma store_states_other:
  "i \<notin> it_index ` set items \<Longrightarrow> store_states items sts i = sts i"
  by (simp add: store_states_def map_add_dom_app_simps(3) dom_map_of_conv_image_fst image_image)

lemma store_states_append:
  "it_index ` set xs \<inter> it_index ` set ys = {} \<Longrightarrow>
   store_states (xs @ ys) sts = store_states ys (store_states xs sts)"
  by (simp add: store_states_def dom_map_of_conv_image_fst image_image Int_commute
      map_add_comm [of "map_of (map (\<lambda>it. (it_index it, it_state it)) ys)"])

lemma SGD_batch_step:
  assumes "opt_scheduler (upd_optimizer u) = None" "0 \<le> sgd_momentum (upd_optimizer u)"
    and ok: "\<forall>x \<in> set b. param_ok u x" and b: "batch_ok b"
  shows "mapM (attach u) b = Inr (map (the_item u) b)"
    and "SGD_update_multi_precision rnd call (upd_optimizer u) (map (the_item u) b) =
      ((update_count (upd_optimizer u) (map fst b),
        map (\<lambda>x. sgd_ref rnd (upd_optimizer u) (the_item u x)) b), Inr ())"
proof -
  let ?o = "upd_optimizer u" and ?items = "map (the_item u) b"
  obtain d where d: "\<forall>x \<in> set b. tn_dtype (fst (snd x)) = d" using b by (auto simp: batch_ok_def)
  define hp where "hp = (multi_precision ?o \<and> d = ''float16'')"
  show "mapM (attach u) b = Inr ?items"
    using ok by (intro mapM_Inr) (simp add: attach_ok)
  have hp: "\<forall>it \<in> set ?items. half_precision ?o (it_weight it) = hp"
    using d by (simp add: hp_def half_precision_def)
  have h: "(\<exists>it \<in> set (take 1 ?items). half_precision ?o (it_weight it)) = hp"
    using b d by (cases b) (simp_all add: hp_def half_precision_def batch_ok_def)
  have "SGD_update_impl rnd call hp ?o ?items =
      ((update_count ?o (map it_index ?items), map (sgd_ref rnd ?o) ?items), Inr ())"
    by (rule SGD_batch [OF assms(1,2) _ _ hp])
      (use ok b in \<open>auto simp: item_ok_the_item batch_ok_def\<close>)
  then show "SGD_update_multi_precision rnd call ?o ?items =
      ((update_count ?o (map fst b), map (\<lambda>x. sgd_ref rnd ?o (the_item u x)) b), Inr ())"
    unfolding SGD_update_multi_precision_def h by (simp add: o_def)
qed

lemma run_batches_SGD:
  assumes "opt_scheduler (upd_optimizer u) = None" "0 \<le> sgd_momentum (upd_optimizer u)"
    and "\<forall>x \<in> set (concat bs). param_ok u x" "distinct (map fst (concat bs))"
    and "\<forall>b \<in> set bs. batch_ok b"
    and R: "R = map (\<lambda>x. sgd_ref rnd (upd_optimizer u) (the_item u x)) (concat bs)"
  shows "run_batches (SGD_update_multi_precision rnd call) u bs =
    ((u\<lparr> upd_optimizer := update_count (upd_optimizer u) (map fst (concat bs)),
         upd_states := store_states R (upd_states u) \<rparr>, R), Inr ())"
  using assms
proof (induction bs arbitrary: u R)
  case Nil
  then show ?case by (simp add: update_count_def store_states_def)
next
  case (Cons b bs)
  let ?o = "upd_optimizer u"
  let ?r = "map (\<lambda>x. sgd_ref rnd ?o (the_item u x)) b"
  let ?R = "map (\<lambda>x. sgd_ref rnd ?o (the_item u x)) (concat bs)"
  define u' where "u' = u\<lparr> upd_optimizer := update_count ?o (map fst b),
    upd_states := store_states ?r (upd_states u) \<rparr>"
  have ok: "\<forall>x \<in> set b. param_ok u x" "batch_ok b" using Cons.prems(3,5) by simp_all
  have step: "run_batches (SGD_update_multi_precision rnd call) u (b # bs) =
      (case run_batches (SGD_update_multi_precision rnd call) u' bs of
         ((u'', rest), r) \<Rightarrow> ((u'', ?r @ rest), r))"
    by (simp add: SGD_batch_step [OF Cons.prems(1,2) ok] u'_def Let_def)
  have dis: "fst ` set (concat bs) \<inter> fst ` set b = {}"
    using Cons.prems(4) by (simp only: concat.simps map_append distinct_append set_map) blast
  have same: "upd_states u' i = upd_states u i" if "i \<in> fst ` set (concat bs)" for i
  proof -
    have "i \<notin> it_index ` set ?r" using dis that by (auto simp: image_image)
    then show ?thesis unfolding u'_def by (simp add: store_states_other)
  qed
  have items: "the_item u' x = the_item u x" "param_ok u' x = param_ok u x" if "x \<in> set (concat bs)" for x
  proof -
    have "upd_states u' (fst x) = upd_states u (fst x)" using same that by blast
    moreover have "upd_optimizer u' = update_count ?o (map fst b)" by (simp add: u'_def)
    ultimately show "the_item u' x = the_item u x" "param_ok u' x = param_ok u x"
      by (cases x; simp add: the_item_def param_ok_def split: option.split)+
  qed
  have "run_batches (SGD_update_multi_precision rnd call) u' bs =
    ((u'\<lparr> upd_optimizer := update_count (upd_optimizer u') (map fst (concat bs)),
         upd_states := store_states ?R (upd_states u') \<rparr>, ?R), Inr ())"
  proof (rule Cons.IH)
    show "\<forall>x \<in> set (concat bs). param_ok u' x" using Cons.prems(3) items(2) by simp
    show "?R = map (\<lambda>x. sgd_ref rnd (upd_optimizer u') (the_item u' x)) (concat bs)"
      using items(1) by (simp add: u'_def)
  qed (use Cons.prems(1,2,4,5) in \<open>simp_all add: u'_def\<close>)
  moreover have "store_states (?r @ ?R) (upd_states u) = store_states ?R (store_states ?r (upd_states u))"
    by (rule store_states_append) (use dis in \<open>auto simp: image_image\<close>)
  ultimately show ?case
    unfolding step Cons.prems(6) by (simp add: u'_def update_count_def)
qed


section \<open>Aggregation\<close>

lemma mset_add_group: "mset (concat (map snd (add_group k x m))) = mset (concat (map snd m)) + {#x#}"
  by (induction k x m rule: add_group.induct) auto

definition groups_ok :: "(string \<times> (pkey \<times> tensor \<times> gradient) list) list \<Rightarrow> bool" where
  "groups_ok m \<longleftrightarrow> (\<forall>(k, xs) \<in> set m. \<forall>x \<in> set xs. tn_dtype (fst (snd x)) = k)"

lemma groups_ok_add: "groups_ok m \<Longrightarrow> tn_dtype (fst (snd x)) = k \<Longrightarrow> groups_ok (add_group k x m)"
  by (induction k x m rule: add_group.induct) (auto simp: groups_ok_def)

lemma type_map_foldl:
  "mset (concat (map snd (foldl (\<lambda>m (i, w, g). add_group (tn_dtype w) (i, w, g) m) m xs)))
     = mset (concat (map snd m)) + mset xs
   \<and> (groups_ok m \<longrightarrow> groups_ok (foldl (\<lambda>m (i, w, g). add_group (tn_dtype w) (i, w, g) m) m xs))"
proof (induction xs arbitrary: m)
  case (Cons x xs)
  obtain i w g where x: "x = (i, w, g)" by (cases x)
  show ?case using Cons [of "add_group (tn_dtype w) (i, w, g) m"] groups_ok_add [of m x "tn_dtype w"]
    by (simp add: x mset_add_group)
qed simp

lemma chunks_batches:
  "0 < n \<Longrightarrow> b \<in> set (chunks n xs) \<Longrightarrow> b \<noteq> [] \<and> length b \<le> n \<and> set b \<subseteq> set xs"
proof (induction n xs rule: chunks.induct)
  case (1 n xs)
  show ?case
  proof (cases "xs = []")
    case False
    then have c: "chunks n xs = take n xs # chunks n (drop n xs)" using 1(2) by (rule chunks_step [rotated])
    show ?thesis
    proof (cases "b = take n xs")
      case True
      then show ?thesis using False 1(2) by (auto dest: in_set_takeD)
    next
      case nb: False
      then have "b \<in> set (chunks n (drop n xs))" using 1(3) c by simp
      then have "b \<noteq> [] \<and> length b \<le> n \<and> set b \<subseteq> set (drop n xs)"
        using 1(1) [OF _ 1(2)] False 1(2) by simp
      then show ?thesis using set_drop_subset [of n xs] by blast
    qed
  qed (use 1 in simp)
qed

definition batches :: "nat \<Rightarrow> (pkey \<times> tensor \<times> gradient) list \<Rightarrow> (pkey \<times> tensor \<times> gradient) list list" where
  "batches n xs = concat (map (\<lambda>(_, g). chunks n g) (type_map xs))"

lemma batches_concat: "0 < n \<Longrightarrow> mset (concat (batches n xs)) = mset xs"
proof -
  assume n: "0 < n"
  have "concat (concat (map (\<lambda>(_, g). chunks n g) m)) = concat (map snd m)"
    for m :: "(string \<times> (pkey \<times> tensor \<times> gradient) list) list"
    by (induction m) (auto simp: concat_chunks [OF n])
  then show ?thesis using type_map_foldl [of "[]" xs] by (simp add: batches_def type_map_def)
qed

lemma batches_ok: "0 < n \<Longrightarrow> n \<le> max_slots \<Longrightarrow> b \<in> set (batches n xs) \<Longrightarrow> batch_ok b"
proof -
  assume n: "0 < n" "n \<le> max_slots" and "b \<in> set (batches n xs)"
  then obtain k g where g: "(k, g) \<in> set (type_map xs)" "b \<in> set (chunks n g)"
    by (auto simp: batches_def)
  have "groups_ok (type_map xs)"
    using type_map_foldl [of "[]" xs] by (simp add: type_map_def groups_ok_def)
  then have "\<forall>x \<in> set g. tn_dtype (fst (snd x)) = k" using g(1) by (auto simp: groups_ok_def)
  then show ?thesis using chunks_batches [OF n(1) g(2)] n(2)
    unfolding batch_ok_def by (intro conjI exI [of _ k]) auto
qed


lemma fits_created: "fits opt w (SGD_create_state_multi_precision opt w)"
  by (simp add: fits_def SGD_create_state_multi_precision_def SGD_create_state_def)

lemma ensure_fields [simp]:
  "upd_optimizer (foldl (ensure_state create) u xs) = upd_optimizer u"
  "aggregate_updates (foldl (ensure_state create) u xs) = aggregate_updates u"
  by (induction xs arbitrary: u)
    (auto simp: ensure_state_def split: prod.split option.split)

lemma ensure_other:
  "i \<notin> fst ` set xs \<Longrightarrow> upd_states (foldl (ensure_state create) u xs) i = upd_states u i"
  by (induction xs arbitrary: u)
    (auto simp: ensure_state_def split: prod.split option.split)

lemma ensure_flag:
  "foldl (ensure_state create) (u\<lparr> aggregate_updates := b \<rparr>) xs =
   (foldl (ensure_state create) u xs)\<lparr> aggregate_updates := b \<rparr>"
proof (induction xs arbitrary: u)
  case (Cons x xs)
  have "ensure_state create (u\<lparr> aggregate_updates := b \<rparr>) x =
      (ensure_state create u x)\<lparr> aggregate_updates := b \<rparr>"
    by (simp add: ensure_state_def split: prod.split option.split)
  then show ?case using Cons by simp
qed simp

lemma ensure_param_ok:
  assumes "distinct (map fst xs)" "(i, w, g) \<in> set xs" "tensor_ok w g"
    and "\<And>st. upd_states u i = Some st \<Longrightarrow> fits (upd_optimizer u) w st"
  shows "param_ok (foldl (ensure_state SGD_create_state_multi_precision) u xs) (i, w, g)"
  using assms
proof (induction xs arbitrary: u)
  case (Cons x xs)
  let ?e = "ensure_state SGD_create_state_multi_precision"
  show ?case
  proof (cases "x = (i, w, g)")
    case True
    then have "upd_states (foldl ?e (?e u x) xs) i = upd_states (?e u x) i"
      using Cons.prems(1) by (intro ensure_other) (auto simp: image_iff)
    moreover have "\<exists>st. upd_states (?e u x) i = Some st \<and> fits (upd_optimizer u) w st"
      using Cons.prems(4) fits_created [of "upd_optimizer u" w]
      by (auto simp: True ensure_state_def split: option.split)
    moreover have "upd_optimizer (?e u x) = upd_optimizer u"
      using ensure_fields(1) [of _ u "[x]"] by simp
    ultimately show ?thesis using Cons.prems(3) by (auto simp: param_ok_def)
  next
    case False
    then have i: "(i, w, g) \<in> set xs" "i \<notin> fst ` set [x]"
      using Cons.prems(1,2) by (auto simp: image_iff)
    have "upd_states (?e u x) i = upd_states u i" "upd_optimizer (?e u x) = upd_optimizer u"
      using ensure_other [OF i(2)] ensure_fields(1) [of _ u "[x]"] by simp_all
    then show ?thesis using Cons.IH [of "?e u x"] Cons.prems i(1) by simp
  qed
qed simp

lemma count_one_commute: "count_one (count_one p i) j = count_one (count_one p j) i"
  by (cases "i = j"; cases "index_update_count p i"; cases "index_update_count p j")
    (simp_all add: count_one_def Let_def fun_upd_twist max.left_commute)

lemma update_count_perm:
  fixes opt :: "('s, 'z) optimizer_scheme"
  assumes "mset is = mset js"
  shows "update_count opt is = update_count opt js"
proof -
  have "fold (\<lambda>i opt :: ('s, 'z) optimizer_scheme. count_one opt i) is =
      fold (\<lambda>i opt. count_one opt i) js"
    by (intro fold_multiset_equiv assms) (simp add: fun_eq_iff count_one_commute)
  then show ?thesis by (simp add: update_count_def foldl_conv_fold)
qed

lemma store_states_perm:
  assumes "mset R = mset R'" "distinct (map it_index R)"
  shows "store_states R sts = store_states R' sts"
proof -
  let ?f = "\<lambda>it. (it_index it, it_state it)"
  have "distinct (map fst (map ?f R'))"
    using assms mset_eq_imp_distinct_iff [of "map it_index R" "map it_index R'"]
    by (simp add: o_def)
  moreover have "set (map ?f R) = set (map ?f R')" using mset_eq_setD [OF assms(1)] by simp
  ultimately have "map_of (map ?f R) = map_of (map ?f R')"
    using assms(2) by (subst map_of_inject_set) (simp_all add: o_def)
  then show ?thesis by (simp add: store_states_def)
qed


text \<open>C2. Aggregation does not change training: for SGD with a fixed learning rate and an aggregation
  size of 1 to 60, one call of the updater that groups the parameters by type and updates them in
  aggregated native calls has the same effect as updating them one by one.  It creates and keeps the
  same states, the same weights, and the same update counts; only the order in which the parameters
  are updated differs.  Gradients may be dense or row-sparse, and half precision weights may have
  master copies.\<close>

theorem Updater_aggregation:
  fixes u :: "('s sgd, sgd_state) updater"
  assumes "opt_scheduler (upd_optimizer u) = None" "0 \<le> sgd_momentum (upd_optimizer u)"
    and "0 < aggregate_num (upd_optimizer u)" "aggregate_num (upd_optimizer u) \<le> 60"
    and "distinct (map fst xs)"
    and "\<forall>(i, w, g) \<in> set xs. tensor_ok w g
           \<and> (\<forall>st. upd_states u i = Some st \<longrightarrow> fits (upd_optimizer u) w st)"
  shows "\<exists>u' R R'.
    Updater_call SGD_create_state_multi_precision (SGD_update_multi_precision rnd call)
      (u\<lparr> aggregate_updates := True \<rparr>) xs = ((u'\<lparr> aggregate_updates := True \<rparr>, R), Inr ())
    \<and> Updater_call SGD_create_state_multi_precision (SGD_update_multi_precision rnd call)
      (u\<lparr> aggregate_updates := False \<rparr>) xs = ((u'\<lparr> aggregate_updates := False \<rparr>, R'), Inr ())
    \<and> mset R = mset R' \<and> map it_index R' = map fst xs"
proof -
  let ?e = "foldl (ensure_state SGD_create_state_multi_precision)"
  let ?upd = "SGD_update_multi_precision rnd call" and ?o = "upd_optimizer u"
  define n where "n = nat (aggregate_num ?o)"
  define v where "v = ?e u xs"
  define bs where "bs = batches n xs"
  define ref where "ref = (\<lambda>x. sgd_ref rnd ?o (the_item v x))"
  have n: "0 < n" "n \<le> max_slots" using assms(3,4) by (simp_all add: n_def max_slots_def)
  have mb: "mset (concat bs) = mset xs" using batches_concat [OF n(1)] by (simp add: bs_def)
  have ok: "\<forall>x \<in> set xs. param_ok (v\<lparr> aggregate_updates := b \<rparr>) x" for b
  proof (intro ballI)
    fix x assume x: "x \<in> set xs"
    obtain i w g where e: "x = (i, w, g)" by (cases x)
    then have "param_ok v (i, w, g)"
      unfolding v_def using x assms(6) by (intro ensure_param_ok [OF assms(5)]) auto
    then show "param_ok (v\<lparr> aggregate_updates := b \<rparr>) x"
      by (simp add: e param_ok_def split: option.splits)
  qed
  have vo: "upd_optimizer v = ?o" by (simp add: v_def)
  have run: "run_batches ?upd (v\<lparr> aggregate_updates := b \<rparr>) cs =
      ((v\<lparr> aggregate_updates := b, upd_optimizer := update_count ?o (map fst (concat cs)),
           upd_states := store_states (map ref (concat cs)) (upd_states v) \<rparr>,
        map ref (concat cs)), Inr ())"
    if cs: "mset (concat cs) = mset xs" "\<forall>c \<in> set cs. batch_ok c" for b cs
  proof -
    let ?v = "v\<lparr> aggregate_updates := b \<rparr>"
    have sets: "set (concat cs) = set xs" using mset_eq_setD [OF cs(1)] .
    have dist: "distinct (map fst (concat cs))"
      using assms(5) cs(1) by (metis mset_eq_imp_distinct_iff mset_map)
    have it: "the_item ?v = the_item v" by (simp add: the_item_def fun_eq_iff)
    have "run_batches ?upd ?v cs =
        ((?v\<lparr> upd_optimizer := update_count (upd_optimizer ?v) (map fst (concat cs)),
           upd_states := store_states (map ref (concat cs)) (upd_states ?v) \<rparr>,
          map ref (concat cs)), Inr ())"
      by (rule run_batches_SGD [OF _ _ _ dist cs(2)])
        (unfold sets ref_def it, use assms(1,2) ok [of b] in \<open>simp_all add: vo\<close>)
    then show ?thesis by (simp add: vo)
  qed
  have 1: "Updater_call SGD_create_state_multi_precision ?upd (u\<lparr> aggregate_updates := True \<rparr>) xs =
      run_batches ?upd (v\<lparr> aggregate_updates := True \<rparr>) bs"
    using assms(3) by (simp add: Updater_call_def ensure_flag v_def bs_def batches_def n_def Let_def)
  have 2: "Updater_call SGD_create_state_multi_precision ?upd (u\<lparr> aggregate_updates := False \<rparr>) xs =
      run_batches ?upd (v\<lparr> aggregate_updates := False \<rparr>) (map (\<lambda>x. [x]) xs)"
    by (simp add: Updater_call_def ensure_flag v_def Let_def)
  have c2: "concat (map (\<lambda>x. [x]) xs) = xs" by (induction xs) simp_all
  have R: "mset (map ref (concat bs)) = mset (map ref xs)" using mb by (metis mset_map)
  have idx: "map it_index (map ref xs) = map fst xs" by (simp add: ref_def)
  have "distinct (map it_index (map ref (concat bs)))"
    using assms(5) R idx by (metis mset_eq_imp_distinct_iff mset_map)
  then have "store_states (map ref (concat bs)) (upd_states v) = store_states (map ref xs) (upd_states v)"
    using store_states_perm [OF R] by simp
  moreover have "update_count ?o (map fst (concat bs)) = update_count ?o (map fst xs)"
    using mb by (intro update_count_perm) (metis mset_map)
  moreover have "\<forall>c \<in> set bs. batch_ok c" using batches_ok [OF n] by (simp add: bs_def)
  moreover have "\<forall>c \<in> set (map (\<lambda>x. [x]) xs). batch_ok c" by (auto simp: batch_ok_def max_slots_def)
  ultimately show ?thesis
    unfolding 1 2 using run [OF mb] run [of "map (\<lambda>x. [x]) xs"] R idx
    by (intro exI [of _ "v\<lparr> upd_optimizer := update_count ?o (map fst xs),
           upd_states := store_states (map ref xs) (upd_states v) \<rparr>"] exI [of _ "map ref (concat bs)"]
        exI [of _ "map ref xs"]) (simp add: c2)
qed


definition demo_sgd :: "unit sgd" where
  "demo_sgd =
     (case Optimizer_init (\<lambda>_ s. s) 1 [] 0 None (1/2) None None 0 True Map.empty of
        Inl _ \<Rightarrow> undefined | Inr b \<Rightarrow> SGD_init b (1/2) False 2)"

definition demo_params :: "(pkey \<times> tensor \<times> gradient) list" where
  "demo_params =
     [(KInt 0, \<lparr> tn_dtype = ''float32'', tn_rows = 1, tn_rowlen = 2, tn_vals = [1, 2] \<rparr>, DenseGrad [1, 1]),
      (KInt 1, \<lparr> tn_dtype = ''float16'', tn_rows = 1, tn_rowlen = 1, tn_vals = [1] \<rparr>, DenseGrad [1]),
      (KInt 2, \<lparr> tn_dtype = ''float32'', tn_rows = 2, tn_rowlen = 1, tn_vals = [1, 2] \<rparr>,
        RowSparseGrad \<lparr> rsp_idx = [1], rsp_val = [3] \<rparr>)]"

lemma demo_sgd_fields:
  "opt_scheduler demo_sgd = None" "sgd_momentum demo_sgd = 1/2" "aggregate_num demo_sgd = 2"
  by (simp_all add: demo_sgd_def Optimizer_init_def set_lr_mult_def set_wd_mult_def SGD_init_def
      optimizer.defs sgd.defs Let_def)

theorem Updater_aggregation_witness:
  "\<exists>u' R R'.
    Updater_call SGD_create_state_multi_precision (SGD_update_multi_precision (\<lambda>x. x) (\<lambda>s n. (s, Inr 0)))
      ((Updater_init demo_sgd)\<lparr> aggregate_updates := True \<rparr>) demo_params
      = ((u'\<lparr> aggregate_updates := True \<rparr>, R), Inr ())
    \<and> Updater_call SGD_create_state_multi_precision (SGD_update_multi_precision (\<lambda>x. x) (\<lambda>s n. (s, Inr 0)))
      ((Updater_init demo_sgd)\<lparr> aggregate_updates := False \<rparr>) demo_params
      = ((u'\<lparr> aggregate_updates := False \<rparr>, R'), Inr ())
    \<and> mset R = mset R' \<and> map it_index R' = [KInt 0, KInt 1, KInt 2]"
proof -
  have "map fst demo_params = [KInt 0, KInt 1, KInt 2]" by (simp add: demo_params_def)
  moreover have "\<forall>(i, w, g) \<in> set demo_params. tensor_ok w g"
    by (simp add: demo_params_def tensor_ok_def rsp_ok_def)
  ultimately show ?thesis
    using Updater_aggregation [of "Updater_init demo_sgd" demo_params "\<lambda>x. x" "\<lambda>s n. (s, Inr 0)"]
    by (auto simp: Updater_init_def demo_sgd_fields)
qed

section \<open>Saving and restoring the states\<close>

definition same_but_flags :: "('o, 'st) updater \<Rightarrow> ('o, 'st) updater \<Rightarrow> bool" where
  "same_but_flags u v \<longleftrightarrow> upd_optimizer u = upd_optimizer v \<and> upd_states u = upd_states v
     \<and> aggregate_updates u = aggregate_updates v"

lemma ensure_same: "same_but_flags u v \<Longrightarrow>
  same_but_flags (foldl (ensure_state create) u xs) (foldl (ensure_state create) v xs)"
proof (induction xs arbitrary: u v)
  case (Cons x xs)
  then have "same_but_flags (ensure_state create u x) (ensure_state create v x)"
    by (auto simp: same_but_flags_def ensure_state_def split: prod.split option.split)
  then show ?case using Cons.IH by simp
qed simp

lemma run_batches_same: "same_but_flags u v \<Longrightarrow>
  (\<exists>u' v' R r. run_batches upd u bs = ((u', R), r) \<and> run_batches upd v bs = ((v', R), r)
     \<and> same_but_flags u' v')"
proof (induction bs arbitrary: u v)
  case (Cons b bs)
  have a: "attach v = attach u" using Cons.prems by (simp add: attach_def same_but_flags_def)
  show ?case
  proof (cases "mapM (attach u) b")
    case (Inr items)
    obtain opt items' r where r: "upd (upd_optimizer u) items = ((opt, items'), r)"
      by (metis surj_pair)
    let ?n = "\<lambda>w. w\<lparr> upd_optimizer := opt, upd_states := store_states items' (upd_states w) \<rparr>"
    have r': "upd (upd_optimizer v) items = ((opt, items'), r)"
      using r Cons.prems by (simp add: same_but_flags_def)
    have n: "same_but_flags (?n u) (?n v)" using Cons.prems by (simp add: same_but_flags_def)
    obtain u' v' R q where IH: "run_batches upd (?n u) bs = ((u', R), q)"
        "run_batches upd (?n v) bs = ((v', R), q)" "same_but_flags u' v'"
      using Cons.IH [OF n] by blast
    show ?thesis
    proof (cases r)
      case (Inl e)
      then show ?thesis using n
        by (simp add: \<open>mapM (attach u) b = Inr items\<close> a r r' Let_def)
    next
      case (Inr x)
      then show ?thesis using IH
        by (simp add: \<open>mapM (attach u) b = Inr items\<close> a r r' Let_def)
    qed
  qed (use Cons.prems a in auto)
qed auto



end
