(* ===== verification/Optimizers.thy ===== *)
theory Optimizers
  imports Optimizer_Kernels Optimizer_Base
begin

text \<open>
  The other optimizers of \<open>python/mxnet/optimizer/optimizer.py\<close>: a record per class that extends the
  base class, \<open>create_state\<close> and \<open>update\<close>.

  \<open>update\<close> works on one parameter.  It returns the optimizer, the weight, the gradient array (some
  operators overwrite it) and the state after the call.  Arrays are the lists of their elements, all
  dense; division of array elements by zero, which gives infinities in the code, is outside the
  model.  Division of Python floats by zero raises.
\<close>

section \<open>What the classes share\<close>

type_synonym 's call = "'s \<Rightarrow> int \<Rightarrow> ('s, real) outcome"

type_synonym ('o, 'st) update_result = "('o \<times> real list \<times> real list \<times> 'st, unit) outcome"

text \<open>\<open>self._update_count(index)\<close>, \<open>lr = self._get_lr(index)\<close>, \<open>wd = self._get_wd(index)\<close>.\<close>

definition with_rates ::
  "'s call \<Rightarrow> ('s, 'z) optimizer_scheme \<Rightarrow> pkey \<Rightarrow> real list \<times> real list \<times> 'st \<Rightarrow>
   (('s, 'z) optimizer_scheme \<Rightarrow> real \<Rightarrow> real \<Rightarrow> (('s, 'z) optimizer_scheme, 'st) update_result) \<Rightarrow>
   (('s, 'z) optimizer_scheme, 'st) update_result" where
  "with_rates call opt index arrays body =
     (case get_lr call (update_count opt [index]) index of
        (opt, Inl e) \<Rightarrow> ((opt, arrays), Inl e)
      | (opt, Inr lr) \<Rightarrow> body opt lr (get_wd opt index))"

text \<open>\<open>self._index_update_count[index]\<close>, which \<open>_update_count\<close> has entered.\<close>

definition count_of :: "('s, 'z) optimizer_scheme \<Rightarrow> pkey \<Rightarrow> int" where
  "count_of opt index = (case index_update_count opt index of None \<Rightarrow> 0 | Some t \<Rightarrow> t)"

text \<open>\<open>clip(grad, -c, c)\<close> where a clipping bound is given.\<close>

definition clip_nd :: "('s, 'z) optimizer_scheme \<Rightarrow> real list \<Rightarrow> real list" where
  "clip_nd opt grad =
     (case clip_gradient opt of None \<Rightarrow> grad | Some c \<Rightarrow> map (\<lambda>x. clip_map x c) grad)"

definition rescaled :: "('s, 'z) optimizer_scheme \<Rightarrow> real list \<Rightarrow> real list" where
  "rescaled opt grad = map (\<lambda>g. g * rescale_grad opt) grad"

definition py_div :: "real \<Rightarrow> real \<Rightarrow> real result" where
  "py_div x y = (if y = 0 then Inl ZeroDivisionError else Inr (x / y))"

definition zeros :: "real list \<Rightarrow> real list" where
  "zeros w = replicate (length w) 0"

text \<open>
  Mixed precision in the base class: a half precision weight gets a master copy, which is updated in
  its place with a converted copy of the gradient and then rounded (\<open>rnd\<close>) into the weight.
\<close>

datatype 'st mp_state = OwnState 'st | MasterState "real list" 'st

definition create_state_multi_precision ::
  "(real list \<Rightarrow> 'st) \<Rightarrow> ('s, 'z) optimizer_scheme \<Rightarrow> string \<Rightarrow> real list \<Rightarrow> 'st mp_state" where
  "create_state_multi_precision create opt dtype weight =
     (if multi_precision opt \<and> dtype = ''float16'' then MasterState weight (create weight)
      else OwnState (create weight))"

definition update_multi_precision ::
  "(real \<Rightarrow> real) \<Rightarrow>
   (('s, 'z) optimizer_scheme \<Rightarrow> pkey \<Rightarrow> real list \<Rightarrow> real list \<Rightarrow> 'st \<Rightarrow>
     (('s, 'z) optimizer_scheme, 'st) update_result) \<Rightarrow>
   ('s, 'z) optimizer_scheme \<Rightarrow> pkey \<Rightarrow> string \<Rightarrow> real list \<Rightarrow> real list \<Rightarrow> 'st mp_state \<Rightarrow>
   (('s, 'z) optimizer_scheme, 'st mp_state) update_result" where
  "update_multi_precision rnd update opt index dtype weight grad state =
     (if multi_precision opt \<and> dtype = ''float16''
      then (case state of
              OwnState _ \<Rightarrow> ((opt, weight, grad, state), Inl TypeError)
            | MasterState master st \<Rightarrow>
                (case update opt index master grad st of
                   ((opt, master', _, st'), Inl e) \<Rightarrow>
                     ((opt, weight, grad, MasterState master' st'), Inl e)
                 | ((opt, master', _, st'), Inr _) \<Rightarrow>
                     ((opt, map rnd master', grad, MasterState master' st'), Inr ())))
      else (case state of
              MasterState _ _ \<Rightarrow> ((opt, weight, grad, state), Inl TypeError)
            | OwnState st \<Rightarrow>
                (case update opt index weight grad st of
                   ((opt, w, g, st'), r) \<Rightarrow> ((opt, w, g, OwnState st'), r))))"

section \<open>Signum\<close>

record 's signum = "'s optimizer" +
  sg_momentum :: real
  wd_lh :: real

definition Signum_init :: "'s optimizer \<Rightarrow> real \<Rightarrow> real \<Rightarrow> 's signum" where
  "Signum_init base momentum wdlh = optimizer.extend base (signum.fields momentum wdlh)"

definition Signum_create_state :: "'s signum \<Rightarrow> real list \<Rightarrow> real list option" where
  "Signum_create_state opt weight = (if sg_momentum opt \<noteq> 0 then Some (zeros weight) else None)"

text \<open>\<open>signsgd_update\<close> has no parameter \<open>wd_lh\<close>; passing it is an error of the operator.\<close>

definition Signum_update ::
  "'s call \<Rightarrow> 's signum \<Rightarrow> pkey \<Rightarrow> real list \<Rightarrow> real list \<Rightarrow> real list option \<Rightarrow>
   ('s signum, real list option) update_result" where
  "Signum_update call opt index weight grad state =
     with_rates call opt index (weight, grad, state) (\<lambda>opt lr wd.
       case state of
         Some mom \<Rightarrow>
           (let r = map (\<lambda>(w, g, m). signum_kernel (clip_arg opt)
                            (if sg_momentum opt > 0 then sg_momentum opt else 0) lr wd
                            (rescale_grad opt) (wd_lh opt) w g m) (zip weight (zip grad mom))
            in ((opt, map fst r, grad, Some (map snd r)), Inr ()))
       | None \<Rightarrow>
           (if wd_lh opt \<noteq> 0 \<or> sg_momentum opt > 0
            then ((opt, weight, grad, state), Inl MXNetError)
            else ((opt, map2 (signsgd_kernel lr wd) weight grad, grad, None), Inr ())))"

section \<open>FTML\<close>

record 's ftml = "'s optimizer" +
  ftml_beta1 :: real
  ftml_beta2 :: real
  ftml_epsilon :: real

definition FTML_init :: "'s optimizer \<Rightarrow> real \<Rightarrow> real \<Rightarrow> real \<Rightarrow> 's ftml" where
  "FTML_init base beta1 beta2 epsilon = optimizer.extend base (ftml.fields beta1 beta2 epsilon)"

definition FTML_create_state :: "real list \<Rightarrow> real list \<times> real list \<times> real list" where
  "FTML_create_state weight = (zeros weight, zeros weight, zeros weight)"

definition FTML_update ::
  "'s call \<Rightarrow> 's ftml \<Rightarrow> pkey \<Rightarrow> real list \<Rightarrow> real list \<Rightarrow> real list \<times> real list \<times> real list \<Rightarrow>
   ('s ftml, real list \<times> real list \<times> real list) update_result" where
  "FTML_update call opt index weight grad state =
     with_rates call opt index (weight, grad, state) (\<lambda>opt lr wd.
       let t = nat (count_of opt index); (d, v, z) = state;
           r = map (\<lambda>(w, g, d, v, z). ftml_kernel (clip_arg opt) lr wd (rescale_grad opt)
                      (ftml_beta1 opt) (ftml_beta2 opt) (ftml_epsilon opt) t w g d v z)
                 (zip weight (zip grad (zip d (zip v z))))
       in ((opt, map fst r, grad,
            (map (fst \<circ> snd) r, map (fst \<circ> snd \<circ> snd) r, map (snd \<circ> snd \<circ> snd) r)), Inr ()))"

section \<open>DCASGD\<close>

record 's dcasgd = "'s optimizer" +
  dc_momentum :: real
  dc_lamda :: real

definition DCASGD_init :: "'s optimizer \<Rightarrow> real \<Rightarrow> real \<Rightarrow> 's dcasgd" where
  "DCASGD_init base momentum lamda = optimizer.extend base (dcasgd.fields momentum lamda)"

definition DCASGD_create_state :: "'s dcasgd \<Rightarrow> real list \<Rightarrow> real list option \<times> real list" where
  "DCASGD_create_state opt weight =
     (if dc_momentum opt = 0 then (None, weight) else (Some (zeros weight), weight))"

text \<open>\<open>NDArray.__bool__\<close>.\<close>

definition nd_bool :: "real list \<Rightarrow> bool result" where
  "nd_bool a =
     (if length a = 0 then Inr False
      else if length a = 1 then Inr (hd a \<noteq> 0)
      else Inl ValueError)"

definition DCASGD_update ::
  "'s call \<Rightarrow> 's dcasgd \<Rightarrow> pkey \<Rightarrow> real list \<Rightarrow> real list \<Rightarrow> real list option \<times> real list \<Rightarrow>
   ('s dcasgd, real list option \<times> real list) update_result" where
  "DCASGD_update call opt index weight grad state =
     with_rates call opt index (weight, grad, state) (\<lambda>opt lr wd.
       let g = clip_nd opt (rescaled opt grad); (mom, prev) = state;
           step = map (\<lambda>(g, w, p). - lr * (g + wd * w + dc_lamda opt * g * g * (w - p)))
                    (zip g (zip weight prev))
       in case (case mom of None \<Rightarrow> Inr False | Some m \<Rightarrow> nd_bool m) of
            Inl e \<Rightarrow> ((opt, weight, grad, state), Inl e)
          | Inr True \<Rightarrow>
              (let m' = map2 (\<lambda>m s. m * dc_momentum opt + s) (the mom) step
               in ((opt, map2 (+) weight m', grad, (Some m', weight)), Inr ()))
          | Inr False \<Rightarrow>
              (if dc_momentum opt \<noteq> 0 then ((opt, weight, grad, state), Inl AssertionError)
               else ((opt, map2 (+) weight step, grad, (mom, weight)), Inr ())))"

section \<open>NAG and SGLD\<close>

record 's nag = "'s optimizer" +
  nag_momentum :: real

definition NAG_init :: "'s optimizer \<Rightarrow> real \<Rightarrow> 's nag" where
  "NAG_init base momentum = optimizer.extend base (nag.fields momentum)"

definition NAG_create_state :: "'s nag \<Rightarrow> real list \<Rightarrow> real list option" where
  "NAG_create_state opt weight = (if nag_momentum opt \<noteq> 0 then Some (zeros weight) else None)"

definition NAG_update ::
  "'s call \<Rightarrow> 's nag \<Rightarrow> pkey \<Rightarrow> real list \<Rightarrow> real list \<Rightarrow> real list option \<Rightarrow>
   ('s nag, real list option) update_result" where
  "NAG_update call opt index weight grad state =
     with_rates call opt index (weight, grad, state) (\<lambda>opt lr wd.
       let g = clip_nd opt (rescaled opt grad)
       in case state of
            Some mom \<Rightarrow>
              (let mom = map (\<lambda>m. m * nag_momentum opt) mom;
                   mom = map2 (+) mom g;
                   mom = map2 (\<lambda>m w. m + wd * w) mom weight;
                   g = map2 (\<lambda>g m. g + nag_momentum opt * m) g mom
               in ((opt, map2 (\<lambda>w g. w - lr * g) weight g, grad, Some mom), Inr ()))
          | None \<Rightarrow>
              (if nag_momentum opt \<noteq> 0 then ((opt, weight, grad, state), Inl AssertionError)
               else ((opt, map2 (\<lambda>w g. w + - lr * (g + wd * w)) weight g, grad, None), Inr ())))"

text \<open>SGLD adds normal noise, the list \<open>noise\<close> scaled by the standard deviation.\<close>

definition SGLD_update ::
  "'s call \<Rightarrow> real list \<Rightarrow> 's optimizer \<Rightarrow> pkey \<Rightarrow> real list \<Rightarrow> real list \<Rightarrow> unit \<Rightarrow>
   ('s optimizer, unit) update_result" where
  "SGLD_update call noise opt index weight grad state =
     with_rates call opt index (weight, grad, state) (\<lambda>opt lr wd.
       let g = clip_nd opt (rescaled opt grad);
           w = map2 (\<lambda>w g. w + - lr / 2 * (g + wd * w)) weight g
       in if lr < 0 then ((opt, w, grad, state), Inl ValueError)
          else ((opt, map2 (\<lambda>w z. w + sqrt lr * z) w noise, grad, state), Inr ()))"

section \<open>Adam\<close>

record 's adam = "'s optimizer" +
  ad_beta1 :: real
  ad_beta2 :: real
  ad_epsilon :: real

definition Adam_init :: "'s optimizer \<Rightarrow> real \<Rightarrow> real \<Rightarrow> real \<Rightarrow> 's adam" where
  "Adam_init base beta1 beta2 epsilon = optimizer.extend base (adam.fields beta1 beta2 epsilon)"

definition Adam_create_state :: "real list \<Rightarrow> real list \<times> real list" where
  "Adam_create_state weight = (zeros weight, zeros weight)"

text \<open>The bias correction of the learning rate.\<close>

definition adam_lr :: "real \<Rightarrow> real \<Rightarrow> real \<Rightarrow> int \<Rightarrow> real result" where
  "adam_lr beta1 beta2 lr t =
     rbind (py_pow beta1 t) (\<lambda>p1. rbind (py_pow beta2 t) (\<lambda>p2.
       if 1 - p2 < 0 then Inl ValueError
       else rbind (py_div (sqrt (1 - p2)) (1 - p1)) (\<lambda>q. Inr (lr * q))))"

definition Adam_update ::
  "'s call \<Rightarrow> 's adam \<Rightarrow> pkey \<Rightarrow> real list \<Rightarrow> real list \<Rightarrow> real list \<times> real list \<Rightarrow>
   ('s adam, real list \<times> real list) update_result" where
  "Adam_update call opt index weight grad state =
     with_rates call opt index (weight, grad, state) (\<lambda>opt lr wd.
       case adam_lr (ad_beta1 opt) (ad_beta2 opt) lr (count_of opt index) of
         Inl e \<Rightarrow> ((opt, weight, grad, state), Inl e)
       | Inr lr \<Rightarrow>
           (let r = map (\<lambda>(w, g, m, v). adam_kernel (clip_arg opt) lr wd (rescale_grad opt)
                           (ad_beta1 opt) (ad_beta2 opt) (ad_epsilon opt) w g m v)
                      (zip weight (zip grad (zip (fst state) (snd state))))
            in ((opt, map fst r, map (fst \<circ> snd) r,
                 (map (fst \<circ> snd \<circ> snd) r, map (snd \<circ> snd \<circ> snd) r)), Inr ())))"

section \<open>AdaGrad\<close>

record 's adagrad = "'s optimizer" +
  float_stable_eps :: real

definition AdaGrad_init :: "'s optimizer \<Rightarrow> real \<Rightarrow> 's adagrad" where
  "AdaGrad_init base eps = optimizer.extend base (adagrad.fields eps)"

definition AdaGrad_create_state :: "real list \<Rightarrow> real list" where
  "AdaGrad_create_state weight = zeros weight"

definition AdaGrad_update ::
  "'s call \<Rightarrow> 's adagrad \<Rightarrow> pkey \<Rightarrow> real list \<Rightarrow> real list \<Rightarrow> real list \<Rightarrow>
   ('s adagrad, real list) update_result" where
  "AdaGrad_update call opt index weight grad history =
     with_rates call opt index (weight, grad, history) (\<lambda>opt lr wd.
       let g = clip_nd opt (rescaled opt grad);
           history = map2 (\<lambda>h g. h + g\<^sup>2) history g;
           quot = map2 (\<lambda>g h. g / sqrt (h + float_stable_eps opt)) g history
       in ((opt, map2 (\<lambda>w d. w + (d + w * wd) * - lr) weight quot, grad, history), Inr ()))"

section \<open>RMSProp\<close>

record 's rmsprop = "'s optimizer" +
  gamma1 :: real
  gamma2 :: real
  rms_epsilon :: real
  centered :: bool
  clip_weights :: "real option"

definition RMSProp_init :: "'s optimizer \<Rightarrow> real \<Rightarrow> real \<Rightarrow> real \<Rightarrow> bool \<Rightarrow> real option \<Rightarrow> 's rmsprop" where
  "RMSProp_init base g1 g2 epsilon cent clipw =
     optimizer.extend base (rmsprop.fields g1 g2 epsilon cent clipw)"

datatype rms_state = Plain "real list" | Centered "real list" "real list" "real list"

definition RMSProp_create_state :: "'s rmsprop \<Rightarrow> real list \<Rightarrow> rms_state" where
  "RMSProp_create_state opt weight =
     (if centered opt then Centered (zeros weight) (zeros weight) (zeros weight) else Plain (zeros weight))"

definition clip_weights_arg :: "'s rmsprop \<Rightarrow> real" where
  "clip_weights_arg opt = (case clip_weights opt of None \<Rightarrow> -1 | Some c \<Rightarrow> if c = 0 then -1 else c)"

definition RMSProp_update ::
  "'s call \<Rightarrow> 's rmsprop \<Rightarrow> pkey \<Rightarrow> real list \<Rightarrow> real list \<Rightarrow> rms_state \<Rightarrow> ('s rmsprop, rms_state) update_result"
where
  "RMSProp_update call opt index weight grad state =
     with_rates call opt index (weight, grad, state) (\<lambda>opt lr wd.
       case (centered opt, state) of
         (False, Plain n) \<Rightarrow>
           (let r = map (\<lambda>(w, g, n). rmsprop_kernel (clip_arg opt) (clip_weights_arg opt) lr wd
                            (rescale_grad opt) (gamma1 opt) (rms_epsilon opt) w g n)
                      (zip weight (zip grad n))
            in ((opt, map fst r, map (fst \<circ> snd) r, Plain (map (snd \<circ> snd) r)), Inr ()))
       | (True, Centered n g delta) \<Rightarrow>
           (let r = map (\<lambda>(w, gr, n, g, d). rmspropalex_kernel (clip_arg opt) (clip_weights_arg opt) lr
                            wd (rescale_grad opt) (gamma1 opt) (gamma2 opt) (rms_epsilon opt) w gr n g d)
                      (zip weight (zip grad (zip n (zip g delta))))
            in ((opt, map fst r, map (fst \<circ> snd) r,
                 Centered (map (fst \<circ> snd \<circ> snd) r) (map (fst \<circ> snd \<circ> snd \<circ> snd) r)
                   (map (snd \<circ> snd \<circ> snd \<circ> snd) r)), Inr ()))
       | _ \<Rightarrow> ((opt, weight, grad, state), Inl ValueError))"

section \<open>AdaDelta\<close>

record 's adadelta = "'s optimizer" +
  ada_rho :: real
  ada_epsilon :: real

definition AdaDelta_init :: "'s optimizer \<Rightarrow> real \<Rightarrow> real \<Rightarrow> 's adadelta" where
  "AdaDelta_init base rho epsilon = optimizer.extend base (adadelta.fields rho epsilon)"

definition AdaDelta_create_state :: "real list \<Rightarrow> real list \<times> real list" where
  "AdaDelta_create_state weight = (zeros weight, zeros weight)"

text \<open>The gradient is rescaled in place; the learning rate is not used.\<close>

definition AdaDelta_update ::
  "'s adadelta \<Rightarrow> pkey \<Rightarrow> real list \<Rightarrow> real list \<Rightarrow> real list \<times> real list \<Rightarrow>
   ('s adadelta, real list \<times> real list) update_result" where
  "AdaDelta_update opt index weight grad state =
     (let wd = get_wd opt index;
          opt = update_count opt [index];
          grad = rescaled opt grad;
          g = clip_nd opt grad;
          rho = ada_rho opt;
          acc_g = map2 (\<lambda>a g. a * rho + (1 - rho) * g * g) (fst state) g;
          delta = map (\<lambda>(d, a, g). sqrt (d + ada_epsilon opt) / sqrt (a + ada_epsilon opt) * g)
                    (zip (snd state) (zip acc_g g));
          acc_delta = map2 (\<lambda>a d. a * rho + (1 - rho) * d * d) (snd state) delta
      in ((opt, map2 (\<lambda>w d. w - (d + wd * w)) weight delta, grad, (acc_g, acc_delta)), Inr ()))"

section \<open>Ftrl, Adamax and Nadam\<close>

record 's ftrl = "'s optimizer" +
  ftrl_lamda1 :: real
  ftrl_beta :: real

text \<open>The rate is assigned after the base class was initialised without it.\<close>

definition Ftrl_init :: "'s optimizer \<Rightarrow> real \<Rightarrow> real \<Rightarrow> real \<Rightarrow> 's ftrl" where
  "Ftrl_init base lamda1 lr beta =
     optimizer.extend (base\<lparr> opt_lr := lr \<rparr>) (ftrl.fields lamda1 beta)"

definition Ftrl_create_state :: "real list \<Rightarrow> real list \<times> real list" where
  "Ftrl_create_state weight = (zeros weight, zeros weight)"

definition Ftrl_update ::
  "'s call \<Rightarrow> 's ftrl \<Rightarrow> pkey \<Rightarrow> real list \<Rightarrow> real list \<Rightarrow> real list \<times> real list \<Rightarrow>
   ('s ftrl, real list \<times> real list) update_result" where
  "Ftrl_update call opt index weight grad state =
     with_rates call opt index (weight, grad, state) (\<lambda>opt lr wd.
       let r = map (\<lambda>(w, g, z, n). ftrl_kernel (clip_arg opt) lr wd (rescale_grad opt)
                       (ftrl_lamda1 opt) (ftrl_beta opt) w g z n)
                 (zip weight (zip grad (zip (fst state) (snd state))))
       in ((opt, map fst r, map (fst \<circ> snd) r,
            (map (fst \<circ> snd \<circ> snd) r, map (snd \<circ> snd \<circ> snd) r)), Inr ()))"

record 's adamax = "'s optimizer" +
  amax_beta1 :: real
  amax_beta2 :: real

definition Adamax_init :: "'s optimizer \<Rightarrow> real \<Rightarrow> real \<Rightarrow> 's adamax" where
  "Adamax_init base beta1 beta2 = optimizer.extend base (adamax.fields beta1 beta2)"

text \<open>\<open>grad * rescale_grad + wd * weight\<close>, clipped.\<close>

definition decayed_grad :: "('s, 'z) optimizer_scheme \<Rightarrow> real \<Rightarrow> real list \<Rightarrow> real list \<Rightarrow> real list" where
  "decayed_grad opt wd weight grad =
     clip_nd opt (map2 (\<lambda>g w. g + wd * w) (rescaled opt grad) weight)"

definition Adamax_create_state :: "real list \<Rightarrow> real list \<times> real list" where
  "Adamax_create_state weight = (zeros weight, zeros weight)"

definition Adamax_update ::
  "'s call \<Rightarrow> 's adamax \<Rightarrow> pkey \<Rightarrow> real list \<Rightarrow> real list \<Rightarrow> real list \<times> real list \<Rightarrow>
   ('s adamax, real list \<times> real list) update_result" where
  "Adamax_update call opt index weight grad state =
     with_rates call opt index (weight, grad, state) (\<lambda>opt lr wd.
       case rbind (py_pow (amax_beta1 opt) (count_of opt index)) (\<lambda>p. py_div lr (1 - p)) of
         Inl e \<Rightarrow> ((opt, weight, grad, state), Inl e)
       | Inr lr \<Rightarrow>
           (let g = decayed_grad opt wd weight grad;
                m = map2 (\<lambda>m g. m * amax_beta1 opt + (1 - amax_beta1 opt) * g) (fst state) g;
                u = map2 (\<lambda>u g. max (amax_beta2 opt * u) \<bar>g\<bar>) (snd state) g
            in ((opt, map (\<lambda>(w, m, u). w - lr * m / u) (zip weight (zip m u)), grad, (m, u)), Inr ())))"

record 's nadam = "'s optimizer" +
  nd_beta1 :: real
  nd_beta2 :: real
  nd_epsilon :: real
  schedule_decay :: real
  m_schedule :: real

definition Nadam_init :: "'s optimizer \<Rightarrow> real \<Rightarrow> real \<Rightarrow> real \<Rightarrow> real \<Rightarrow> 's nadam" where
  "Nadam_init base beta1 beta2 epsilon decay =
     optimizer.extend base (nadam.fields beta1 beta2 epsilon decay 1)"

definition nadam_momentum :: "'s nadam \<Rightarrow> int \<Rightarrow> real" where
  "nadam_momentum opt t =
     nd_beta1 opt * (1 - 1/2 * ((96/100) powr (real_of_int t * schedule_decay opt)))"

definition Nadam_create_state :: "real list \<Rightarrow> real list \<times> real list" where
  "Nadam_create_state weight = (zeros weight, zeros weight)"

definition Nadam_update ::
  "'s call \<Rightarrow> 's nadam \<Rightarrow> pkey \<Rightarrow> real list \<Rightarrow> real list \<Rightarrow> real list \<times> real list \<Rightarrow>
   ('s nadam, real list \<times> real list) update_result" where
  "Nadam_update call opt index weight grad state =
     with_rates call opt index (weight, grad, state) (\<lambda>opt lr wd.
       let t = count_of opt index;
           g = decayed_grad opt wd weight grad;
           momentum_t = nadam_momentum opt t;
           momentum_t_1 = nadam_momentum opt (t + 1);
           opt = opt\<lparr> m_schedule := m_schedule opt * momentum_t \<rparr>;
           m_schedule_next = m_schedule opt * momentum_t_1;
           m = map2 (\<lambda>m g. m * nd_beta1 opt + (1 - nd_beta1 opt) * g) (fst state) g;
           v = map2 (\<lambda>v g. v * nd_beta2 opt + (1 - nd_beta2 opt) * g * g) (snd state) g
       in case py_pow (nd_beta2 opt) t of
            Inl e \<Rightarrow> ((opt, weight, grad, (m, v)), Inl e)
          | Inr p2 \<Rightarrow>
              ((opt,
                map (\<lambda>(w, g, m, v).
                       let grad_prime = g / (1 - m_schedule opt);
                           m_prime = m / (1 - m_schedule_next);
                           v_prime = v / (1 - p2);
                           m_bar = (1 - momentum_t) * grad_prime + momentum_t_1 * m_prime
                       in w - lr * m_bar / (sqrt v_prime + nd_epsilon opt))
                  (zip weight (zip g (zip m v))),
                grad, (m, v)), Inr ()))"

section \<open>Test\<close>

definition Test_create_state :: "real list \<Rightarrow> real list" where
  "Test_create_state weight = zeros weight"

definition Test_update ::
  "'s optimizer \<Rightarrow> pkey \<Rightarrow> real list \<Rightarrow> real list \<Rightarrow> real list \<Rightarrow> ('s optimizer, real list) update_result"
where
  "Test_update opt index weight grad state =
     (let w = map2 (\<lambda>w g. w + g * rescale_grad opt) weight grad in ((opt, w, grad, w), Inr ()))"

section \<open>LBSGD\<close>

text \<open>
  The large batch optimizer accumulates gradients per index.  The first gradient of an index is kept
  by reference, so the model passes gradients as addresses into the heap \<open>h\<close> of gradient arrays as it
  is at the call; sums are arrays of their own and the reset value is the number zero.
\<close>

datatype cum_grad = CumZero | CumRef nat | CumVal "real list"

record 's lbsgd = "'s optimizer" +
  lb_momentum :: real
  warmup_strategy :: string
  warmup_epochs :: int
  batch_scale :: int
  updates_per_epoch :: int
  init_updates :: int
  cumgrads :: "pkey \<Rightarrow> (cum_grad \<times> int) option"

datatype lb_state = LBNone | LBMom "real list" | LBMaster "real list option" "real list"

definition LBSGD_init ::
  "'s optimizer \<Rightarrow> real \<Rightarrow> bool \<Rightarrow> string \<Rightarrow> int \<Rightarrow> int \<Rightarrow> int \<Rightarrow> int \<Rightarrow> 's lbsgd" where
  "LBSGD_init base momentum mp strategy epochs scale upe begin_epoch =
     optimizer.extend (base\<lparr> multi_precision := mp \<rparr>)
       (lbsgd.fields momentum strategy epochs scale upe (begin_epoch * upe) Map.empty)"

definition LBSGD_create_state :: "'s lbsgd \<Rightarrow> string \<Rightarrow> real list \<Rightarrow> lb_state" where
  "LBSGD_create_state opt dtype weight =
     (let momentum = (if lb_momentum opt \<noteq> 0 then Some (zeros weight) else None)
      in if multi_precision opt \<and> dtype = ''float16'' then LBMaster momentum weight
         else (case momentum of None \<Rightarrow> LBNone | Some m \<Rightarrow> LBMom m))"

definition get_lbmult :: "'s lbsgd \<Rightarrow> int \<Rightarrow> real result" where
  "get_lbmult opt nup =
     (let nwup = warmup_epochs opt * updates_per_epoch opt;
          maxmult = real_of_int (batch_scale opt)
      in if nup \<ge> nwup then Inr maxmult
         else if nwup \<le> 1 then Inr 1
         else if warmup_strategy opt = ''linear''
         then Inr (1 + (maxmult - 1) * real_of_int nup / real_of_int nwup)
         else if warmup_strategy opt = ''power2''
         then Inr (1 + (maxmult - 1) * real_of_int (nup * nup) / real_of_int (nwup * nwup))
         else if warmup_strategy opt = ''sqrt''
         then (if nup < 0 then Inl ValueError
               else Inr (1 + (maxmult - 1) * sqrt (real_of_int nup / real_of_int nwup)))
         else Inr 1)"

definition l2norm :: "real list \<Rightarrow> real" where
  "l2norm v = sum_list (map (\<lambda>x. x * x) v)"

definition get_lars :: "real list \<Rightarrow> real list \<Rightarrow> real \<Rightarrow> real result" where
  "get_lars weight g wd =
     (let weight2 = l2norm weight; grad2 = l2norm g
      in rbind (py_div weight2 (grad2 + wd * weight2 + 1 / 10 ^ 18)) (\<lambda>q.
           if q < 0 then Inl ValueError
           else let lars = sqrt q
                in Inr (if lars < 1/100 then 1/100 else if lars > 100 then 100 else lars)))"

definition cum_value :: "(nat \<Rightarrow> real list) \<Rightarrow> nat \<Rightarrow> cum_grad \<Rightarrow> real list" where
  "cum_value h n c = (case c of CumZero \<Rightarrow> replicate n 0 | CumRef a \<Rightarrow> h a | CumVal v \<Rightarrow> v)"

definition cumulate_gradient :: "(nat \<Rightarrow> real list) \<Rightarrow> 's lbsgd \<Rightarrow> nat \<Rightarrow> pkey \<Rightarrow> 's lbsgd \<times> cum_grad \<times> int" where
  "cumulate_gradient h opt grad index =
     (let cgrad = (case cumgrads opt index of
                     Some (cum, num_cums) \<Rightarrow>
                       (if num_cums > 0
                        then (CumVal (map2 (+) (cum_value h (length (h grad)) cum) (h grad)), num_cums + 1)
                        else (CumRef grad, init_updates opt + 1))
                   | None \<Rightarrow> (CumRef grad, init_updates opt + 1))
      in (opt\<lparr> cumgrads := (cumgrads opt)(index \<mapsto> cgrad) \<rparr>, cgrad))"

definition reset_cum_gradient :: "'s lbsgd \<Rightarrow> pkey \<Rightarrow> 's lbsgd" where
  "reset_cum_gradient opt index =
     (case cumgrads opt index of
        None \<Rightarrow> opt
      | Some (_, n) \<Rightarrow> opt\<lparr> cumgrads := (cumgrads opt)(index \<mapsto> (CumZero, n)) \<rparr>)"

text \<open>The SGD operator for the state; \<open>rnd\<close> rounds a master copy.\<close>

definition lb_sgd ::
  "(real \<Rightarrow> real) \<Rightarrow> 's lbsgd \<Rightarrow> real \<Rightarrow> real \<Rightarrow> real list \<Rightarrow> real list \<Rightarrow> lb_state \<Rightarrow> real list \<times> lb_state" where
  "lb_sgd rnd opt lr wd weight g state =
     (let c = clip_arg opt; mu = (if lb_momentum opt > 0 then lb_momentum opt else 0); rs = rescale_grad opt
      in case state of
           LBNone \<Rightarrow> (sgd_update c lr wd rs weight g, LBNone)
         | LBMom m \<Rightarrow> (case sgd_mom_update c mu lr wd rs weight g m of (w, m') \<Rightarrow> (w, LBMom m'))
         | LBMaster None w32 \<Rightarrow>
             (case mp_sgd_update rnd c lr wd rs g w32 of (w, w') \<Rightarrow> (w, LBMaster None w'))
         | LBMaster (Some m) w32 \<Rightarrow>
             (case mp_sgd_mom_update rnd c mu lr wd rs g m w32 of
                (w, m', w') \<Rightarrow> (w, LBMaster (Some m') w')))"

definition LBSGD_update ::
  "(real \<Rightarrow> real) \<Rightarrow> 's call \<Rightarrow> (nat \<Rightarrow> real list) \<Rightarrow> 's lbsgd \<Rightarrow> pkey \<Rightarrow> real list \<Rightarrow> nat \<Rightarrow> lb_state \<Rightarrow>
   ('s lbsgd \<times> real list \<times> lb_state, unit) outcome" where
  "LBSGD_update rnd call h opt index weight grad state =
     (case get_lr call opt index of
        (opt, Inl e) \<Rightarrow> ((opt, weight, state), Inl e)
      | (opt, Inr lr) \<Rightarrow>
          (let wd = get_wd opt index;
               opt = update_count opt [index];
               (opt, cum, num_cums) = cumulate_gradient h opt grad index
           in if batch_scale opt = 0 then ((opt, weight, state), Inl ZeroDivisionError)
              else if num_cums mod batch_scale opt = 0
              then (let g = map (\<lambda>x. x / real_of_int (batch_scale opt))
                              (cum_value h (length weight) cum)
                    in case (if warmup_strategy opt = ''lars'' then get_lars weight g wd
                             else get_lbmult opt num_cums) of
                         Inl e \<Rightarrow> ((opt, weight, state), Inl e)
                       | Inr lbmult \<Rightarrow>
                           (case lb_sgd rnd opt (lr * lbmult) wd weight g state of
                              (w, st) \<Rightarrow> ((reset_cum_gradient opt index, w, st), Inr ())))
              else ((opt, sgd_update (-1) 0 wd 1 weight (h grad), state), Inr ())))"

section \<open>Properties\<close>

subsection \<open>Shared lemmas\<close>

lemma with_rates_fixed:
  "opt_scheduler opt = None \<Longrightarrow>
   with_rates call opt i arrays body =
   body (update_count opt [i]) (opt_lr opt * lr_multiplier opt i) (get_wd opt i)"
  by (simp add: with_rates_def get_lr_def get_lrs_fixed)

lemma get_lr_changes: "get_lr call opt i = (opt', r) \<Longrightarrow> \<exists>s. opt' = opt\<lparr> opt_scheduler := s \<rparr>"
proof (cases "opt_scheduler opt")
  case None
  then have "opt = opt\<lparr> opt_scheduler := None \<rparr>" by (metis optimizer.surjective optimizer.update_convs(3))
  moreover assume "get_lr call opt i = (opt', r)"
  ultimately show ?thesis using None
    by (intro exI [of _ None]) (simp add: get_lr_def get_lrs_fixed)
next
  case (Some s)
  moreover assume "get_lr call opt i = (opt', r)"
  ultimately show ?thesis
    by (auto simp: get_lr_def get_lrs_def learning_rate_def sbind_def split: prod.splits sum.splits)
qed

lemma count_of_update [simp]:
  "count_of (update_count opt [i]) i =
   (case index_update_count opt i of None \<Rightarrow> begin_num_update opt | Some c \<Rightarrow> c) + 1"
  by (simp add: count_of_def update_count_def count_one_def Let_def)

lemma update_count_other:
  "j \<noteq> i \<Longrightarrow> index_update_count (update_count opt [i]) j = index_update_count opt j"
  by (simp add: update_count_def count_one_def Let_def)

lemma update_count_same:
  "index_update_count (update_count opt [i]) i =
   Some ((case index_update_count opt i of None \<Rightarrow> begin_num_update opt | Some c \<Rightarrow> c) + 1)"
  by (simp add: update_count_def count_one_def Let_def)

subsection \<open>LBSGD: one update per large batch\<close>

fun LBSGD_steps ::
  "(real \<Rightarrow> real) \<Rightarrow> 's call \<Rightarrow> pkey \<Rightarrow> 's lbsgd \<times> real list \<times> lb_state \<Rightarrow>
   ((nat \<Rightarrow> real list) \<times> nat) list \<Rightarrow> ('s lbsgd \<times> real list \<times> lb_state, unit) outcome" where
  "LBSGD_steps rnd call i s [] = (s, Inr ())"
| "LBSGD_steps rnd call i (opt, w, st) ((h, a) # calls) =
     sbind (LBSGD_update rnd call h opt i w a st) (\<lambda>s _. LBSGD_steps rnd call i s calls)"

definition lb_same :: "'s lbsgd \<Rightarrow> 's lbsgd \<Rightarrow> bool" where
  "lb_same p q \<longleftrightarrow> opt_scheduler p = opt_scheduler q \<and> opt_lr p = opt_lr q
     \<and> lr_multiplier p = lr_multiplier q \<and> get_wd p = get_wd q \<and> clip_arg p = clip_arg q
     \<and> rescale_grad p = rescale_grad q \<and> lb_momentum p = lb_momentum q
     \<and> batch_scale p = batch_scale q \<and> warmup_strategy p = warmup_strategy q
     \<and> warmup_epochs p = warmup_epochs q \<and> updates_per_epoch p = updates_per_epoch q"

definition grad_sum :: "real list \<Rightarrow> ((nat \<Rightarrow> real list) \<times> nat) list \<Rightarrow> real list" where
  "grad_sum acc calls = foldl (\<lambda>acc (h, a). map2 (+) acc (h a)) acc calls"

lemma lb_counted: "lb_same ((update_count p [i])\<lparr> cumgrads := c \<rparr>) p"
  "cumgrads (update_count p [i]) = cumgrads p" "batch_scale (update_count p [i]) = batch_scale p"
  by (simp_all add: lb_same_def update_count_def count_one_def Let_def lr_multiplier_def get_wd_def
      get_wds_def wd_multiplier_def clip_arg_def fun_eq_iff)

lemma lb_same_trans: "lb_same p q \<Longrightarrow> lb_same q r \<Longrightarrow> lb_same p r"
  by (simp add: lb_same_def)

lemma lb_sgd_same: "lb_same p q \<Longrightarrow> lb_sgd rnd p = lb_sgd rnd q"
  by (simp add: lb_sgd_def lb_same_def fun_eq_iff)

lemma get_lbmult_same: "lb_same p q \<Longrightarrow> get_lbmult p = get_lbmult q"
  by (simp add: get_lbmult_def lb_same_def fun_eq_iff Let_def)

lemma sgd_update_zero_lr: "length g = length w \<Longrightarrow> sgd_update (-1) 0 wd 1 w g = w"
  by (auto simp: sgd_update_def sgd_kernel_def intro!: nth_equalityI)

lemma LBSGD_accumulate:
  assumes "opt_scheduler opt = None" "cumgrads opt i = Some (cum, n)" "0 < n"
    and "batch_scale opt = b" "b \<noteq> 0" "(n + 1) mod b \<noteq> 0" "length (h a) = length w"
  shows "\<exists>opt'. LBSGD_update rnd call h opt i w a st = ((opt', w, st), Inr ()) \<and> lb_same opt' opt
    \<and> cumgrads opt' i = Some (CumVal (map2 (+) (cum_value h (length w) cum) (h a)), n + 1)"
  using assms lb_counted [where p = opt and i = i]
  by (simp add: LBSGD_update_def get_lr_def get_lrs_fixed cumulate_gradient_def sgd_update_zero_lr
      Let_def)

lemma LBSGD_flush:
  assumes "opt_scheduler opt = None" "cumgrads opt i = Some (cum, n)" "0 < n"
    and "batch_scale opt = b" "b \<noteq> 0" "(n + 1) mod b = 0" "length (h a) = length w"
    and "warmup_strategy opt \<noteq> ''lars''" "get_lbmult opt (n + 1) = Inr m"
    and "g = map (\<lambda>x. x / real_of_int b) (map2 (+) (cum_value h (length w) cum) (h a))"
    and "lb_sgd rnd opt (opt_lr opt * lr_multiplier opt i * m) (get_wd opt i) w g st = (w', st')"
  shows "\<exists>opt'. LBSGD_update rnd call h opt i w a st = ((opt', w', st'), Inr ()) \<and> lb_same opt' opt
    \<and> cumgrads opt' i = Some (CumZero, n + 1)"
proof -
  let ?p = "(update_count opt [i])\<lparr> cumgrads := (cumgrads opt)(i \<mapsto>
    (CumVal (map2 (+) (cum_value h (length w) cum) (h a)), n + 1)) \<rparr>"
  have s: "lb_same ?p opt" by (rule lb_counted)
  have "warmup_strategy ?p = warmup_strategy opt" "batch_scale ?p = b"
    using s assms(4) by (simp_all add: lb_same_def)
  then show ?thesis
    using assms lb_sgd_same [OF s] get_lbmult_same [OF s] s
      lb_counted(1) [where p = opt and i = i and c = "(cumgrads opt)(i \<mapsto> (CumZero, n + 1))"]
    by (simp add: LBSGD_update_def get_lr_def get_lrs_fixed cumulate_gradient_def
        reset_cum_gradient_def cum_value_def [where c = "CumVal _"] lb_counted Let_def)
qed


lemma LBSGD_steps_append:
  "LBSGD_steps rnd call i s (xs @ ys) =
   sbind (LBSGD_steps rnd call i s xs) (\<lambda>s _. LBSGD_steps rnd call i s ys)"
proof (induction xs arbitrary: s)
  case (Cons x xs)
  obtain h a opt w st where "x = (h, a)" "s = (opt, w, st)" by (metis surj_pair)
  then show ?case using Cons by (simp add: sbind_def split: prod.split sum.split)
qed simp

lemma LBSGD_accumulates:
  assumes "opt_scheduler opt = None" "cumgrads opt i = Some (cum, n)" "0 < n"
    and "batch_scale opt = b" "b \<noteq> 0" "\<forall>j \<in> {1..int (length calls)}. (n + j) mod b \<noteq> 0"
    and "\<forall>(h, a) \<in> set calls. length (h a) = length w" "\<And>h. cum_value h (length w) cum = V"
  shows "\<exists>opt' cum'. LBSGD_steps rnd call i (opt, w, st) calls = ((opt', w, st), Inr ())
    \<and> lb_same opt' opt \<and> cumgrads opt' i = Some (cum', n + int (length calls))
    \<and> (\<forall>h. cum_value h (length w) cum' = grad_sum V calls)"
  using assms
proof (induction calls arbitrary: opt cum n V)
  case Nil
  then show ?case by (auto simp: lb_same_def grad_sum_def)
next
  case (Cons x calls)
  obtain h a where x: "x = (h, a)" by (cases x)
  have "(n + 1) mod b \<noteq> 0" "length (h a) = length w" using Cons.prems(6,7) by (auto simp: x)
  from LBSGD_accumulate [where h = h and a = a and w = w and rnd = rnd and call = call and st = st,
      OF Cons.prems(1-5) this] obtain opt1 where
    1: "LBSGD_update rnd call h opt i w a st = ((opt1, w, st), Inr ())" "lb_same opt1 opt"
       "cumgrads opt1 i = Some (CumVal (map2 (+) V (h a)), n + 1)"
    using Cons.prems(8) by auto
  have "opt_scheduler opt1 = None" "batch_scale opt1 = b"
    using 1(2) Cons.prems(1,4) by (simp_all add: lb_same_def)
  moreover have "\<forall>j \<in> {1..int (length calls)}. (n + 1 + j) mod b \<noteq> 0"
  proof
    fix j assume "j \<in> {1..int (length calls)}"
    then have "j + 1 \<in> {1..int (length (x # calls))}" by auto
    from bspec [OF Cons.prems(6) this] have "(n + (j + 1)) mod b \<noteq> 0" .
    then show "(n + 1 + j) mod b \<noteq> 0" by (simp add: ac_simps)
  qed
  ultimately obtain opt' cum' where 2: "LBSGD_steps rnd call i (opt1, w, st) calls = ((opt', w, st), Inr ())"
    "lb_same opt' opt1" "cumgrads opt' i = Some (cum', n + 1 + int (length calls))"
    "\<forall>k. cum_value k (length w) cum' = grad_sum (map2 (+) V (h a)) calls"
    using Cons.IH [of opt1 "CumVal (map2 (+) V (h a))" "n + 1" "map2 (+) V (h a)"] 1(3) Cons.prems(3,5,7)
    by (auto simp: cum_value_def)
  show ?case
    using 1 2 lb_same_trans [OF 2(2) 1(2)] by (simp add: x grad_sum_def ac_simps)
qed

lemma get_lbmult_total: "0 \<le> nup \<Longrightarrow> \<exists>m. get_lbmult opt nup = Inr m"
  by (simp add: get_lbmult_def Let_def)

text \<open>C26. A large batch of LBSGD (without mixed precision warm-up \<open>lars\<close>): once the accumulated
  gradient has been reset, \<open>batch_scale\<close> calls of \<open>update\<close> leave weight and state alone until the last
  one, which performs a single SGD step with the mean of all their gradients and the learning rate
  times the warm-up factor, and resets the accumulated gradient again, ready for the next batch.\<close>

theorem LBSGD_large_batch:
  assumes "opt_scheduler opt = None" "cumgrads opt i = Some (CumZero, n)" "0 < n" "n mod b = 0"
    and "batch_scale opt = b" "0 < b" "int (length calls) = b"
    and "\<forall>(h, a) \<in> set calls. length (h a) = length w" "warmup_strategy opt \<noteq> ''lars''"
  shows "\<exists>m opt'. get_lbmult opt (n + b) = Inr m
    \<and> LBSGD_steps rnd call i (opt, w, st) calls =
        (case lb_sgd rnd opt (opt_lr opt * lr_multiplier opt i * m) (get_wd opt i) w
                (map (\<lambda>x. x / real_of_int b) (grad_sum (replicate (length w) 0) calls)) st of
           (w', st') \<Rightarrow> ((opt', w', st'), Inr ()))
    \<and> cumgrads opt' i = Some (CumZero, n + b) \<and> lb_same opt' opt
    \<and> (\<forall>k < length calls. \<exists>q. LBSGD_steps rnd call i (opt, w, st) (take k calls) = ((q, w, st), Inr ()))"
proof -
  let ?lr = "opt_lr opt * lr_multiplier opt i" and ?V = "replicate (length w) (0 :: real)"
  have part: "\<exists>q cum. LBSGD_steps rnd call i (opt, w, st) (take k calls) = ((q, w, st), Inr ())
      \<and> lb_same q opt \<and> cumgrads q i = Some (cum, n + int k)
      \<and> (\<forall>h. cum_value h (length w) cum = grad_sum ?V (take k calls))" if k: "k < length calls" for k
  proof -
    have "(n + j) mod b \<noteq> 0" if "1 \<le> j" "j \<le> int k" for j
    proof -
      have "(n + j) mod b = j mod b" using assms(4) by (metis add_0 mod_add_left_eq)
      also have "\<dots> = j" using that k assms(7) by simp
      finally show ?thesis using that by simp
    qed
    then have "\<forall>j \<in> {1..int (length (take k calls))}. (n + j) mod b \<noteq> 0" using k by simp
    moreover have "\<forall>(h, a) \<in> set (take k calls). length (h a) = length w"
      using assms(8) by (auto dest: in_set_takeD)
    ultimately show ?thesis
      using LBSGD_accumulates [OF assms(1,2,3,5), of "take k calls" w ?V rnd call st] assms(6) k
      by (simp add: cum_value_def [where c = CumZero])
  qed
  obtain ys h a where c: "calls = ys @ [(h, a)]"
    using assms(6,7) by (metis length_0_conv of_nat_0 order_less_irrefl rev_exhaust surj_pair)
  obtain m where m: "get_lbmult opt (n + b) = Inr m"
    using get_lbmult_total [of "n + b" opt] assms(3,6) by auto
  obtain w' st' where sgd: "lb_sgd rnd opt (?lr * m) (get_wd opt i) w
      (map (\<lambda>x. x / real_of_int b) (grad_sum ?V calls)) st = (w', st')" by (metis surj_pair)
  obtain q cum where q: "LBSGD_steps rnd call i (opt, w, st) ys = ((q, w, st), Inr ())" "lb_same q opt"
    "cumgrads q i = Some (cum, n + int (length ys))" "\<forall>h. cum_value h (length w) cum = grad_sum ?V ys"
    using part [of "length ys"] c by auto
  have nb: "n + int (length ys) + 1 = n + b" using assms(7) c by simp
  have g: "map (\<lambda>x. x / real_of_int b) (grad_sum ?V calls) =
      map (\<lambda>x. x / real_of_int b) (map2 (+) (cum_value h (length w) cum) (h a))"
    using q(4) by (simp add: c grad_sum_def)
  have same: "opt_scheduler q = None" "batch_scale q = b" "warmup_strategy q \<noteq> ''lars''"
    "opt_lr q * lr_multiplier q i = ?lr" "get_wd q i = get_wd opt i"
    using q(2) assms by (simp_all add: lb_same_def)
  have "\<exists>opt'. LBSGD_update rnd call h q i w a st = ((opt', w', st'), Inr ()) \<and> lb_same opt' q
      \<and> cumgrads opt' i = Some (CumZero, n + int (length ys) + 1)"
  proof (rule LBSGD_flush [OF same(1) q(3) _ same(2) _ _ _ same(3) _ refl])
    show "get_lbmult q (n + int (length ys) + 1) = Inr m"
      unfolding nb get_lbmult_same [OF q(2)] by (rule m)
    show "lb_sgd rnd q (opt_lr q * lr_multiplier q i * m) (get_wd q i) w
        (map (\<lambda>x. x / real_of_int b) (map2 (+) (cum_value h (length w) cum) (h a))) st = (w', st')"
      unfolding lb_sgd_same [OF q(2)] same(4,5) g [symmetric] by (rule sgd)
    show "(n + int (length ys) + 1) mod b = 0" unfolding nb using assms(4) by simp
  qed (use assms(3,6,8) c in auto)
  then obtain opt' where u: "LBSGD_update rnd call h q i w a st = ((opt', w', st'), Inr ())"
    "lb_same opt' q" "cumgrads opt' i = Some (CumZero, n + b)" unfolding nb by blast
  have "LBSGD_steps rnd call i (opt, w, st) calls = ((opt', w', st'), Inr ())"
    unfolding c LBSGD_steps_append by (simp add: q(1) u(1))
  moreover have "\<forall>k < length calls. \<exists>q. LBSGD_steps rnd call i (opt, w, st) (take k calls) = ((q, w, st), Inr ())"
    using part by blast
  ultimately show ?thesis
    using m sgd u(3) lb_same_trans [OF u(2) q(2)] by (intro exI [of _ m] exI [of _ opt']) simp
qed

definition demo_base :: "bool \<Rightarrow> unit optimizer" where
  "demo_base mp = \<lparr> rescale_grad = 1, opt_lr = 1/2, opt_scheduler = None, opt_wd = 0,
     lr_mult = Map.empty, wd_mult = Map.empty, begin_num_update = 0, num_update = 0,
     index_update_count = Map.empty, clip_gradient = None, multi_precision = mp, aggregate_num = 0,
     idx2name = [], sym_info = None, param_dict = Map.empty \<rparr>"

definition demo_lbsgd :: "unit lbsgd" where
  "demo_lbsgd = (LBSGD_init (demo_base False) 0 False ''linear'' 1 2 4 0)
     \<lparr> cumgrads := [KInt 0 \<mapsto> (CumZero, 2)] \<rparr>"

theorem LBSGD_large_batch_witness:
  "\<exists>m opt'. get_lbmult demo_lbsgd 4 = Inr m
    \<and> LBSGD_steps (\<lambda>x. x) (\<lambda>s n. (s, Inr 0)) (KInt 0) (demo_lbsgd, [1], LBNone)
        [(\<lambda>a. [1], 0), (\<lambda>a. [3], 0)] =
        (case lb_sgd (\<lambda>x. x) demo_lbsgd (opt_lr demo_lbsgd * lr_multiplier demo_lbsgd (KInt 0) * m)
                (get_wd demo_lbsgd (KInt 0)) [1] [2] LBNone of
           (w', st') \<Rightarrow> ((opt', w', st'), Inr ()))
    \<and> cumgrads opt' (KInt 0) = Some (CumZero, 4)"
proof -
  have d: "opt_scheduler demo_lbsgd = None" "cumgrads demo_lbsgd (KInt 0) = Some (CumZero, 2)"
    "batch_scale demo_lbsgd = 2" "warmup_strategy demo_lbsgd \<noteq> ''lars''"
    by (simp_all add: demo_lbsgd_def LBSGD_init_def demo_base_def optimizer.defs lbsgd.defs)
  show ?thesis
    using LBSGD_large_batch [of demo_lbsgd "KInt 0" 2 2 "[(\<lambda>a. [1], 0), (\<lambda>a. [3], 0)]" "[1]" "\<lambda>x. x"
        "\<lambda>s n. (s, Inr 0)" LBNone] d
    by (auto simp: grad_sum_def)
qed

text \<open>
  In the very first batch of an index the first gradient is only referenced.  When the caller reuses
  its gradient array, as the executors do, the second gradient is counted twice and the first is lost.
\<close>

lemma LBSGD_first_gradient_lost:
  assumes "opt_scheduler opt = None" "cumgrads opt i = None" "init_updates opt = 0"
    and "batch_scale opt = 2" "warmup_strategy opt \<noteq> ''lars''"
    and "length (h1 a) = length w" "length (h2 a) = length w"
  shows "\<exists>m opt'. LBSGD_steps rnd call i (opt, w, st) [(h1, a), (h2, a)] =
    (case lb_sgd rnd opt (opt_lr opt * lr_multiplier opt i * m) (get_wd opt i) w (h2 a) st of
       (w', st') \<Rightarrow> ((opt', w', st'), Inr ()))"
proof -
  let ?p = "(update_count opt [i])\<lparr> cumgrads := (cumgrads opt)(i \<mapsto> (CumRef a, 1)) \<rparr>"
  have s: "lb_same ?p opt" by (rule lb_counted)
  have 1: "LBSGD_update rnd call h1 opt i w a st = ((?p, w, st), Inr ())"
    using assms lb_counted [where p = opt and i = i]
    by (simp add: LBSGD_update_def get_lr_def get_lrs_fixed cumulate_gradient_def sgd_update_zero_lr
        update_count_def count_one_def Let_def)
  obtain m where m: "get_lbmult ?p (1 + 1) = Inr m" using get_lbmult_total [of 2 ?p] by auto
  have g: "map (\<lambda>x. x / real_of_int 2) (map2 (+) (cum_value h2 (length w) (CumRef a)) (h2 a)) = h2 a"
    by (auto simp: cum_value_def intro!: nth_equalityI)
  obtain w' st' where sgd: "lb_sgd rnd opt (opt_lr opt * lr_multiplier opt i * m) (get_wd opt i) w (h2 a) st
      = (w', st')" by (metis surj_pair)
  have "\<exists>opt'. LBSGD_update rnd call h2 ?p i w a st = ((opt', w', st'), Inr ()) \<and> lb_same opt' ?p
      \<and> cumgrads opt' i = Some (CumZero, 1 + 1)"
  proof (rule LBSGD_flush [where b = 2 and m = m, OF _ _ _ _ _ _ _ _ m g [symmetric]])
    show "lb_sgd rnd ?p (opt_lr ?p * lr_multiplier ?p i * m) (get_wd ?p i) w (h2 a) st = (w', st')"
      using sgd s lb_sgd_same [OF s] by (simp add: lb_same_def)
  qed (use assms s in \<open>simp_all add: lb_same_def\<close>)
  then obtain opt' where "LBSGD_update rnd call h2 ?p i w a st = ((opt', w', st'), Inr ())" by blast
  then show ?thesis using sgd 1 by (intro exI [of _ m] exI [of _ opt']) simp
qed

end
