(* ===== verification/Optimizer_Laws.thy ===== *)
theory Optimizer_Laws
  imports Optimizers
begin

text \<open>
  What the adaptive optimizers of \<open>Optimizers\<close> compute over a sequence of updates: the bias correction
  of Adam, the variance of centered RMSProp, the momentum schedule of Nadam, and the failure of DCASGD
  with momentum.
\<close>

section \<open>DCASGD\<close>

text \<open>DCASGD cannot be used with momentum: the first update of any parameter raises, because the
  momentum array is tested as a truth value.  An array of two or more elements raises
  \<open>ValueError\<close>; a smaller one is zero at first, so the assertion of the other branch fails.  Weight and
  state are unchanged.\<close>

theorem DCASGD_momentum_fails:
  assumes "opt_scheduler opt = None" "dc_momentum opt \<noteq> 0"
  shows "\<exists>opt'. DCASGD_update call opt i weight grad (DCASGD_create_state opt weight) =
    ((opt', weight, grad, DCASGD_create_state opt weight),
     Inl (if length weight \<ge> 2 then ValueError else AssertionError))"
proof -
  let ?o = "update_count opt [i]"
  have "dc_momentum ?o = dc_momentum opt"
    by (simp add: update_count_def count_one_def Let_def)
  then show ?thesis
    using assms by (cases weight; cases "tl weight")
      (auto simp: DCASGD_update_def with_rates_fixed DCASGD_create_state_def nd_bool_def zeros_def Let_def)
qed

theorem DCASGD_momentum_fails_witness:
  "\<exists>opt'. DCASGD_update (\<lambda>s n. (s, Inr 0)) (DCASGD_init (demo_base False) (9/10) (4/100)) (KInt 0) [1, 2] [1, 1]
     (DCASGD_create_state (DCASGD_init (demo_base False) (9/10) (4/100)) [1, 2]) =
   ((opt', [1, 2], [1, 1], (Some [0, 0], [1, 2])), Inl ValueError)"
  using DCASGD_momentum_fails [of "DCASGD_init (demo_base False) (9/10) (4/100)" "\<lambda>s n. (s, Inr 0)" "KInt 0"
      "[1, 2]" "[1, 1]"]
  by (simp add: DCASGD_init_def demo_base_def optimizer.defs dcasgd.defs DCASGD_create_state_def zeros_def)

section \<open>Nadam\<close>

text \<open>One training step: every parameter is updated once, in order.\<close>

fun Nadam_step ::
  "'s call \<Rightarrow> 's nadam \<Rightarrow> (pkey \<times> real list \<times> real list \<times> (real list \<times> real list)) list \<Rightarrow>
   ('s nadam, unit) outcome" where
  "Nadam_step call opt [] = (opt, Inr ())"
| "Nadam_step call opt ((i, w, g, st) # ps) =
     (case Nadam_update call opt i w g st of
        ((opt, _), Inl e) \<Rightarrow> (opt, Inl e)
      | ((opt, _), Inr _) \<Rightarrow> Nadam_step call opt ps)"

lemma Nadam_update_schedule:
  assumes "opt_scheduler opt = None" "index_update_count opt i = Some t \<or>
      (index_update_count opt i = None \<and> t = begin_num_update opt)" "0 \<le> t"
  shows "\<exists>rest. Nadam_update call opt i w g st =
    (((update_count opt [i])\<lparr> m_schedule := m_schedule opt * nadam_momentum opt (t + 1) \<rparr>, rest), Inr ())"
proof -
  let ?o = "update_count opt [i]"
  have f: "m_schedule ?o = m_schedule opt" "nd_beta1 ?o = nd_beta1 opt" "nd_beta2 ?o = nd_beta2 opt"
    "schedule_decay ?o = schedule_decay opt"
    by (simp_all add: update_count_def count_one_def Let_def)
  have "count_of ?o i = t + 1" using assms(2) by auto
  moreover have "nadam_momentum ?o t' = nadam_momentum opt t'" for t'
    by (simp add: nadam_momentum_def f)
  ultimately show ?thesis
    using assms(1,3) by (simp add: Nadam_update_def with_rates_fixed py_pow_def f Let_def)
qed

text \<open>The momentum schedule of Nadam advances with every update of any parameter: after one training
  step over \<open>k\<close> new parameters the running product holds \<open>k\<close> factors of the schedule at step one,
  not one, so the corrections every parameter sees depend on how many were updated before it.\<close>

theorem Nadam_schedule_shared:
  assumes "opt_scheduler opt = None" "begin_num_update opt = 0" "distinct (map fst ps)"
    and "\<forall>p \<in> set ps. index_update_count opt (fst p) = None"
  shows "\<exists>opt'. Nadam_step call opt ps = (opt', Inr ())
    \<and> m_schedule opt' = m_schedule opt * nadam_momentum opt 1 ^ length ps"
  using assms
proof (induction ps arbitrary: opt)
  case (Cons p ps)
  obtain i w g st where p: "p = (i, w, g, st)" by (metis surj_pair)
  let ?o = "(update_count opt [i])\<lparr> m_schedule := m_schedule opt * nadam_momentum opt 1 \<rparr>"
  obtain rest where u: "Nadam_update call opt i w g st = ((?o, rest), Inr ())"
    using Nadam_update_schedule [of opt i 0 call w g st] Cons.prems(1,2,4) by (auto simp: p)
  have i: "\<forall>q \<in> set ps. fst q \<noteq> i" using Cons.prems(3) by (auto simp: p)
  have "opt_scheduler ?o = None" "begin_num_update ?o = 0" "distinct (map fst ps)"
    using Cons.prems(1-3) by simp_all
  moreover have "\<forall>q \<in> set ps. index_update_count ?o (fst q) = None"
    using Cons.prems(4) i by (simp add: update_count_other)
  ultimately obtain opt' where s: "Nadam_step call ?o ps = (opt', Inr ())"
    "m_schedule opt' = m_schedule ?o * nadam_momentum ?o 1 ^ length ps"
    using Cons.IH by blast
  moreover have "nadam_momentum ?o 1 = nadam_momentum opt 1"
    by (simp add: nadam_momentum_def update_count_def count_one_def Let_def)
  ultimately show ?case by (simp add: p u)
qed simp

theorem Nadam_schedule_shared_witness:
  "\<exists>opt'. Nadam_step (\<lambda>s n. (s, Inr 0)) (Nadam_init (demo_base False) (1/2) (1/2) 0 0)
       [(KInt 0, [1], [1], ([0], [0])), (KInt 1, [1], [1], ([0], [0]))] = (opt', Inr ())
     \<and> m_schedule opt' = 1/16"
proof -
  let ?o = "Nadam_init (demo_base False) (1/2) (1/2) 0 0"
  let ?ps = "[(KInt 0, [1], [1], ([0], [0])), (KInt 1, [1], [1], ([0], [0]))]"
  have o: "opt_scheduler ?o = None" "begin_num_update ?o = 0" "index_update_count ?o = Map.empty"
    "m_schedule ?o = 1" "nadam_momentum ?o 1 = 1/4"
    by (simp_all add: Nadam_init_def demo_base_def optimizer.defs nadam.defs nadam_momentum_def)
  obtain opt' where "Nadam_step (\<lambda>s n. (s, Inr 0)) ?o ?ps = (opt', Inr ())"
    "m_schedule opt' = m_schedule ?o * nadam_momentum ?o 1 ^ length ?ps"
    using Nadam_schedule_shared [of ?o ?ps "\<lambda>s n. (s, Inr 0)"] o(1-3) by auto
  then show ?thesis by (intro exI [of _ opt']) (simp add: o(4,5) power2_eq_square)
qed

section \<open>Adam\<close>

text \<open>\<open>n\<close> updates of one parameter with the same gradient.\<close>

fun Adam_steps ::
  "'s call \<Rightarrow> pkey \<Rightarrow> real list \<Rightarrow> nat \<Rightarrow> 's adam \<times> real list \<times> (real list \<times> real list) \<Rightarrow>
   ('s adam \<times> real list \<times> (real list \<times> real list), unit) outcome" where
  "Adam_steps call i grad 0 s = (s, Inr ())"
| "Adam_steps call i grad (Suc n) s =
     sbind (Adam_steps call i grad n s) (\<lambda>(opt, w, st) _.
       case Adam_update call opt i w grad st of ((opt, w, _, st), r) \<Rightarrow> ((opt, w, st), r))"

definition adam_move :: "real \<Rightarrow> real \<Rightarrow> real \<Rightarrow> nat \<Rightarrow> real \<Rightarrow> real" where
  "adam_move lr beta2 epsilon t g =
     lr * sqrt (1 - beta2 ^ t) * g / (sqrt (1 - beta2 ^ t) * \<bar>g\<bar> + epsilon)"

lemma adam_kernel_constant:
  fixes g :: real
  assumes "0 < b1" "b1 < 1" "0 < b2" "b2 < 1"
  shows "adam_kernel (-1) (lr * (sqrt (1 - b2 ^ Suc t) / (1 - b1 ^ Suc t))) 0 1 b1 b2 eps w g
      ((1 - b1 ^ t) * g) ((1 - b2 ^ t) * g\<^sup>2) =
    (w - adam_move lr b2 eps (Suc t) g, g, (1 - b1 ^ Suc t) * g, (1 - b2 ^ Suc t) * g\<^sup>2)"
proof -
  have "b1 * ((1 - b1 ^ t) * g) + (1 - b1) * g = (1 - b1 ^ Suc t) * g"
    and "b2 * ((1 - b2 ^ t) * g\<^sup>2) + (1 - b2) * g\<^sup>2 = (1 - b2 ^ Suc t) * g\<^sup>2"
    by (simp_all add: algebra_simps)
  moreover have "1 - b1 ^ Suc t \<noteq> 0" using power_Suc_less_one [of b1 t] assms by simp
  moreover have "sqrt ((1 - b2 ^ Suc t) * g\<^sup>2) = sqrt (1 - b2 ^ Suc t) * \<bar>g\<bar>"
    by (simp add: real_sqrt_mult)
  ultimately show ?thesis
    by (simp add: adam_kernel_def adam_move_def Let_def del: power_Suc)
qed

definition adam_plain :: "'s adam \<Rightarrow> pkey \<Rightarrow> real \<Rightarrow> real \<Rightarrow> real \<Rightarrow> real \<Rightarrow> nat \<Rightarrow> bool" where
  "adam_plain opt i lr b1 b2 eps t \<longleftrightarrow>
     opt_scheduler opt = None \<and> opt_lr opt * lr_multiplier opt i = lr \<and> get_wd opt i = 0
     \<and> clip_gradient opt = None \<and> rescale_grad opt = 1
     \<and> ad_beta1 opt = b1 \<and> ad_beta2 opt = b2 \<and> ad_epsilon opt = eps
     \<and> (case index_update_count opt i of None \<Rightarrow> begin_num_update opt | Some c \<Rightarrow> c) = int t"

lemma adam_lr_bias:
  assumes "0 < b1" "b1 < 1" "0 < b2" "b2 < 1"
  shows "adam_lr b1 b2 lr (int t + 1) = Inr (lr * (sqrt (1 - b2 ^ Suc t) / (1 - b1 ^ Suc t)))"
proof -
  have "b1 ^ Suc t < 1" "b2 ^ Suc t < 1" using assms power_Suc_less_one [of b1 t] power_Suc_less_one [of b2 t] by auto
  then show ?thesis
    by (simp add: adam_lr_def py_pow_def py_div_def nat_add_distrib del: power_Suc)
qed

lemma Adam_update_constant:
  assumes p: "adam_plain opt i lr b1 b2 eps t" and b: "0 < b1" "b1 < 1" "0 < b2" "b2 < 1"
    and len: "length w = length grad"
  shows "\<exists>opt'. Adam_update call opt i w grad
      (map (\<lambda>g. (1 - b1 ^ t) * g) grad, map (\<lambda>g. (1 - b2 ^ t) * g\<^sup>2) grad) =
      ((opt', map2 (\<lambda>w g. w - adam_move lr b2 eps (Suc t) g) w grad, grad,
        (map (\<lambda>g. (1 - b1 ^ Suc t) * g) grad, map (\<lambda>g. (1 - b2 ^ Suc t) * g\<^sup>2) grad)), Inr ())
      \<and> adam_plain opt' i lr b1 b2 eps (Suc t)"
proof -
  let ?o = "update_count opt [i]"
  let ?lr = "lr * (sqrt (1 - b2 ^ Suc t) / (1 - b1 ^ Suc t))"
  let ?z = "zip w (zip grad (zip (map (\<lambda>g. (1 - b1 ^ t) * g) grad) (map (\<lambda>g. (1 - b2 ^ t) * g\<^sup>2) grad)))"
  let ?r = "map (\<lambda>(w, g, m, v). adam_kernel (-1) ?lr 0 1 b1 b2 eps w g m v) ?z"
  have o: "ad_beta1 ?o = b1" "ad_beta2 ?o = b2" "ad_epsilon ?o = eps"
    using p by (simp_all add: adam_plain_def update_count_def count_one_def Let_def)
  have c: "count_of ?o i = int t + 1" "clip_arg opt = -1" "rescale_grad opt = 1"
    using p by (simp_all add: adam_plain_def clip_arg_def)
  have r: "?r = map2 (\<lambda>w g. (w - adam_move lr b2 eps (Suc t) g, g, (1 - b1 ^ Suc t) * g,
      (1 - b2 ^ Suc t) * g\<^sup>2)) w grad"
    using len by (induction w grad rule: list_induct2)
      (simp_all add: adam_kernel_constant [OF b] del: power_Suc times_divide_eq_right)
  have "Adam_update call opt i w grad
      (map (\<lambda>g. (1 - b1 ^ t) * g) grad, map (\<lambda>g. (1 - b2 ^ t) * g\<^sup>2) grad) =
      ((?o, map fst ?r, map (fst \<circ> snd) ?r, (map (fst \<circ> snd \<circ> snd) ?r, map (snd \<circ> snd \<circ> snd) ?r)), Inr ())"
    using p unfolding Adam_update_def adam_plain_def
    by (simp add: with_rates_fixed o c adam_lr_bias [OF b] Let_def
        del: power_Suc map_map times_divide_eq_right)
  moreover have "adam_plain ?o i lr b1 b2 eps (Suc t)"
    using p by (simp add: adam_plain_def o update_count_same)
  moreover have "map fst ?r = map2 (\<lambda>w g. w - adam_move lr b2 eps (Suc t) g) w grad"
    "map (fst \<circ> snd) ?r = grad" "map (fst \<circ> snd \<circ> snd) ?r = map (\<lambda>g. (1 - b1 ^ Suc t) * g) grad"
    "map (snd \<circ> snd \<circ> snd) ?r = map (\<lambda>g. (1 - b2 ^ Suc t) * g\<^sup>2) grad"
    unfolding r using len by (induction w grad rule: list_induct2) (simp_all del: power_Suc)
  ultimately show ?thesis by (simp del: power_Suc map_map)
qed



section \<open>Centered RMSProp\<close>

definition rms_ok :: "'s rmsprop \<Rightarrow> rms_state \<Rightarrow> bool" where
  "rms_ok opt st \<longleftrightarrow> centered opt \<and> 0 \<le> gamma1 opt \<and> gamma1 opt \<le> 1
     \<and> (case st of Plain _ \<Rightarrow> False | Centered n g d \<Rightarrow> list_all2 (\<lambda>n g. g * g \<le> n) n g)"

lemma average_square:
  fixes c g n gam :: real
  assumes "0 \<le> gam" "gam \<le> 1" "g * g \<le> n"
  shows "((1 - gam) * c + gam * g) * ((1 - gam) * c + gam * g) \<le> (1 - gam) * c * c + gam * n"
proof -
  have "(1 - gam) * c * c + gam * (g * g) - ((1 - gam) * c + gam * g) * ((1 - gam) * c + gam * g)
      = gam * (1 - gam) * ((c - g) * (c - g))"
    by (simp add: algebra_simps)
  moreover have "0 \<le> gam * (1 - gam) * ((c - g) * (c - g))" using assms by simp
  moreover have "gam * (g * g) \<le> gam * n" using assms by (simp add: mult_left_mono)
  ultimately show ?thesis by linarith
qed

lemma RMSProp_update_ok:
  assumes ok: "rms_ok opt st" and u: "RMSProp_update call opt i w grad st = ((opt', w', g', st'), r)"
  shows "rms_ok opt' st'"
proof -
  obtain n g d where st: "st = Centered n g d" using ok by (cases st) (auto simp: rms_ok_def)
  obtain q lr where q: "get_lr call (update_count opt [i]) i = (q, lr)" by (metis surj_pair)
  have f: "centered q" "gamma1 q = gamma1 opt"
    using get_lr_changes [OF q] ok by (auto simp: rms_ok_def update_count_def count_one_def Let_def)
  show ?thesis
  proof (cases lr)
    case (Inl e)
    then show ?thesis using u ok f by (auto simp: RMSProp_update_def with_rates_def q st rms_ok_def)
  next
    case (Inr l)
    have P: "g * g \<le> n" if "(x, gr, n, g, d') \<in> set (zip w (zip grad (zip ns (zip gs ds))))"
      "list_all2 (\<lambda>n g. g * g \<le> n) ns gs" for x gr n g d' ns gs ds
      using that by (auto simp: list_all2_iff in_set_zip)
    show ?thesis
      using u ok f P [of _ _ _ _ _ n g d]
      by (auto simp: RMSProp_update_def with_rates_def q Inr st rms_ok_def Let_def list_all2_map1
          list_all2_map2 list_all2_same rmspropalex_kernel_def intro!: average_square)
  qed
qed

fun RMSProp_steps ::
  "'s call \<Rightarrow> pkey \<Rightarrow> 's rmsprop \<times> real list \<times> rms_state \<Rightarrow> real list list \<Rightarrow>
   ('s rmsprop \<times> real list \<times> rms_state, unit) outcome" where
  "RMSProp_steps call i s [] = (s, Inr ())"
| "RMSProp_steps call i (opt, w, st) (g # gs) =
     (case RMSProp_update call opt i w g st of
        ((opt, w, _, st), Inl e) \<Rightarrow> ((opt, w, st), Inl e)
      | ((opt, w, _, st), Inr _) \<Rightarrow> RMSProp_steps call i (opt, w, st) gs)"

text \<open>Centered RMSProp never takes the root of a negative number: over any sequence of updates of a
  parameter from its new state, with any gradients, schedule, clipping and a decay rate
  \<open>gamma1\<close> between 0 and 1, the running mean of the squared gradients stays at least the square
  of the running mean of the gradients, element by element.\<close>

theorem RMSProp_variance_nonneg:
  assumes "centered opt" "0 \<le> gamma1 opt" "gamma1 opt \<le> 1"
    and "RMSProp_steps call i (opt, w, RMSProp_create_state opt w) gs = ((opt', w', st'), r)"
  shows "\<exists>n g delta. st' = Centered n g delta \<and> list_all2 (\<lambda>n g. 0 \<le> n - g * g) n g"
proof -
  have inv: "rms_ok opt' st'" if "rms_ok p st" "RMSProp_steps call i (p, v, st) gs = ((opt', w', st'), r)"
    for p v st
    using that
  proof (induction gs arbitrary: p v st)
    case (Cons g gs)
    obtain p' v' g' st1 r1 where u: "RMSProp_update call p i v g st = ((p', v', g', st1), r1)"
      by (metis surj_pair)
    from RMSProp_update_ok [OF Cons.prems(1) u] Cons show ?case by (cases r1) (auto simp: u)
  qed simp
  have "rms_ok opt (RMSProp_create_state opt w)"
    using assms(1-3) by (simp add: rms_ok_def RMSProp_create_state_def zeros_def list_all2_same)
  from inv [OF this assms(4)] show ?thesis by (cases st') (auto simp: rms_ok_def)
qed

theorem RMSProp_variance_nonneg_witness:
  "\<exists>opt' w' n g delta r.
     RMSProp_steps (\<lambda>s n. (s, Inr 0)) (KInt 0)
       (RMSProp_init (demo_base False) (9/10) (9/10) (1/100) True None, [1],
        RMSProp_create_state (RMSProp_init (demo_base False) (9/10) (9/10) (1/100) True None) [1])
       [[2], [-3]] = ((opt', w', Centered n g delta), r)
     \<and> list_all2 (\<lambda>n g. 0 \<le> n - g * g) n g"
proof -
  let ?o = "RMSProp_init (demo_base False) (9/10) (9/10) (1/100) True None"
  obtain opt' w' st' r where s: "RMSProp_steps (\<lambda>s n. (s, Inr 0)) (KInt 0)
      (?o, [1], RMSProp_create_state ?o [1]) [[2], [-3]] = ((opt', w', st'), r)" by (metis surj_pair)
  have "centered ?o" "0 \<le> gamma1 ?o" "gamma1 ?o \<le> 1"
    by (simp_all add: RMSProp_init_def optimizer.defs rmsprop.defs)
  from RMSProp_variance_nonneg [OF this s] s show ?thesis by blast
qed

end
