(* ===== verification/Datasets.thy ===== *)
theory Datasets
  imports Prelude
begin

text \<open>
  The datasets of \<open>python/mxnet/gluon/data/dataset.py\<close> and the default batching functions of
  \<open>python/mxnet/gluon/data/dataloader.py\<close>.

  A dataset is an object with \<open>__len__\<close> and \<open>__getitem__\<close>, a record of the two; it has no
  \<open>__iter__\<close>, so a loop over it calls \<open>__getitem__\<close> with 0, 1, ... until \<open>IndexError\<close>, which
  \<open>ds_collect\<close> does (\<open>None\<close> where it never ends).  A sample is an array (or other value) or a tuple of samples.  A
  transformation receives the list of its arguments.
\<close>

section \<open>Samples and datasets\<close>

datatype 'x sample = One 'x | Tup "'x sample list"

record 'x dataset =
  ds_len :: int
  ds_get :: "int \<Rightarrow> 'x sample result"

definition SimpleDataset :: "'x sample list \<Rightarrow> 'x dataset" where
  "SimpleDataset xs = \<lparr> ds_len = int (length xs), ds_get = py_get xs \<rparr>"

definition call_item :: "('x sample list \<Rightarrow> 'y sample result) \<Rightarrow> 'x sample \<Rightarrow> 'y sample result" where
  "call_item fn item = (case item of Tup xs \<Rightarrow> fn xs | One x \<Rightarrow> fn [One x])"

definition LazyTransformDataset ::
  "'x dataset \<Rightarrow> ('x sample list \<Rightarrow> 'y sample result) \<Rightarrow> 'y dataset" where
  "LazyTransformDataset ds fn =
     \<lparr> ds_len = ds_len ds, ds_get = (\<lambda>i. rbind (ds_get ds i) (call_item fn)) \<rparr>"

definition TransformFirstClosure ::
  "('x sample \<Rightarrow> 'x sample result) \<Rightarrow> 'x sample list \<Rightarrow> 'x sample result" where
  "TransformFirstClosure fn args =
     (case args of
        [] \<Rightarrow> Inl TypeError
      | x # rest \<Rightarrow> if rest \<noteq> [] then rbind (fn x) (\<lambda>y. Inr (Tup (y # rest))) else fn x)"

partial_function (option) ds_collect :: "'x dataset \<Rightarrow> int \<Rightarrow> 'x sample list result option" where
  "ds_collect ds i =
     (case ds_get ds i of
        Inl e \<Rightarrow> Some (if e = IndexError then Inr [] else Inl e)
      | Inr x \<Rightarrow> Option.bind (ds_collect ds (i + 1)) (\<lambda>r. Some (rbind r (\<lambda>xs. Inr (x # xs)))))"

definition Dataset_transform ::
  "'x dataset \<Rightarrow> ('x sample list \<Rightarrow> 'y sample result) \<Rightarrow> bool \<Rightarrow> 'y dataset result option" where
  "Dataset_transform ds fn lazy =
     (let trans = LazyTransformDataset ds fn
      in if lazy then Some (Inr trans)
         else map_option (\<lambda>r. rbind r (\<lambda>xs. Inr (SimpleDataset xs))) (ds_collect trans 0))"

definition Dataset_transform_first ::
  "'x dataset \<Rightarrow> ('x sample \<Rightarrow> 'x sample result) \<Rightarrow> bool \<Rightarrow> 'x dataset result option" where
  "Dataset_transform_first ds fn lazy = Dataset_transform ds (TransformFirstClosure fn) lazy"

definition ArrayDataset :: "'x dataset list \<Rightarrow> 'x dataset result" where
  "ArrayDataset args =
     (case args of
        [] \<Rightarrow> Inl AssertionError
      | a # _ \<Rightarrow>
          if \<not> list_all (\<lambda>d. ds_len d = ds_len a) args then Inl AssertionError
          else Inr \<lparr> ds_len = ds_len a,
                     ds_get = (\<lambda>i. if length args = 1 then ds_get a i
                                   else rbind (mapM (\<lambda>d. ds_get d i) args) (\<lambda>xs. Inr (Tup xs))) \<rparr>)"

section \<open>Batches\<close>

text \<open>A batch is a stack of values along a new first axis, or a list of batches.  The samples of a dataset have the same form; a mixture of arrays and tuples is
  reported as \<open>TypeError\<close>.  Stacking in shared memory gives the same batch.\<close>

datatype 'x batch = Stack "'x list" | Many "'x batch list"

definition one_of :: "'x sample \<Rightarrow> 'x result" where
  "one_of s = (case s of One x \<Rightarrow> Inr x | Tup _ \<Rightarrow> Inl TypeError)"

definition components :: "'x sample \<Rightarrow> 'x sample list result" where
  "components s = (case s of Tup xs \<Rightarrow> Inr xs | One _ \<Rightarrow> Inl TypeError)"

text \<open>\<open>zip(*data)\<close>: as many columns as the shortest tuple has components.\<close>

definition columns :: "'x sample list list \<Rightarrow> 'x sample list list" where
  "columns xss = map (\<lambda>j. map (\<lambda>xs. xs ! j) xss) [0..<Min (set (map length xss))]"

lemma columns_hd:
  assumes "xss \<noteq> []" "col \<in> set (columns xss)"
  shows "col \<noteq> [] \<and> hd col \<in> set (hd xss)"
proof -
  obtain j where j: "j < Min (set (map length xss))" "col = map (\<lambda>xs. xs ! j) xss"
    using assms(2) by (auto simp: columns_def)
  have "Min (set (map length xss)) \<le> length (hd xss)"
    using assms(1) by (intro Min_le) auto
  then show ?thesis using j assms(1) by (auto simp: hd_map)
qed

function default_batchify_fn :: "'x sample list \<Rightarrow> 'x batch result" where
  "default_batchify_fn data =
     (case data of
        [] \<Rightarrow> Inl IndexError
      | One _ # _ \<Rightarrow> rbind (mapM one_of data) (\<lambda>xs. Inr (Stack xs))
      | Tup _ # _ \<Rightarrow>
          rbind (mapM components data) (\<lambda>xss.
            rbind (mapM default_batchify_fn (columns xss)) (\<lambda>bs. Inr (Many bs))))"
  by pat_completeness auto
termination
proof (relation "measure (\<lambda>data. size (hd data))", simp)
  fix data :: "'x sample list" and s ss ys xss col
  assume d: "data = s # ss" "s = Tup ys" and x: "mapM components data = Inr xss"
    and c: "col \<in> set (columns xss)"
  from x d obtain zs where xss: "xss = ys # zs" by (auto simp: components_def)
  have "hd col \<in> set ys" using columns_hd [OF _ c] xss by simp
  then have "size (hd col) < Suc (size_list size ys)"
    by (meson le_imp_less_Suc size_list_estimation' order_refl)
  then show "(col, data) \<in> measure (\<lambda>data. size (hd data))" by (simp add: d)
qed

declare default_batchify_fn.simps [simp del]

section \<open>Eager and lazy transformation\<close>

text \<open>A dataset that behaves like the list of its samples.\<close>

definition ds_list :: "'x dataset \<Rightarrow> 'x sample list \<Rightarrow> bool" where
  "ds_list ds xs \<longleftrightarrow> ds_len ds = int (length xs) \<and> ds_get ds = py_get xs"

lemma SimpleDataset_list [simp]: "ds_list (SimpleDataset xs) xs"
  by (simp add: ds_list_def SimpleDataset_def)

lemma ds_collect_prefix:
  assumes "\<And>j. j < k \<Longrightarrow> ds_get ds (int i + int j) = Inr (f j)"
  shows "ds_collect ds (int i) =
    Option.bind (ds_collect ds (int i + int k)) (\<lambda>r. Some (rbind r (\<lambda>xs. Inr (map f [0..<k] @ xs))))"
  using assms
proof (induction k)
  case 0
  have "rbind r Inr = r" for r :: "'a sample list result" by (cases r) simp_all
  then show ?case by simp
next
  case (Suc k)
  have "ds_collect ds (int i + int k) =
      Option.bind (ds_collect ds (int i + int (Suc k))) (\<lambda>r. Some (rbind r (\<lambda>xs. Inr (f k # xs))))"
    by (subst ds_collect.simps) (simp add: Suc.prems ac_simps)
  then show ?case using Suc by simp
qed

lemma ds_collect_stop:
  assumes "\<And>j. j < k \<Longrightarrow> ds_get ds (int j) = Inr (f j)" "ds_get ds (int k) = Inl e"
  shows "ds_collect ds 0 = Some (if e = IndexError then Inr (map f [0..<k]) else Inl e)"
proof -
  have "ds_collect ds (int k) = Some (if e = IndexError then Inr [] else Inl e)"
    by (subst ds_collect.simps) (simp add: assms(2))
  then show ?thesis using ds_collect_prefix [of k ds 0 f] assms(1) by simp
qed



end
