(* ===== verification/Data_Loader.thy ===== *)
theory Data_Loader
  imports Samplers Datasets "HOL-Library.AList"
begin

text \<open>
  The class \<open>DataLoader\<close> of \<open>python/mxnet/gluon/data/dataloader.py\<close>: its constructor, the iteration in
  the calling process, and \<open>_MultiWorkerIter\<close>, which hands the batches to a pool of workers.

  A generator over batches of indices is the list of the batches it still yields, with the exception that ends
  it, if any.  \<open>apply_async\<close> returns a handle whose \<open>get\<close> waits for the worker and returns or raises
  what the worker function did; the function only depends on its arguments, so the handle is modelled by
  that result.  Pickling a batch and moving it to another memory keep its value.
\<close>

section \<open>Batches of indices and worker functions\<close>

type_synonym generator = "int list list \<times> exn option"

text \<open>\<open>next(it, None)\<close>; a generator that has raised is exhausted.\<close>

fun gen_next :: "generator \<Rightarrow> (generator, int list option) outcome" where
  "gen_next ([], None) = (([], None), Inr None)"
| "gen_next ([], Some e) = (([], None), Inl e)"
| "gen_next (r # rs, e) = ((rs, e), Inr (Some r))"

definition worker_fn ::
  "'x dataset \<Rightarrow> ('x sample list \<Rightarrow> 'x batch result) \<Rightarrow> int list \<Rightarrow> 'x batch result" where
  "worker_fn dataset batchify_fn samples = rbind (mapM (ds_get dataset) samples) batchify_fn"

text \<open>The generator \<open>same_process_iter\<close>: what it yields and the exception that ends it.\<close>

fun same_process_iter ::
  "(int list \<Rightarrow> 'x batch result) \<Rightarrow> generator \<Rightarrow> 'x batch list \<times> exn option" where
  "same_process_iter fetch ([], e) = ([], e)"
| "same_process_iter fetch (r # rs, e) =
     (case fetch r of
        Inl x \<Rightarrow> ([], Some x)
      | Inr b \<Rightarrow> (case same_process_iter fetch (rs, e) of (bs, x) \<Rightarrow> (b # bs, x)))"

section \<open>The iterator over a pool of workers\<close>

record 'x multi_worker =
  data_buffer :: "(nat \<times> 'x batch result) list"
  rcvd_idx :: nat
  sent_idx :: nat
  mw_iter :: generator

definition push_next ::
  "(int list \<Rightarrow> 'x batch result) \<Rightarrow> 'x multi_worker \<Rightarrow> ('x multi_worker, unit) outcome" where
  "push_next fetch s =
     (case gen_next (mw_iter s) of
        (it, Inl e) \<Rightarrow> (s\<lparr> mw_iter := it \<rparr>, Inl e)
      | (it, Inr None) \<Rightarrow> (s\<lparr> mw_iter := it \<rparr>, Inr ())
      | (it, Inr (Some r)) \<Rightarrow>
          (s\<lparr> mw_iter := it, data_buffer := AList.update (sent_idx s) (fetch r) (data_buffer s),
              sent_idx := sent_idx s + 1 \<rparr>, Inr ()))"

fun push_times ::
  "nat \<Rightarrow> (int list \<Rightarrow> 'x batch result) \<Rightarrow> 'x multi_worker \<Rightarrow> ('x multi_worker, unit) outcome" where
  "push_times 0 fetch s = (s, Inr ())"
| "push_times (Suc n) fetch s = sbind (push_next fetch s) (\<lambda>s _. push_times n fetch s)"

definition MultiWorkerIter_init ::
  "(int list \<Rightarrow> 'x batch result) \<Rightarrow> generator \<Rightarrow> int \<Rightarrow> ('x multi_worker, unit) outcome" where
  "MultiWorkerIter_init fetch it prefetch =
     push_times (nat prefetch) fetch \<lparr> data_buffer = [], rcvd_idx = 0, sent_idx = 0, mw_iter = it \<rparr>"

text \<open>What a loop over a loader receives: a batch, or the single entry of a stack.\<close>

datatype 'x served = Row 'x | Served "'x batch"

fun unwrap :: "'x batch \<Rightarrow> 'x served" where
  "unwrap (Stack [x]) = Row x"
| "unwrap (Many [b]) = Served b"
| "unwrap b = Served b"

definition MultiWorkerIter_next ::
  "(int list \<Rightarrow> 'x batch result) \<Rightarrow> 'x multi_worker \<Rightarrow> ('x multi_worker, 'x served) outcome" where
  "MultiWorkerIter_next fetch s =
     sbind (push_next fetch s) (\<lambda>s _.
       if rcvd_idx s = sent_idx s
       then (s, Inl (if data_buffer s \<noteq> [] then AssertionError else StopIteration))
       else if \<not> rcvd_idx s < sent_idx s then (s, Inl AssertionError)
       else case map_of (data_buffer s) (rcvd_idx s) of
              None \<Rightarrow> (s, Inl AssertionError)
            | Some ret \<Rightarrow>
                (let s = s\<lparr> data_buffer := AList.delete (rcvd_idx s) (data_buffer s) \<rparr>
                 in case ret of
                      Inl e \<Rightarrow> (s, Inl e)
                    | Inr batch \<Rightarrow> (s\<lparr> rcvd_idx := rcvd_idx s + 1 \<rparr>, Inr (unwrap batch))))"

section \<open>The loader\<close>

text \<open>The sampler of a loader; one of the user's own is given by the indices it yields.\<close>

datatype index_source = Sequential int | Random int | Indices "int list"

fun source_iter :: "(int list \<Rightarrow> int list) \<Rightarrow> index_source \<Rightarrow> int list" where
  "source_iter shuffle (Sequential n) = SequentialSampler_iter n"
| "source_iter shuffle (Random n) = RandomSampler_iter shuffle n"
| "source_iter shuffle (Indices is) = is"

fun source_len :: "index_source \<Rightarrow> int" where
  "source_len (Sequential n) = SequentialSampler_len n"
| "source_len (Random n) = RandomSampler_len n"
| "source_len (Indices is) = int (length is)"

datatype batch_source = Batched index_source "int batch_sampler" | Batches "int list list"

record 'x data_loader_v1 =
  dl_dataset :: "'x dataset"
  dl_batch_sampler :: batch_source
  dl_num_workers :: int
  dl_batchify_fn :: "'x sample list \<Rightarrow> 'x batch result"

record 'x data_loader = "'x data_loader_v1" +
  dl_prefetch :: int

definition loader_sampler ::
  "int \<Rightarrow> int option \<Rightarrow> bool \<Rightarrow> index_source option \<Rightarrow> string option \<Rightarrow> int list list option \<Rightarrow>
   batch_source result" where
  "loader_sampler n batch_size shuffle sampler last_batch batch_sampler =
     (case batch_sampler of
        None \<Rightarrow>
          (case batch_size of
             None \<Rightarrow> Inl ValueError
           | Some k \<Rightarrow>
               rbind
                 (case sampler of
                    None \<Rightarrow> Inr (if shuffle then Random n else Sequential n)
                  | Some src \<Rightarrow> if shuffle then Inl ValueError else Inr src)
                 (\<lambda>src. Inr (Batched src
                    (BatchSampler_init k
                       (case last_batch of None \<Rightarrow> ''keep'' | Some lb \<Rightarrow> if lb = [] then ''keep'' else lb)))))
      | Some bs \<Rightarrow>
          if batch_size \<noteq> None \<or> shuffle \<or> sampler \<noteq> None \<or> last_batch \<noteq> None then Inl ValueError
          else Inr (Batches bs))"

definition DataLoaderV1_init ::
  "'x dataset \<Rightarrow> int option \<Rightarrow> bool \<Rightarrow> index_source option \<Rightarrow> string option \<Rightarrow> int list list option \<Rightarrow>
   ('x sample list \<Rightarrow> 'x batch result) option \<Rightarrow> int \<Rightarrow> 'x data_loader_v1 result" where
  "DataLoaderV1_init dataset batch_size shuffle sampler last_batch batch_sampler batchify_fn num_workers =
     rbind (loader_sampler (ds_len dataset) batch_size shuffle sampler last_batch batch_sampler) (\<lambda>bs.
       Inr \<lparr> dl_dataset = dataset, dl_batch_sampler = bs, dl_num_workers = (if 0 \<le> num_workers then num_workers else 0),
             dl_batchify_fn = (case batchify_fn of None \<Rightarrow> default_batchify_fn | Some f \<Rightarrow> f) \<rparr>)"

definition DataLoader_init ::
  "'x dataset \<Rightarrow> int option \<Rightarrow> bool \<Rightarrow> index_source option \<Rightarrow> string option \<Rightarrow> int list list option \<Rightarrow>
   ('x sample list \<Rightarrow> 'x batch result) option \<Rightarrow> int \<Rightarrow> int option \<Rightarrow> 'x data_loader result" where
  "DataLoader_init dataset batch_size shuffle sampler last_batch batch_sampler batchify_fn num_workers prefetch =
     rbind (loader_sampler (ds_len dataset) batch_size shuffle sampler last_batch batch_sampler) (\<lambda>bs.
       let workers = (if 0 \<le> num_workers then num_workers else 0)
       in Inr \<lparr> dl_dataset = dataset, dl_batch_sampler = bs, dl_num_workers = workers,
                dl_batchify_fn = (case batchify_fn of None \<Rightarrow> default_batchify_fn | Some f \<Rightarrow> f),
                dl_prefetch = max 0 (case prefetch of Some p \<Rightarrow> p | None \<Rightarrow> 2 * workers) \<rparr>)"

definition DataLoader_len :: "('x, 'z) data_loader_v1_scheme \<Rightarrow> int result" where
  "DataLoader_len dl =
     (case dl_batch_sampler dl of
        Batched src bs \<Rightarrow> BatchSampler_len bs (source_len src)
      | Batches bs \<Rightarrow> Inr (int (length bs)))"

text \<open>\<open>iter(self._batch_sampler)\<close>.\<close>

definition loader_batches :: "(int list \<Rightarrow> int list) \<Rightarrow> ('x, 'z) data_loader_v1_scheme \<Rightarrow> generator" where
  "loader_batches shuffle dl =
     (case dl_batch_sampler dl of
        Batched src bs \<Rightarrow> snd (BatchSampler_iter bs (source_iter shuffle src))
      | Batches bs \<Rightarrow> (bs, None))"

text \<open>\<open>__iter__\<close> and a loop over the result: the batches the loop sees, and the exception that ends it,
  \<open>StopIteration\<close> for a normal end.\<close>

definition DataLoader_loop ::
  "(int list \<Rightarrow> int list) \<Rightarrow> nat \<Rightarrow> 'x data_loader \<Rightarrow> ('x served list \<times> exn) option" where
  "DataLoader_loop shuffle fuel dl =
     (let fetch = worker_fn (dl_dataset dl) (dl_batchify_fn dl); it = loader_batches shuffle dl
      in if dl_num_workers dl = 0
         then (case same_process_iter fetch it of
                 (bs, e) \<Rightarrow> Some (map Served bs, case e of None \<Rightarrow> StopIteration | Some x \<Rightarrow> x))
         else (case MultiWorkerIter_init fetch it (dl_prefetch dl) of
                 (s, Inl e) \<Rightarrow> Some ([], e)
               | (s, Inr _) \<Rightarrow> map_option snd (drain fuel (MultiWorkerIter_next fetch) s)))"

section \<open>The pool delivers the batches in order\<close>

text \<open>
  The iterator in the middle of an epoch over the batches \<open>R\<close>: the results from \<open>lo\<close> on that were handed
  out are in the buffer.  A sound state has \<open>lo = rcvd_idx\<close>; after a failed batch its result is missing.
\<close>

definition mw_at ::
  "int list list \<Rightarrow> (int list \<Rightarrow> 'x batch result) \<Rightarrow> nat \<Rightarrow> 'x multi_worker \<Rightarrow> bool" where
  "mw_at R fetch lo s \<longleftrightarrow>
     lo \<le> sent_idx s \<and> sent_idx s \<le> length R \<and> mw_iter s = (drop (sent_idx s) R, None)
     \<and> data_buffer s = map (\<lambda>k. (k, fetch (R ! k))) [lo..<sent_idx s]"

lemma push_next_at:
  assumes "mw_at R fetch lo s"
  shows "\<exists>t. push_next fetch s = (t, Inr ()) \<and> mw_at R fetch lo t \<and> rcvd_idx t = rcvd_idx s
    \<and> sent_idx t = min (sent_idx s + 1) (length R)"
proof (cases "sent_idx s < length R")
  case True
  have d: "drop (sent_idx s) R = R ! sent_idx s # drop (Suc (sent_idx s)) R"
    using True by (simp add: Cons_nth_drop_Suc)
  have "sent_idx s \<notin> fst ` set (data_buffer s)" using assms by (auto simp: mw_at_def)
  then show ?thesis using assms True
    by (simp add: push_next_def mw_at_def d update_fresh)
next
  case False
  then show ?thesis using assms by (simp add: push_next_def mw_at_def)
qed

lemma push_times_at:
  "mw_at R fetch lo s \<Longrightarrow> \<exists>t. push_times n fetch s = (t, Inr ()) \<and> mw_at R fetch lo t \<and> rcvd_idx t = rcvd_idx s"
proof (induction n arbitrary: s)
  case 0
  then show ?case by simp
next
  case (Suc n)
  from push_next_at [OF Suc.prems] obtain u where
    u: "push_next fetch s = (u, Inr ())" "mw_at R fetch lo u" "rcvd_idx u = rcvd_idx s" by blast
  show ?case using Suc.IH [OF u(2)] by (simp add: u)
qed

lemma MultiWorkerIter_init_at:
  "\<exists>t. MultiWorkerIter_init fetch (R, None) p = (t, Inr ()) \<and> mw_at R fetch 0 t \<and> rcvd_idx t = 0"
  using push_times_at [of R fetch 0 "\<lparr> data_buffer = [], rcvd_idx = 0, sent_idx = 0, mw_iter = (R, None) \<rparr>"]
  by (simp add: MultiWorkerIter_init_def mw_at_def)

lemma pool_next_end:
  assumes "mw_at R fetch (rcvd_idx s) s" "rcvd_idx s = length R"
  shows "\<exists>t. MultiWorkerIter_next fetch s = (t, Inl StopIteration)"
  using push_next_at [OF assms(1)] assms by (auto simp: MultiWorkerIter_next_def mw_at_def)

lemma pool_next_batch:
  assumes "mw_at R fetch (rcvd_idx s) s" "rcvd_idx s < length R"
  shows "\<exists>t. mw_at R fetch (Suc (rcvd_idx s)) t \<and>
    (case fetch (R ! rcvd_idx s) of
       Inr b \<Rightarrow> MultiWorkerIter_next fetch s = (t, Inr (unwrap b)) \<and> rcvd_idx t = Suc (rcvd_idx s)
     | Inl e \<Rightarrow> MultiWorkerIter_next fetch s = (t, Inl e) \<and> rcvd_idx t = rcvd_idx s)"
proof -
  from push_next_at [OF assms(1)] obtain u where u: "push_next fetch s = (u, Inr ())"
    "mw_at R fetch (rcvd_idx s) u" "rcvd_idx u = rcvd_idx s" "sent_idx u = min (sent_idx s + 1) (length R)"
    by blast
  have lt: "rcvd_idx s < sent_idx u" using assms u(4) by (auto simp: mw_at_def)
  then have b: "data_buffer u = (rcvd_idx s, fetch (R ! rcvd_idx s))
      # map (\<lambda>k. (k, fetch (R ! k))) [Suc (rcvd_idx s)..<sent_idx u]"
    using u(2) by (simp add: mw_at_def upt_conv_Cons)
  have del: "AList.delete (rcvd_idx s) (data_buffer u) = map (\<lambda>k. (k, fetch (R ! k))) [Suc (rcvd_idx s)..<sent_idx u]"
    by (auto simp: b AList.delete_eq filter_id_conv)
  have m: "map_of (data_buffer u) (rcvd_idx s) = Some (fetch (R ! rcvd_idx s))" by (simp add: b)
  let ?u = "u\<lparr> data_buffer := AList.delete (rcvd_idx s) (data_buffer u) \<rparr>"
  have "sent_idx u \<le> length R" "mw_iter u = (drop (sent_idx u) R, None)" using u(2) by (simp_all add: mw_at_def)
  then have at: "mw_at R fetch (Suc (rcvd_idx s)) ?u" using lt by (simp add: mw_at_def del)
  show ?thesis
  proof (cases "fetch (R ! rcvd_idx s)")
    case (Inl e)
    then show ?thesis using at lt
      by (intro exI [of _ ?u]) (simp add: MultiWorkerIter_next_def u(1,3) m)
  next
    case (Inr r)
    then show ?thesis using at lt
      by (intro exI [of _ "?u\<lparr> rcvd_idx := Suc (rcvd_idx s) \<rparr>"])
        (simp add: MultiWorkerIter_next_def u(1,3) m mw_at_def)
  qed
qed

lemma pool_next_broken:
  assumes "mw_at R fetch (Suc (rcvd_idx s)) s"
  shows "\<exists>t. MultiWorkerIter_next fetch s = (t, Inl AssertionError) \<and> rcvd_idx t = rcvd_idx s
    \<and> mw_at R fetch (Suc (rcvd_idx t)) t"
proof -
  from push_next_at [OF assms(1)] obtain u where u: "push_next fetch s = (u, Inr ())"
    "mw_at R fetch (Suc (rcvd_idx s)) u" "rcvd_idx u = rcvd_idx s" by blast
  then have "map_of (data_buffer u) (rcvd_idx s) = None" "rcvd_idx s < sent_idx u"
    by (auto simp: mw_at_def map_of_eq_None_iff image_image)
  then show ?thesis using u by (simp add: MultiWorkerIter_next_def)
qed

lemma drain_pool:
  assumes "mw_at R fetch (rcvd_idx s) s" "rcvd_idx s \<le> length R" "length R - rcvd_idx s < fuel"
    "same_process_iter fetch (drop (rcvd_idx s) R, None) = (bs, e)"
  shows "\<exists>t. drain fuel (MultiWorkerIter_next fetch) s =
      Some (t, map unwrap bs, case e of None \<Rightarrow> StopIteration | Some x \<Rightarrow> x)
    \<and> (e \<noteq> None \<longrightarrow> mw_at R fetch (Suc (rcvd_idx t)) t)"
  using assms
proof (induction fuel arbitrary: s bs)
  case 0
  then show ?case by simp
next
  case (Suc fuel)
  show ?case
  proof (cases "rcvd_idx s = length R")
    case True
    then show ?thesis using pool_next_end [OF Suc.prems(1)] Suc.prems(4) by auto
  next
    case False
    then have lt: "rcvd_idx s < length R" using Suc.prems(2) by simp
    have d: "drop (rcvd_idx s) R = R ! rcvd_idx s # drop (Suc (rcvd_idx s)) R"
      using lt by (simp add: Cons_nth_drop_Suc)
    from pool_next_batch [OF Suc.prems(1) lt] obtain t where
      t: "mw_at R fetch (Suc (rcvd_idx s)) t" and n: "case fetch (R ! rcvd_idx s) of
       Inr b \<Rightarrow> MultiWorkerIter_next fetch s = (t, Inr (unwrap b)) \<and> rcvd_idx t = Suc (rcvd_idx s)
     | Inl e \<Rightarrow> MultiWorkerIter_next fetch s = (t, Inl e) \<and> rcvd_idx t = rcvd_idx s" by blast
    show ?thesis
    proof (cases "fetch (R ! rcvd_idx s)")
      case (Inl x)
      then show ?thesis using n t Suc.prems(4) by (auto simp: d)
    next
      case (Inr b)
      with Suc.prems(4) d obtain bs' where bs: "bs = b # bs'"
        and r: "same_process_iter fetch (drop (Suc (rcvd_idx s)) R, None) = (bs', e)"
        by (auto split: prod.splits)
      have n': "MultiWorkerIter_next fetch s = (t, Inr (unwrap b))" "rcvd_idx t = Suc (rcvd_idx s)"
        using n Inr by simp_all
      have "\<exists>u. drain fuel (MultiWorkerIter_next fetch) t =
          Some (u, map unwrap bs', case e of None \<Rightarrow> StopIteration | Some x \<Rightarrow> x)
        \<and> (e \<noteq> None \<longrightarrow> mw_at R fetch (Suc (rcvd_idx u)) u)"
        using Suc.IH [of t bs'] t n'(2) lt Suc.prems(3) r by simp
      then show ?thesis using n'(1) by (auto simp: bs)
    qed
  qed
qed

lemma DataLoader_loop_eq:
  assumes "loader_batches shuffle dl = (R, None)" and "length R < fuel"
    and "same_process_iter (worker_fn (dl_dataset dl) (dl_batchify_fn dl)) (R, None) = (bs, e)"
  shows "DataLoader_loop shuffle fuel dl =
    Some (map (if dl_num_workers dl = 0 then Served else unwrap) bs,
          case e of None \<Rightarrow> StopIteration | Some x \<Rightarrow> x)"
proof -
  let ?fetch = "worker_fn (dl_dataset dl) (dl_batchify_fn dl)"
  from MultiWorkerIter_init_at [of ?fetch R "dl_prefetch dl"] obtain s where
    s: "MultiWorkerIter_init ?fetch (R, None) (dl_prefetch dl) = (s, Inr ())" "mw_at R ?fetch 0 s"
    "rcvd_idx s = 0" by blast
  from drain_pool [of R ?fetch s fuel bs e] s(2,3) assms(2,3)
  show ?thesis by (auto simp: DataLoader_loop_def assms(1,3) s(1))
qed

text \<open>
  C11.  Workers do not change what a loop over a loader sees: with any positive number of workers and any
  amount of prefetching the loop receives the batches of the loop in the calling process, in the
  same order, and ends in the same way, normally or with the exception of the first failing batch.
  The one difference is that a batch of length one arrives as its single entry.
\<close>

theorem DataLoader_workers_agree:
  assumes "loader_batches shuffle dl = (R, None)" and "length R < fuel" and "dl_num_workers dl \<noteq> 0"
  shows "\<exists>bs e. DataLoader_loop shuffle fuel (dl\<lparr> dl_num_workers := 0 \<rparr>) = Some (map Served bs, e)
    \<and> DataLoader_loop shuffle fuel dl = Some (map unwrap bs, e)"
proof -
  let ?fetch = "worker_fn (dl_dataset dl) (dl_batchify_fn dl)"
  obtain bs e where r: "same_process_iter ?fetch (R, None) = (bs, e)" by (cases "same_process_iter ?fetch (R, None)")
  have "loader_batches shuffle (dl\<lparr> dl_num_workers := 0 \<rparr>) = (R, None)"
    using assms(1) by (simp add: loader_batches_def)
  from DataLoader_loop_eq [OF this assms(2)] DataLoader_loop_eq [OF assms(1,2)] r assms(3)
  show ?thesis by auto
qed

theorem DataLoader_workers_agree_witness:
  "\<exists>dl. DataLoader_init (SimpleDataset [One 5, One 6, One (7 :: nat)]) (Some 2) False None None None None 2 (Some 1) = Inr dl
     \<and> DataLoader_loop id 3 (dl\<lparr> dl_num_workers := 0 \<rparr>) = Some ([Served (Stack [5, 6]), Served (Stack [7])], StopIteration)
     \<and> DataLoader_loop id 3 dl = Some ([Served (Stack [5, 6]), Row 7], StopIteration)"
proof -
  let ?ds = "SimpleDataset [One 5, One 6, One (7 :: nat)]"
  obtain dl where i: "DataLoader_init ?ds (Some 2) False None None None None 2 (Some 1) = Inr dl"
    and dl: "dl_batch_sampler dl = Batched (Sequential 3) (BatchSampler_init 2 ''keep'')" "dl_dataset dl = ?ds"
      "dl_num_workers dl = 2" "dl_batchify_fn dl = default_batchify_fn"
    by (simp add: DataLoader_init_def loader_sampler_def SimpleDataset_def)
  have b: "loader_batches id dl = ([[0, 1], [2]], None)"
    unfolding loader_batches_def dl by code_simp
  have "DataLoader_loop id 3 (dl\<lparr> dl_num_workers := 0 \<rparr>) = Some ([Served (Stack [5, 6]), Served (Stack [7])], StopIteration)"
    using b by (simp add: DataLoader_loop_def loader_batches_def dl worker_fn_def SimpleDataset_def py_get_def
      default_batchify_fn.simps one_of_def)
  moreover obtain bs e where
    "DataLoader_loop id 3 (dl\<lparr> dl_num_workers := 0 \<rparr>) = Some (map Served bs, e)"
    "DataLoader_loop id 3 dl = Some (map unwrap bs, e)"
    using DataLoader_workers_agree [OF b, of 3] dl by auto
  ultimately show ?thesis using i by auto
qed

text \<open>After the exception of a failed batch the pool's iterator is unusable: its result was taken from the
  buffer without advancing, so every later call fails the assertion that it is there.\<close>

lemma MultiWorkerIter_failure_sticks:
  assumes "MultiWorkerIter_init fetch (R, None) p = (s, Inr ())" and "length R < fuel"
    and "same_process_iter fetch (R, None) = (bs, Some x)"
  shows "\<exists>t. drain fuel (MultiWorkerIter_next fetch) s = Some (t, map unwrap bs, x)
    \<and> (\<forall>n. snd (MultiWorkerIter_next fetch (((fst \<circ> MultiWorkerIter_next fetch) ^^ n) t)) = Inl AssertionError)"
proof -
  from MultiWorkerIter_init_at [of fetch R p] assms(1) have s: "mw_at R fetch 0 s" "rcvd_idx s = 0" by auto
  from drain_pool [of R fetch s fuel bs "Some x"] s assms(2,3) obtain t where
    t: "drain fuel (MultiWorkerIter_next fetch) s = Some (t, map unwrap bs, x)" "mw_at R fetch (Suc (rcvd_idx t)) t"
    by auto
  have "mw_at R fetch (Suc (rcvd_idx u)) u" if "u = ((fst \<circ> MultiWorkerIter_next fetch) ^^ n) t" for u n
    using that
  proof (induction n arbitrary: u)
    case 0
    then show ?case using t(2) by simp
  next
    case (Suc n)
    from pool_next_broken [OF Suc.IH [OF refl]] Suc.prems show ?case by auto
  qed
  then have "snd (MultiWorkerIter_next fetch (((fst \<circ> MultiWorkerIter_next fetch) ^^ n) t)) = Inl AssertionError" for n
    using pool_next_broken by (metis snd_conv)
  with t(1) show ?thesis by blast
qed

section \<open>An epoch of a loader over a dataset\<close>

lemma BatchSampler_keep_chunks:
  assumes "0 < n"
  shows "BatchSampler_iter (BatchSampler_init n ''keep'') is = (BatchSampler_init n ''keep'', chunks (nat n) is, None)"
proof -
  obtain ys rest where l: "batch_loop n [] is = (ys, rest)" by (cases "batch_loop n [] is")
  from batch_loop_chunks [OF _ l] assms l show ?thesis
    by (simp add: BatchSampler_iter_def BatchSampler_init_def)
qed

lemma same_process_all:
  "(\<And>r. r \<in> set R \<Longrightarrow> fetch r = Inr (g r)) \<Longrightarrow> same_process_iter fetch (R, e) = (map g R, e)"
  by (induction R) auto

lemma mapM_one_of [simp]: "mapM one_of (map One xs) = Inr xs"
  by (induction xs) (simp_all add: one_of_def)

lemma default_batchify_stack: "xs \<noteq> [] \<Longrightarrow> default_batchify_fn (map One xs) = Inr (Stack xs)"
  using mapM_one_of [of xs] by (cases xs) (simp_all add: default_batchify_fn.simps del: mapM_one_of)

lemma worker_fn_stack:
  assumes "ds_list ds (map One xs)" and "r \<noteq> []" and "set r \<subseteq> {0..<int (length xs)}"
  shows "worker_fn ds default_batchify_fn r = Inr (Stack (map (\<lambda>i. xs ! nat i) r))"
proof -
  have "mapM (ds_get ds) r = Inr (map (\<lambda>i. One (xs ! nat i)) r)"
    using assms(1,3) by (intro mapM_Inr) (fastforce simp: ds_list_def py_get_in)
  then show ?thesis using default_batchify_stack [of "map (\<lambda>i. xs ! nat i) r"] assms(2)
    by (simp add: worker_fn_def comp_def)
qed



end
