(* ===== verification/Data_Loader_V1.thy ===== *)
theory Data_Loader_V1
  imports Data_Loader
begin

text \<open>
  The first data loader of \<open>python/mxnet/gluon/data/dataloader.py\<close>, \<open>_MultiWorkerIterV1\<close>: worker processes take
  jobs from one queue and put batches into another, a fetcher thread moves them into a dict, and the
  caller waits for the batch with the next number.  A state holds the queues, what each process is doing,
  the attributes of the iterator, and the results of the calls so far; one action is one step of one
  process, and every interleaving is a sequence of actions.
\<close>

section \<open>The processes\<close>

datatype key_msg = Job nat "int list" | Quit

datatype 'x data_msg = Result nat "'x batch" | QuitFetcher

datatype v1_worker = Listening | Working nat "int list" | Died nat | Exited

datatype 'x v1_fetcher = Fetching | Storing nat "'x batch" | FetcherExited

text \<open>The caller is between calls, in the loop of \<open>__next__\<close>, or in \<open>shutdown\<close> waiting for the fetcher,
  called by \<open>__next__\<close> at the end or by the user.\<close>

datatype v1_caller = Ready | Spinning | Joining bool

record 'x v1 =
  key_queue :: "key_msg list"
  data_queue :: "'x data_msg list"
  v1_workers :: "v1_worker list"
  v1_fetcher :: "'x v1_fetcher"
  v1_buffer :: "(nat \<times> 'x batch) list"
  v1_rcvd :: nat
  v1_sent :: nat
  v1_iter :: generator
  v1_shutdown :: bool
  v1_caller :: v1_caller
  v1_log :: "'x batch result list"

definition v1_push :: "'x v1 \<Rightarrow> ('x v1, unit) outcome" where
  "v1_push s =
     (case gen_next (v1_iter s) of
        (it, Inl e) \<Rightarrow> (s\<lparr> v1_iter := it \<rparr>, Inl e)
      | (it, Inr None) \<Rightarrow> (s\<lparr> v1_iter := it \<rparr>, Inr ())
      | (it, Inr (Some r)) \<Rightarrow>
          (s\<lparr> v1_iter := it, key_queue := key_queue s @ [Job (v1_sent s) r], v1_sent := v1_sent s + 1 \<rparr>, Inr ()))"

fun v1_push_times :: "nat \<Rightarrow> 'x v1 \<Rightarrow> ('x v1, unit) outcome" where
  "v1_push_times 0 s = (s, Inr ())"
| "v1_push_times (Suc n) s = sbind (v1_push s) (\<lambda>s _. v1_push_times n s)"

definition v1_init :: "int \<Rightarrow> generator \<Rightarrow> 'x v1 result" where
  "v1_init num_workers it =
     (if \<not> 0 < num_workers then Inl AssertionError
      else case v1_push_times (2 * nat num_workers)
                  \<lparr> key_queue = [], data_queue = [], v1_workers = replicate (nat num_workers) Listening,
                    v1_fetcher = Fetching, v1_buffer = [], v1_rcvd = 0, v1_sent = 0, v1_iter = it,
                    v1_shutdown = False, v1_caller = Ready, v1_log = [] \<rparr>
           of (s, Inl e) \<Rightarrow> Inl e | (s, Inr _) \<Rightarrow> Inr s)"

text \<open>\<open>worker_loop_v1\<close>: taking a message, and making a batch; a failing batch ends the process.\<close>

definition worker_take :: "nat \<Rightarrow> 'x v1 \<Rightarrow> 'x v1 option" where
  "worker_take i s =
     (if i < length (v1_workers s) \<and> v1_workers s ! i = Listening
      then case key_queue s of
             [] \<Rightarrow> None
           | m # q \<Rightarrow>
               Some (s\<lparr> key_queue := q,
                        v1_workers := (v1_workers s)[i := (case m of Job k r \<Rightarrow> Working k r | Quit \<Rightarrow> Exited)] \<rparr>)
      else None)"

definition worker_finish :: "(int list \<Rightarrow> 'x batch result) \<Rightarrow> nat \<Rightarrow> 'x v1 \<Rightarrow> 'x v1 option" where
  "worker_finish fetch i s =
     (if i < length (v1_workers s)
      then case v1_workers s ! i of
             Working k r \<Rightarrow>
               Some (case fetch r of
                       Inr b \<Rightarrow> s\<lparr> data_queue := data_queue s @ [Result k b],
                                   v1_workers := (v1_workers s)[i := Listening] \<rparr>
                     | Inl e \<Rightarrow> s\<lparr> v1_workers := (v1_workers s)[i := Died k] \<rparr>)
           | _ \<Rightarrow> None
      else None)"

text \<open>\<open>fetcher_loop_v1\<close>.\<close>

definition fetcher_take :: "'x v1 \<Rightarrow> 'x v1 option" where
  "fetcher_take s =
     (case (v1_fetcher s, data_queue s) of
        (Fetching, m # q) \<Rightarrow>
          Some (s\<lparr> data_queue := q,
                   v1_fetcher := (case m of Result k b \<Rightarrow> Storing k b | QuitFetcher \<Rightarrow> FetcherExited) \<rparr>)
      | _ \<Rightarrow> None)"

definition fetcher_store :: "'x v1 \<Rightarrow> 'x v1 option" where
  "fetcher_store s =
     (case v1_fetcher s of
        Storing k b \<Rightarrow> Some (s\<lparr> v1_buffer := AList.update k b (v1_buffer s), v1_fetcher := Fetching \<rparr>)
      | _ \<Rightarrow> None)"

text \<open>The caller: the beginning of \<open>__next__\<close> and of \<open>shutdown\<close>, and their second halves.\<close>

definition v1_call_next :: "'x v1 \<Rightarrow> 'x v1 option" where
  "v1_call_next s =
     (if v1_caller s \<noteq> Ready then None
      else Some
        (if v1_shutdown s then s\<lparr> v1_log := v1_log s @ [Inl AssertionError] \<rparr>
         else if v1_rcvd s = v1_sent s
         then if v1_buffer s \<noteq> [] then s\<lparr> v1_log := v1_log s @ [Inl AssertionError] \<rparr>
              else s\<lparr> data_queue := data_queue s @ [QuitFetcher], v1_caller := Joining True \<rparr>
         else s\<lparr> v1_caller := Spinning \<rparr>))"

definition v1_call_shutdown :: "'x v1 \<Rightarrow> 'x v1 option" where
  "v1_call_shutdown s =
     (if v1_caller s \<noteq> Ready then None
      else Some (if v1_shutdown s then s
                 else s\<lparr> data_queue := data_queue s @ [QuitFetcher], v1_caller := Joining False \<rparr>))"

definition terminate_worker :: "v1_worker \<Rightarrow> v1_worker" where
  "terminate_worker w = (case w of Died k \<Rightarrow> Died k | _ \<Rightarrow> Exited)"

definition v1_continue :: "'x v1 \<Rightarrow> 'x v1 option" where
  "v1_continue s =
     (case v1_caller s of
        Ready \<Rightarrow> None
      | Spinning \<Rightarrow>
          (case map_of (v1_buffer s) (v1_rcvd s) of
             None \<Rightarrow> None
           | Some batch \<Rightarrow>
               (case v1_push (s\<lparr> v1_buffer := AList.delete (v1_rcvd s) (v1_buffer s), v1_rcvd := v1_rcvd s + 1 \<rparr>) of
                  (s', r) \<Rightarrow>
                    Some (s'\<lparr> v1_caller := Ready,
                              v1_log := v1_log s' @ [case r of Inl e \<Rightarrow> Inl e | Inr _ \<Rightarrow> Inr batch] \<rparr>)))
      | Joining at_end \<Rightarrow>
          if v1_fetcher s = FetcherExited
          then Some (s\<lparr> key_queue := key_queue s @ replicate (length (v1_workers s)) Quit,
                        v1_workers := map terminate_worker (v1_workers s), v1_shutdown := True,
                        v1_caller := Ready, v1_log := v1_log s @ (if at_end then [Inl StopIteration] else []) \<rparr>)
          else None)"

datatype v1_action =
  WorkerTake nat | WorkerFinish nat | FetcherTake | FetcherStore | CallNext | CallShutdown | Continue

fun v1_step :: "(int list \<Rightarrow> 'x batch result) \<Rightarrow> v1_action \<Rightarrow> 'x v1 \<Rightarrow> 'x v1 option" where
  "v1_step fetch (WorkerTake i) s = worker_take i s"
| "v1_step fetch (WorkerFinish i) s = worker_finish fetch i s"
| "v1_step fetch FetcherTake s = fetcher_take s"
| "v1_step fetch FetcherStore s = fetcher_store s"
| "v1_step fetch CallNext s = v1_call_next s"
| "v1_step fetch CallShutdown s = v1_call_shutdown s"
| "v1_step fetch Continue s = v1_continue s"

inductive v1_reach ::
  "(int list \<Rightarrow> 'x batch result) \<Rightarrow> int \<Rightarrow> int list list \<Rightarrow> 'x v1 \<Rightarrow> bool"
  for fetch n R where
  v1_start: "v1_init n (R, None) = Inr s \<Longrightarrow> v1_reach fetch n R s"
| v1_more: "v1_reach fetch n R s \<Longrightarrow> v1_step fetch a s = Some t \<Longrightarrow> v1_reach fetch n R t"

text \<open>\<open>DataLoaderV1.__iter__\<close>: the batches made in the calling process, or the iterator over the workers.\<close>

definition DataLoaderV1_iter ::
  "(int list \<Rightarrow> int list) \<Rightarrow> 'x data_loader_v1 \<Rightarrow> ('x batch list \<times> exn option) + 'x v1 result" where
  "DataLoaderV1_iter shuffle dl =
     (if dl_num_workers dl = 0
      then Inl (same_process_iter (worker_fn (dl_dataset dl) (dl_batchify_fn dl)) (loader_batches shuffle dl))
      else Inr (v1_init (dl_num_workers dl) (loader_batches shuffle dl)))"

section \<open>Jobs in flight\<close>

fun key_id :: "key_msg \<Rightarrow> nat list" where
  "key_id (Job k r) = [k]"
| "key_id Quit = []"

fun worker_id :: "v1_worker \<Rightarrow> nat list" where
  "worker_id (Working k r) = [k]"
| "worker_id (Died k) = [k]"
| "worker_id w = []"

fun data_id :: "'x data_msg \<Rightarrow> nat list" where
  "data_id (Result k b) = [k]"
| "data_id QuitFetcher = []"

fun fetcher_id :: "'x v1_fetcher \<Rightarrow> nat list" where
  "fetcher_id (Storing k b) = [k]"
| "fetcher_id f = []"

definition in_flight :: "'x v1 \<Rightarrow> nat multiset" where
  "in_flight s =
     mset (concat (map key_id (key_queue s))) + mset (concat (map worker_id (v1_workers s)))
     + mset (concat (map data_id (data_queue s))) + mset (fetcher_id (v1_fetcher s))
     + mset (map fst (v1_buffer s))"

lemma mset_concat_update:
  "i < length ws \<Longrightarrow> mset (concat (map f (ws[i := w]))) + mset (f (ws ! i)) = mset (concat (map f ws)) + mset (f w)"
proof (induction ws arbitrary: i)
  case (Cons v ws)
  then show ?case by (cases i) (auto simp: ac_simps)
qed simp

lemma set_alist_update: "set (AList.update k v xs) \<subseteq> insert (k, v) (set xs)"
  by (induction xs) auto

lemma mset_alist_delete:
  assumes "map_of xs k = Some v" and "distinct (map fst xs)"
  shows "mset (map fst xs) = add_mset k (mset (map fst (AList.delete k xs)))"
  using assms
proof (induction xs)
  case (Cons x xs)
  show ?case
  proof (cases "fst x = k")
    case True
    then have "k \<notin> fst ` set xs" using Cons.prems(2) by auto
    then show ?thesis using True by (simp add: AList.delete_idem)
  next
    case False
    then show ?thesis using Cons by (auto simp: add_mset_commute split: if_splits)
  qed
qed simp

section \<open>Invariants\<close>

text \<open>Every message, worker and stored batch belongs to the batch of indices with its number.\<close>

definition payload_ok :: "(int list \<Rightarrow> 'x batch result) \<Rightarrow> int list list \<Rightarrow> 'x v1 \<Rightarrow> bool" where
  "payload_ok fetch R s \<longleftrightarrow>
     (\<forall>k r. Job k r \<in> set (key_queue s) \<or> Working k r \<in> set (v1_workers s) \<longrightarrow> r = R ! k)
     \<and> (\<forall>k. Died k \<in> set (v1_workers s) \<longrightarrow> (\<exists>e. fetch (R ! k) = Inl e))
     \<and> (\<forall>k b. Result k b \<in> set (data_queue s) \<or> v1_fetcher s = Storing k b \<or> (k, b) \<in> set (v1_buffer s)
          \<longrightarrow> fetch (R ! k) = Inr b)"

text \<open>The counters, and who has been told to stop.\<close>

definition control_ok :: "nat \<Rightarrow> int list list \<Rightarrow> 'x v1 \<Rightarrow> bool" where
  "control_ok n R s \<longleftrightarrow>
     0 < n \<and> length (v1_workers s) = n
     \<and> v1_rcvd s \<le> length R \<and> v1_sent s = min (v1_rcvd s + 2 * n) (length R)
     \<and> v1_iter s = (drop (v1_sent s) R, None)
     \<and> (v1_caller s = Spinning \<longrightarrow> v1_rcvd s < length R)
     \<and> (v1_caller s = Joining True \<longrightarrow> v1_rcvd s = length R)
     \<and> (v1_caller s \<noteq> Ready \<longrightarrow> \<not> v1_shutdown s)
     \<and> (\<not> v1_shutdown s \<longrightarrow> Quit \<notin> set (key_queue s) \<and> Exited \<notin> set (v1_workers s))
     \<and> (if v1_shutdown s then v1_fetcher s = FetcherExited
        else if v1_caller s \<in> {Ready, Spinning} then QuitFetcher \<notin> set (data_queue s) \<and> v1_fetcher s \<noteq> FetcherExited
        else QuitFetcher \<in> set (data_queue s) \<or> v1_fetcher s = FetcherExited)"

text \<open>The batches handed out and not yet delivered are each in exactly one place.\<close>

definition flight_ok :: "'x v1 \<Rightarrow> bool" where
  "flight_ok s \<longleftrightarrow> (\<not> v1_shutdown s \<longrightarrow> in_flight s = mset [v1_rcvd s..<v1_sent s])"

text \<open>The results of the calls: the batches in order, and only after the shutdown the end or errors.\<close>

definition log_ok :: "(int list \<Rightarrow> 'x batch result) \<Rightarrow> int list list \<Rightarrow> 'x v1 \<Rightarrow> bool" where
  "log_ok fetch R s \<longleftrightarrow>
     (\<forall>r \<in> set (take (v1_rcvd s) R). \<exists>b. fetch r = Inr b) \<and>
     (\<exists>tail. v1_log s = map fetch (take (v1_rcvd s) R) @ tail
        \<and> set tail \<subseteq> {Inl StopIteration, Inl AssertionError} \<and> (tail \<noteq> [] \<longrightarrow> v1_shutdown s)
        \<and> (Inl StopIteration \<in> set tail \<longrightarrow> v1_rcvd s = length R))"

lemmas v1_step_defs = worker_take_def worker_finish_def fetcher_take_def fetcher_store_def v1_call_next_def
  v1_call_shutdown_def

lemmas v1_splits = if_splits list.splits option.splits sum.splits key_msg.splits data_msg.splits v1_worker.splits
  v1_fetcher.splits

lemma worker_take_payload: "worker_take i s = Some t \<Longrightarrow> payload_ok fetch R s \<Longrightarrow> payload_ok fetch R t"
  by (auto simp: worker_take_def payload_ok_def split: v1_splits dest!: subsetD [OF set_update_subset_insert])

lemma worker_finish_payload: "worker_finish fetch i s = Some t \<Longrightarrow> payload_ok fetch R s \<Longrightarrow> payload_ok fetch R t"
  by (auto simp: worker_finish_def payload_ok_def split: v1_splits dest!: subsetD [OF set_update_subset_insert])
    (metis nth_mem)+

lemma fetcher_payload:
  "fetcher_take s = Some t \<Longrightarrow> payload_ok fetch R s \<Longrightarrow> payload_ok fetch R t"
  "fetcher_store s = Some t \<Longrightarrow> payload_ok fetch R s \<Longrightarrow> payload_ok fetch R t"
  by (auto simp: fetcher_take_def fetcher_store_def payload_ok_def split: v1_splits
      dest!: subsetD [OF set_alist_update])

lemma caller_payload:
  "v1_call_next s = Some t \<Longrightarrow> payload_ok fetch R s \<Longrightarrow> payload_ok fetch R t"
  "v1_call_shutdown s = Some t \<Longrightarrow> payload_ok fetch R s \<Longrightarrow> payload_ok fetch R t"
  by (auto simp: v1_call_next_def v1_call_shutdown_def payload_ok_def split: v1_splits)

lemma worker_takeE:
  assumes "worker_take i s = Some t"
  obtains m q w where "i < length (v1_workers s)" "v1_workers s ! i = Listening" "key_queue s = m # q"
    "w = (case m of Job k r \<Rightarrow> Working k r | Quit \<Rightarrow> Exited)"
    "t = s\<lparr> key_queue := q, v1_workers := (v1_workers s)[i := w] \<rparr>"
  using assms by (auto simp: worker_take_def split: if_splits list.splits)

lemma worker_finishE:
  assumes "worker_finish fetch i s = Some t"
  obtains (finished) k r b where "i < length (v1_workers s)" "v1_workers s ! i = Working k r" "fetch r = Inr b"
      "t = s\<lparr> data_queue := data_queue s @ [Result k b], v1_workers := (v1_workers s)[i := Listening] \<rparr>"
  | (failed) k r e where "i < length (v1_workers s)" "v1_workers s ! i = Working k r" "fetch r = Inl e"
      "t = s\<lparr> v1_workers := (v1_workers s)[i := Died k] \<rparr>"
  using assms by (auto simp: worker_finish_def split: if_splits v1_worker.splits sum.splits)

lemma not_in_update: "x \<notin> set xs \<Longrightarrow> x \<noteq> y \<Longrightarrow> x \<notin> set (xs[i := y])"
  using set_update_subset_insert by fastforce

lemma worker_take_control:
  assumes "worker_take i s = Some t" "control_ok n R s"
  shows "control_ok n R t"
  using assms(1)
proof (rule worker_takeE)
  fix m q w
  assume q: "key_queue s = m # q" and w: "w = (case m of Job k r \<Rightarrow> Working k r | Quit \<Rightarrow> Exited)"
    and t: "t = s\<lparr> key_queue := q, v1_workers := (v1_workers s)[i := w] \<rparr>"
  show ?thesis
  proof (cases m)
    case (Job k r)
    then show ?thesis using assms(2) by (simp add: control_ok_def t q w not_in_update)
  next
    case Quit
    then have "v1_shutdown s" using assms(2) by (auto simp: control_ok_def q)
    then show ?thesis using assms(2) by (simp add: control_ok_def t)
  qed
qed

lemma worker_finish_control: "worker_finish fetch i s = Some t \<Longrightarrow> control_ok n R s \<Longrightarrow> control_ok n R t"
  by (erule worker_finishE) (simp_all add: control_ok_def not_in_update)

lemma fetcher_takeE:
  assumes "fetcher_take s = Some t"
  obtains (result) k b q where "v1_fetcher s = Fetching" "data_queue s = Result k b # q"
      "t = s\<lparr> data_queue := q, v1_fetcher := Storing k b \<rparr>"
  | (quit) q where "v1_fetcher s = Fetching" "data_queue s = QuitFetcher # q"
      "t = s\<lparr> data_queue := q, v1_fetcher := FetcherExited \<rparr>"
  using assms by (auto simp: fetcher_take_def split: v1_fetcher.splits list.splits data_msg.splits)

lemma fetcher_storeE:
  assumes "fetcher_store s = Some t"
  obtains k b where "v1_fetcher s = Storing k b"
    "t = s\<lparr> v1_buffer := AList.update k b (v1_buffer s), v1_fetcher := Fetching \<rparr>"
  using assms by (auto simp: fetcher_store_def split: v1_fetcher.splits)

lemma fetcher_take_control:
  assumes "fetcher_take s = Some t" "control_ok n R s"
  shows "control_ok n R t"
proof -
  have sd: "\<not> v1_shutdown s" if "v1_fetcher s = Fetching" using assms(2) that by (simp add: control_ok_def split: if_splits)
  from assms(1) show ?thesis
  proof (cases rule: fetcher_takeE)
    case (result k b q)
    then show ?thesis using assms(2) sd by (cases "v1_caller s") (simp_all add: control_ok_def)
  next
    case (quit q)
    then show ?thesis using assms(2) sd by (cases "v1_caller s") (simp_all add: control_ok_def)
  qed
qed

lemma fetcher_store_control: "fetcher_store s = Some t \<Longrightarrow> control_ok n R s \<Longrightarrow> control_ok n R t"
  by (erule fetcher_storeE) (cases "v1_shutdown s"; cases "v1_caller s"; simp add: control_ok_def)

lemma control_all_sent: "control_ok n R s \<Longrightarrow> v1_rcvd s = v1_sent s \<longleftrightarrow> v1_rcvd s = length R"
  by (auto simp: control_ok_def min_def)

lemma v1_call_nextE:
  assumes "v1_call_next s = Some t"
  obtains (late) "v1_shutdown s \<or> v1_rcvd s = v1_sent s \<and> v1_buffer s \<noteq> []"
      "t = s\<lparr> v1_log := v1_log s @ [Inl AssertionError] \<rparr>"
  | (finish) "v1_caller s = Ready" "\<not> v1_shutdown s" "v1_rcvd s = v1_sent s"
      "t = s\<lparr> data_queue := data_queue s @ [QuitFetcher], v1_caller := Joining True \<rparr>"
  | (wait) "v1_caller s = Ready" "\<not> v1_shutdown s" "v1_rcvd s \<noteq> v1_sent s" "t = s\<lparr> v1_caller := Spinning \<rparr>"
  using assms by (auto simp: v1_call_next_def split: if_splits)

lemma v1_call_next_control:
  assumes "v1_call_next s = Some t" "control_ok n R s"
  shows "control_ok n R t"
  using assms(1)
proof (cases rule: v1_call_nextE)
  case late
  then show ?thesis using assms(2) by (simp add: control_ok_def)
next
  case finish
  then have "v1_rcvd s = length R" using control_all_sent [OF assms(2)] by simp
  then show ?thesis using assms(2) finish(1,2) by (simp add: control_ok_def finish(4))
next
  case wait
  then have "v1_rcvd s \<noteq> length R" using control_all_sent [OF assms(2)] by simp
  then show ?thesis using assms(2) wait(1,2) by (simp add: control_ok_def wait(4))
qed

lemma v1_call_shutdown_control:
  assumes "v1_call_shutdown s = Some t" "control_ok n R s"
  shows "control_ok n R t"
proof (cases "v1_shutdown s")
  case True
  then show ?thesis using assms by (simp add: v1_call_shutdown_def split: if_splits)
next
  case False
  then have "v1_caller s = Ready" "t = s\<lparr> data_queue := data_queue s @ [QuitFetcher], v1_caller := Joining False \<rparr>"
    using assms(1) by (auto simp: v1_call_shutdown_def split: if_splits)
  then show ?thesis using assms(2) False by (simp add: control_ok_def)
qed

lemma flight_distinct:
  assumes "flight_ok s" "\<not> v1_shutdown s"
  shows "distinct (fetcher_id (v1_fetcher s) @ map fst (v1_buffer s))"
proof -
  let ?L = "concat (map key_id (key_queue s)) @ concat (map worker_id (v1_workers s))
    @ concat (map data_id (data_queue s)) @ fetcher_id (v1_fetcher s) @ map fst (v1_buffer s)"
  have "mset ?L = mset [v1_rcvd s..<v1_sent s]"
    using assms by (simp add: flight_ok_def in_flight_def ac_simps del: mset_concat)
  then have "distinct ?L" using mset_eq_imp_distinct_iff distinct_upt by blast
  then show ?thesis by simp
qed

lemma worker_take_flight:
  assumes "worker_take i s = Some t" "flight_ok s"
  shows "flight_ok t"
  using assms(1)
proof (rule worker_takeE)
  fix m q w
  assume i: "i < length (v1_workers s)" "v1_workers s ! i = Listening" and q: "key_queue s = m # q"
    and w: "w = (case m of Job k r \<Rightarrow> Working k r | Quit \<Rightarrow> Exited)"
    and t: "t = s\<lparr> key_queue := q, v1_workers := (v1_workers s)[i := w] \<rparr>"
  have "in_flight t = in_flight s"
    using mset_concat_update [OF i(1), of worker_id w] i(2)
    by (cases m) (simp_all add: in_flight_def t q w ac_simps del: mset_concat)
  then show ?thesis using assms(2) by (simp add: flight_ok_def t)
qed

lemma worker_finish_flight:
  assumes "worker_finish fetch i s = Some t" "flight_ok s"
  shows "flight_ok t"
  using assms(1)
proof (cases rule: worker_finishE)
  case (finished k r b)
  have "in_flight t = in_flight s"
    using mset_concat_update [OF finished(1), of worker_id Listening] finished(2)
    by (simp add: in_flight_def finished(4) ac_simps del: mset_concat)
  then show ?thesis using assms(2) by (simp add: flight_ok_def finished(4))
next
  case (failed k r e)
  have "in_flight t = in_flight s"
    using mset_concat_update [OF failed(1), of worker_id "Died k"] failed(2)
    by (simp add: in_flight_def failed(4) del: mset_concat)
  then show ?thesis using assms(2) by (simp add: flight_ok_def failed(4))
qed

lemma fetcher_take_flight: "fetcher_take s = Some t \<Longrightarrow> flight_ok s \<Longrightarrow> flight_ok t"
  by (erule fetcher_takeE) (simp_all add: flight_ok_def in_flight_def)

lemma fetcher_store_flight:
  assumes "fetcher_store s = Some t" "flight_ok s" "control_ok n R s"
  shows "flight_ok t"
proof -
  from assms(1) obtain k b where f: "v1_fetcher s = Storing k b"
    and t: "t = s\<lparr> v1_buffer := AList.update k b (v1_buffer s), v1_fetcher := Fetching \<rparr>"
    by (auto simp: fetcher_store_def split: v1_fetcher.splits)
  have sd: "\<not> v1_shutdown s" using assms(3) f by (auto simp: control_ok_def)
  then have "k \<notin> fst ` set (v1_buffer s)" using flight_distinct [OF assms(2)] by (simp add: f)
  then have "in_flight t = in_flight s" by (simp add: in_flight_def t f update_fresh)
  then show ?thesis using assms(2) by (simp add: flight_ok_def t)
qed

lemma caller_flight:
  "v1_call_next s = Some t \<Longrightarrow> flight_ok s \<Longrightarrow> flight_ok t"
  "v1_call_shutdown s = Some t \<Longrightarrow> flight_ok s \<Longrightarrow> flight_ok t"
  by (auto simp: v1_call_next_def v1_call_shutdown_def flight_ok_def in_flight_def split: v1_splits)

lemma v1_push_eq:
  assumes "v1_iter s = (drop (v1_sent s) R, None)"
  shows "v1_push s =
    (if v1_sent s < length R
     then s\<lparr> v1_iter := (drop (Suc (v1_sent s)) R, None), key_queue := key_queue s @ [Job (v1_sent s) (R ! v1_sent s)],
             v1_sent := v1_sent s + 1 \<rparr>
     else s, Inr ())"
  using assms by (cases "v1_sent s < length R") (simp_all add: v1_push_def Cons_nth_drop_Suc [symmetric])

lemma v1_continueE:
  assumes "v1_continue s = Some t" "control_ok n R s"
  obtains (spin) b u where "v1_caller s = Spinning" "map_of (v1_buffer s) (v1_rcvd s) = Some b"
      "u = s\<lparr> v1_buffer := AList.delete (v1_rcvd s) (v1_buffer s), v1_rcvd := v1_rcvd s + 1,
              v1_caller := Ready, v1_log := v1_log s @ [Inr b] \<rparr>"
      "t = (if v1_sent s < length R
            then u\<lparr> v1_iter := (drop (Suc (v1_sent s)) R, None),
                    key_queue := key_queue s @ [Job (v1_sent s) (R ! v1_sent s)], v1_sent := v1_sent s + 1 \<rparr>
            else u)"
  | (join) at_end where "v1_caller s = Joining at_end" "v1_fetcher s = FetcherExited"
      "t = s\<lparr> key_queue := key_queue s @ replicate (length (v1_workers s)) Quit,
              v1_workers := map terminate_worker (v1_workers s), v1_shutdown := True,
              v1_caller := Ready, v1_log := v1_log s @ (if at_end then [Inl StopIteration] else []) \<rparr>"
proof (cases "v1_caller s")
  case Ready
  with assms(1) show thesis by (simp add: v1_continue_def)
next
  case Spinning
  from assms(1) Spinning obtain b where b: "map_of (v1_buffer s) (v1_rcvd s) = Some b"
    by (auto simp: v1_continue_def split: option.splits)
  have "v1_iter s = (drop (v1_sent s) R, None)" using assms(2) by (simp add: control_ok_def)
  then show thesis using assms(1) Spinning b
    by (intro spin [OF Spinning b refl]) (auto simp: v1_continue_def v1_push_eq split: if_splits)
next
  case (Joining at_end)
  with assms(1) show thesis by (intro join [of at_end]) (auto simp: v1_continue_def split: if_splits)
qed

lemma v1_continue_payload:
  assumes "v1_continue s = Some t" "control_ok n R s" "payload_ok fetch R s"
  shows "payload_ok fetch R t"
  using assms(1,2)
proof (cases rule: v1_continueE)
  case (spin b u)
  have "set (AList.delete (v1_rcvd s) (v1_buffer s)) \<subseteq> set (v1_buffer s)" by (auto simp: AList.delete_eq)
  then show ?thesis using assms(3) unfolding payload_ok_def spin(3,4) by auto
next
  case (join at_end)
  have "Working k r \<notin> terminate_worker ` set (v1_workers s)"
    "Died k \<in> terminate_worker ` set (v1_workers s) \<Longrightarrow> Died k \<in> set (v1_workers s)" for k r
    by (auto simp: terminate_worker_def split: v1_worker.splits)
  then show ?thesis using assms(3) unfolding payload_ok_def join(3) by auto
qed

lemma v1_continue_control:
  assumes "v1_continue s = Some t" "control_ok n R s"
  shows "control_ok n R t"
  using assms
proof (cases rule: v1_continueE)
  case (spin b u)
  have "\<not> v1_shutdown s" "v1_rcvd s < length R" "v1_sent s = min (v1_rcvd s + 2 * n) (length R)"
    using assms(2) spin(1) by (simp_all add: control_ok_def)
  then show ?thesis using assms(2) spin(1) unfolding spin(4)
    by (cases "v1_sent s < length R") (simp_all add: control_ok_def spin(3))
next
  case (join at_end)
  then show ?thesis using assms(2) by (simp add: control_ok_def)
qed

lemma v1_continue_flight:
  assumes "v1_continue s = Some t" "control_ok n R s" "flight_ok s"
  shows "flight_ok t"
  using assms(1,2)
proof (cases rule: v1_continueE)
  case (spin b u)
  have sd: "\<not> v1_shutdown s" using assms(2) spin(1) by (simp add: control_ok_def)
  have lt: "v1_rcvd s < v1_sent s" using assms(2) spin(1) by (auto simp: control_ok_def min_def)
  have d: "distinct (map fst (v1_buffer s))" using flight_distinct [OF assms(3) sd] by simp
  have "add_mset (v1_rcvd s) (in_flight u) = in_flight s"
    using mset_alist_delete [OF spin(2) d] by (simp add: in_flight_def spin(3) del: mset_map)
  also have "in_flight s = add_mset (v1_rcvd s) (mset [Suc (v1_rcvd s)..<v1_sent s])"
    using assms(3) sd lt by (simp add: flight_ok_def upt_conv_Cons)
  finally have u: "in_flight u = mset [Suc (v1_rcvd s)..<v1_sent s]" by simp
  show ?thesis
  proof (cases "v1_sent s < length R")
    case True
    then have "in_flight t = add_mset (v1_sent s) (in_flight u)" by (simp add: in_flight_def spin(3,4))
    then show ?thesis using u lt True by (simp add: flight_ok_def spin(3,4))
  next
    case False
    then show ?thesis using u by (simp add: flight_ok_def spin(3,4))
  qed
next
  case (join at_end)
  then show ?thesis by (simp add: flight_ok_def)
qed

lemma v1_continue_log:
  assumes "v1_continue s = Some t" "control_ok n R s" "payload_ok fetch R s" "log_ok fetch R s"
  shows "log_ok fetch R t"
  using assms(1,2)
proof (cases rule: v1_continueE)
  case (spin b u)
  have c: "\<not> v1_shutdown s" "v1_rcvd s < length R" using assms(2) spin(1) by (simp_all add: control_ok_def)
  then have log: "v1_log s = map fetch (take (v1_rcvd s) R)" using assms(4) by (auto simp: log_ok_def)
  have "fetch (R ! v1_rcvd s) = Inr b" using assms(3) map_of_SomeD [OF spin(2)] by (simp add: payload_ok_def)
  then show ?thesis using assms(4) c(2) log unfolding spin(4)
    by (simp add: log_ok_def spin(3) take_Suc_conv_app_nth)
next
  case (join at_end)
  have c: "\<not> v1_shutdown s" "at_end \<Longrightarrow> v1_rcvd s = length R"
    using assms(2) join(1) by (simp_all add: control_ok_def)
  then have "v1_log s = map fetch (take (v1_rcvd s) R)" using assms(4) by (auto simp: log_ok_def)
  then show ?thesis using assms(4) c(2) by (auto simp: log_ok_def join(3))
qed

lemma flight_end:
  assumes "control_ok n R s" "flight_ok s" "\<not> v1_shutdown s" "v1_rcvd s = v1_sent s"
  shows "v1_buffer s = []"
  using assms by (simp add: flight_ok_def in_flight_def)

lemma v1_call_log:
  assumes "control_ok n R s" "flight_ok s" "log_ok fetch R s"
  shows "v1_call_next s = Some t \<Longrightarrow> log_ok fetch R t" "v1_call_shutdown s = Some t \<Longrightarrow> log_ok fetch R t"
proof -
  show "log_ok fetch R t" if "v1_call_shutdown s = Some t"
    using that assms(3) by (auto simp: v1_call_shutdown_def log_ok_def split: if_splits)
  assume t: "v1_call_next s = Some t"
  show "log_ok fetch R t"
  proof (cases "v1_shutdown s")
    case True
    from assms(3) obtain tl where l: "v1_log s = map fetch (take (v1_rcvd s) R) @ tl"
      "set tl \<subseteq> {Inl StopIteration, Inl AssertionError}" "Inl StopIteration \<in> set tl \<longrightarrow> v1_rcvd s = length R"
      by (auto simp: log_ok_def)
    have "t = s\<lparr> v1_log := v1_log s @ [Inl AssertionError] \<rparr>" using t True by (simp add: v1_call_next_def split: if_splits)
    then show ?thesis using l True assms(3)
      by (auto simp: log_ok_def intro!: exI [of _ "tl @ [Inl AssertionError]"])
  next
    case False
    then show ?thesis using t assms(3) flight_end [OF assms(1,2)]
      by (auto simp: v1_call_next_def log_ok_def split: if_splits)
  qed
qed

lemma v1_internal_log:
  assumes "log_ok fetch R s"
  shows "worker_take i s = Some t \<Longrightarrow> log_ok fetch R t" "worker_finish fetch i s = Some t \<Longrightarrow> log_ok fetch R t"
    "fetcher_take s = Some t \<Longrightarrow> log_ok fetch R t" "fetcher_store s = Some t \<Longrightarrow> log_ok fetch R t"
  using assms
  by (auto elim!: worker_takeE worker_finishE fetcher_takeE fetcher_storeE simp: log_ok_def)

definition v1_inv :: "(int list \<Rightarrow> 'x batch result) \<Rightarrow> nat \<Rightarrow> int list list \<Rightarrow> 'x v1 \<Rightarrow> bool" where
  "v1_inv fetch n R s \<longleftrightarrow> payload_ok fetch R s \<and> control_ok n R s \<and> flight_ok s \<and> log_ok fetch R s"

lemma v1_step_inv:
  assumes "v1_step fetch a s = Some t" "v1_inv fetch n R s"
  shows "v1_inv fetch n R t"
proof (cases a)
  case (WorkerTake i)
  then show ?thesis using assms worker_take_payload worker_take_control worker_take_flight v1_internal_log(1)
    by (metis v1_inv_def v1_step.simps(1))
next
  case (WorkerFinish i)
  then show ?thesis using assms worker_finish_payload worker_finish_control worker_finish_flight v1_internal_log(2)
    by (metis v1_inv_def v1_step.simps(2))
next
  case FetcherTake
  then show ?thesis using assms fetcher_payload(1) fetcher_take_control fetcher_take_flight v1_internal_log(3)
    by (metis v1_inv_def v1_step.simps(3))
next
  case FetcherStore
  then show ?thesis using assms fetcher_payload(2) fetcher_store_control fetcher_store_flight v1_internal_log(4)
    by (metis v1_inv_def v1_step.simps(4))
next
  case CallNext
  then show ?thesis using assms caller_payload(1) v1_call_next_control caller_flight(1) v1_call_log(1)
    by (metis v1_inv_def v1_step.simps(5))
next
  case CallShutdown
  then show ?thesis using assms caller_payload(2) v1_call_shutdown_control caller_flight(2) v1_call_log(2)
    by (metis v1_inv_def v1_step.simps(6))
next
  case Continue
  then show ?thesis using assms v1_continue_payload v1_continue_control v1_continue_flight v1_continue_log
    by (metis v1_inv_def v1_step.simps(7))
qed

lemma v1_push_times_eq:
  assumes "v1_iter s = (drop (v1_sent s) R, None)" "v1_sent s \<le> length R"
  shows "v1_push_times n s =
    (s\<lparr> v1_iter := (drop (min (v1_sent s + n) (length R)) R, None),
        key_queue := key_queue s @ map (\<lambda>k. Job k (R ! k)) [v1_sent s..<min (v1_sent s + n) (length R)],
        v1_sent := min (v1_sent s + n) (length R) \<rparr>, Inr ())"
  using assms
proof (induction n arbitrary: s)
  case 0
  then show ?case by (simp add: min_absorb1)
next
  case (Suc n)
  show ?case
  proof (cases "v1_sent s < length R")
    case True
    then show ?thesis using Suc by (simp add: v1_push_eq [where R = R] upt_conv_Cons)
  next
    case False
    then show ?thesis using Suc by (simp add: v1_push_eq [where R = R])
  qed
qed

lemma v1_init_inv:
  assumes "v1_init n (R, None) = Inr s"
  shows "v1_inv fetch (nat n) R s"
proof -
  let ?m = "min (2 * nat n) (length R)"
  have n: "0 < n" using assms by (simp add: v1_init_def split: if_splits)
  have s: "s = \<lparr> key_queue = map (\<lambda>k. Job k (R ! k)) [0..<?m], data_queue = [],
      v1_workers = replicate (nat n) Listening, v1_fetcher = Fetching, v1_buffer = [], v1_rcvd = 0, v1_sent = ?m,
      v1_iter = (drop ?m R, None), v1_shutdown = False, v1_caller = Ready, v1_log = [] \<rparr>"
    using assms n by (simp add: v1_init_def v1_push_times_eq [where R = R])
  have ids: "concat (map (key_id \<circ> (\<lambda>k. Job k (R ! k))) ks) = ks" for ks by (induction ks) simp_all
  have "concat (map worker_id (replicate k Listening)) = []" for k by simp
  then have "flight_ok s" using ids [of "[0..<?m]"] by (simp add: flight_ok_def in_flight_def s del: mset_concat)
  moreover have "payload_ok fetch R s" by (auto simp: payload_ok_def s)
  moreover have "control_ok (nat n) R s" using n by (auto simp: control_ok_def s)
  moreover have "log_ok fetch R s" by (simp add: log_ok_def s)
  ultimately show ?thesis by (simp add: v1_inv_def)
qed

lemma v1_reach_inv: "v1_reach fetch n R s \<Longrightarrow> v1_inv fetch (nat n) R s"
  by (induction rule: v1_reach.induct) (auto intro: v1_init_inv v1_step_inv)

section \<open>Properties\<close>

text \<open>
  C12.  Whatever the interleaving of the workers, the fetcher and the caller, the calls of \<open>__next__\<close> return the
  batches of the sampler in order, each made from its own indices: the results so far are the first
  \<open>_rcvd_idx\<close> batches, then, only after the shutdown, the end of the iteration or errors.  The iteration ends
  only when every batch was delivered, and no call before the shutdown fails an assertion.
\<close>

theorem MultiWorkerIterV1_ordered:
  assumes "v1_reach fetch n R s"
  shows "(\<forall>r \<in> set (take (v1_rcvd s) R). \<exists>b. fetch r = Inr b) \<and>
    (\<exists>tail. v1_log s = map fetch (take (v1_rcvd s) R) @ tail
       \<and> set tail \<subseteq> {Inl StopIteration, Inl AssertionError} \<and> (tail \<noteq> [] \<longrightarrow> v1_shutdown s)
       \<and> (Inl StopIteration \<in> set tail \<longrightarrow> v1_rcvd s = length R))"
  using v1_reach_inv [OF assms] by (simp add: v1_inv_def log_ok_def)

theorem MultiWorkerIterV1_ordered_witness:
  "\<exists>s. v1_reach (\<lambda>r. Inr (Stack r)) 1 [[4, 5], [6]] s \<and> v1_log s = [Inr (Stack [4, 5]), Inr (Stack [6]), Inl StopIteration]
     \<and> v1_rcvd s = 2"
proof -
  let ?fetch = "\<lambda>r. Inr (Stack r)" and ?R = "[[4, 5], [6]] :: int list list"
  let ?run = "\<lambda>s as. foldl (\<lambda>s a. Option.bind s (v1_step ?fetch a)) (Some s) as"
  have reach: "v1_reach ?fetch n ?R t" if "v1_reach ?fetch n ?R s" "?run s as = Some t" for n s as t
    using that
  proof (induction as arbitrary: t rule: rev_induct)
    case (snoc a as)
    from snoc.prems(2) obtain u where "?run s as = Some u" "v1_step ?fetch a u = Some t"
      by (auto simp: bind_eq_Some_conv)
    then show ?case using snoc.IH snoc.prems(1) by (blast intro: v1_more)
  qed simp
  obtain s0 where s0: "v1_init 1 (?R, None) = Inr s0" and
    run: "\<exists>s. ?run s0 [WorkerTake 0, CallNext, WorkerFinish 0, WorkerTake 0, FetcherTake, FetcherStore, Continue,
      WorkerFinish 0, FetcherTake, FetcherStore, CallNext, Continue, CallNext, FetcherTake, Continue] = Some s
      \<and> v1_log s = [Inr (Stack [4, 5]), Inr (Stack [6]), Inl StopIteration]"
    by (simp add: v1_init_def numeral_2_eq_2 v1_push_def v1_step_defs v1_continue_def)
  then obtain s where s: "v1_reach ?fetch 1 ?R s" "v1_log s = [Inr (Stack [4, 5]), Inr (Stack [6]), Inl StopIteration]"
    using reach [OF v1_start [OF s0]] by blast
  from MultiWorkerIterV1_ordered [OF s(1)] s(2) obtain tail where
    t: "v1_log s = map ?fetch (take (v1_rcvd s) ?R) @ tail" "Inl StopIteration \<in> set tail \<longrightarrow> v1_rcvd s = length ?R"
    by blast
  have "Inl StopIteration \<in> set (v1_log s)" using s(2) by simp
  then have "Inl StopIteration \<in> set tail" unfolding t(1) by auto
  then show ?thesis using s t(2) by auto
qed

text \<open>How many actions the workers and the fetcher still have to do, at most.\<close>

definition v1_pending :: "'x v1 \<Rightarrow> nat" where
  "v1_pending s =
     4 * length (key_queue s) + sum_list (map (\<lambda>w. case w of Working k r \<Rightarrow> 3 | _ \<Rightarrow> 0) (v1_workers s))
     + 2 * length (data_queue s) + (case v1_fetcher s of Storing k b \<Rightarrow> 1 | _ \<Rightarrow> 0)"

fun v1_internal :: "v1_action \<Rightarrow> bool" where
  "v1_internal (WorkerTake i) = True"
| "v1_internal (WorkerFinish i) = True"
| "v1_internal FetcherTake = True"
| "v1_internal FetcherStore = True"
| "v1_internal _ = False"

lemma sum_list_update_add:
  fixes f :: "'a \<Rightarrow> nat"
  shows "i < length ws \<Longrightarrow> sum_list (map f (ws[i := w])) + f (ws ! i) = sum_list (map f ws) + f w"
proof (induction ws arbitrary: i)
  case (Cons v ws)
  then show ?case by (cases i) auto
qed simp

lemma v1_internal_pending:
  assumes "v1_step fetch a s = Some t" "v1_internal a"
  shows "v1_pending t < v1_pending s \<and> v1_caller t = v1_caller s \<and> v1_rcvd t = v1_rcvd s"
proof (cases a)
  case (WorkerTake i)
  with assms(1) have "worker_take i s = Some t" by simp
  then show ?thesis
  proof (rule worker_takeE)
    fix m q w
    assume a: "i < length (v1_workers s)" "v1_workers s ! i = Listening" "key_queue s = m # q"
      "w = (case m of Job k r \<Rightarrow> Working k r | Quit \<Rightarrow> Exited)"
      "t = s\<lparr> key_queue := q, v1_workers := (v1_workers s)[i := w] \<rparr>"
    then show ?thesis using sum_list_update_add [OF a(1), of "\<lambda>w. case w of Working k r \<Rightarrow> 3 | _ \<Rightarrow> 0" w]
      by (cases m) (simp_all add: v1_pending_def)
  qed
next
  case (WorkerFinish i)
  with assms(1) have "worker_finish fetch i s = Some t" by simp
  then show ?thesis
  proof (cases rule: worker_finishE)
    case (finished k r b)
    then show ?thesis using sum_list_update_add [OF finished(1), of "\<lambda>w. case w of Working k r \<Rightarrow> 3 | _ \<Rightarrow> 0" Listening]
      by (simp add: v1_pending_def)
  next
    case (failed k r e)
    then show ?thesis using sum_list_update_add [OF failed(1), of "\<lambda>w. case w of Working k r \<Rightarrow> 3 | _ \<Rightarrow> 0" "Died k"]
      by (simp add: v1_pending_def)
  qed
next
  case FetcherTake
  with assms(1) show ?thesis by (auto elim!: fetcher_takeE simp: v1_pending_def)
next
  case FetcherStore
  with assms(1) show ?thesis by (auto elim!: fetcher_storeE simp: v1_pending_def)
qed (use assms(2) in simp_all)

definition v1_enabled :: "(int list \<Rightarrow> 'x batch result) \<Rightarrow> 'x v1 \<Rightarrow> bool" where
  "v1_enabled fetch s \<longleftrightarrow> (\<exists>a t. (v1_internal a \<or> a = Continue) \<and> v1_step fetch a s = Some t)"

lemma v1_enabledI:
  "v1_step fetch a s = Some t \<Longrightarrow> v1_internal a \<or> a = Continue \<Longrightarrow> v1_enabled fetch s"
  by (auto simp: v1_enabled_def)

lemma fetcher_enabled:
  assumes "v1_fetcher s \<noteq> FetcherExited" "data_queue s \<noteq> [] \<or> fetcher_id (v1_fetcher s) \<noteq> []"
  shows "v1_enabled fetch s"
proof (cases "v1_fetcher s")
  case Fetching
  with assms(2) obtain m q where "data_queue s = m # q" by (cases "data_queue s") auto
  with Fetching show ?thesis by (intro v1_enabledI [where a = FetcherTake]) (simp_all add: fetcher_take_def)
next
  case (Storing k b)
  then show ?thesis by (intro v1_enabledI [where a = FetcherStore]) (simp_all add: fetcher_store_def)
qed (use assms(1) in simp)

lemma worker_enabled:
  assumes "i < length (v1_workers s)"
    and "(\<exists>k r. v1_workers s ! i = Working k r) \<or> v1_workers s ! i = Listening \<and> key_queue s \<noteq> []"
  shows "v1_enabled fetch s"
  using assms(2)
proof (elim disjE exE conjE)
  fix k r
  assume "v1_workers s ! i = Working k r"
  then show ?thesis using assms(1)
    by (intro v1_enabledI [where a = "WorkerFinish i"]) (simp_all add: worker_finish_def)
next
  assume "v1_workers s ! i = Listening" "key_queue s \<noteq> []"
  then show ?thesis using assms(1)
    by (cases "key_queue s") (auto intro!: v1_enabledI [where a = "WorkerTake i"] simp: worker_take_def)
qed

lemma worker_alive:
  assumes "v1_inv fetch n R s" "\<not> v1_shutdown s" "\<forall>r \<in> set R. \<exists>b. fetch r = Inr b" "w \<in> set (v1_workers s)"
  shows "w = Listening \<or> (\<exists>k r. w = Working k r)"
proof (cases w)
  case (Died k)
  have "k \<in> set (concat (map worker_id (v1_workers s)))" using assms(4) Died by force
  then have "k \<in># in_flight s" unfolding in_flight_def by (simp only: set_mset_union set_mset_mset Un_iff) blast
  then have "k < length R" using assms(1,2) by (auto simp: v1_inv_def flight_ok_def control_ok_def)
  moreover have "\<exists>e. fetch (R ! k) = Inl e" using assms(1,4) Died by (auto simp: v1_inv_def payload_ok_def)
  ultimately show ?thesis using assms(3) nth_mem by fastforce
next
  case Exited
  then show ?thesis using assms(1,2,4) by (simp add: v1_inv_def control_ok_def)
qed simp_all

lemma spinning_enabled:
  assumes inv: "v1_inv fetch n R s" and spin: "v1_caller s = Spinning" and all: "\<forall>r \<in> set R. \<exists>b. fetch r = Inr b"
  shows "v1_enabled fetch s"
proof -
  have c: "\<not> v1_shutdown s" "v1_fetcher s \<noteq> FetcherExited" "0 < length (v1_workers s)" "v1_rcvd s < v1_sent s"
    using inv spin by (auto simp: v1_inv_def control_ok_def)
  then have "v1_rcvd s \<in># in_flight s" using inv by (simp add: v1_inv_def flight_ok_def)
  then consider "key_queue s \<noteq> []" | "v1_rcvd s \<in> set (concat (map worker_id (v1_workers s)))"
    | "data_queue s \<noteq> [] \<or> fetcher_id (v1_fetcher s) \<noteq> []" | "v1_rcvd s \<in> fst ` set (v1_buffer s)"
    unfolding in_flight_def
    by (cases "key_queue s = []"; cases "data_queue s = []"; cases "fetcher_id (v1_fetcher s) = []") auto
  then show ?thesis
  proof cases
    case 1
    have "v1_workers s ! 0 \<in> set (v1_workers s)" using c(3) by simp
    from worker_alive [OF inv c(1) all this] 1 c(3) show ?thesis by (auto intro: worker_enabled [of 0])
  next
    case 2
    then obtain w where w: "w \<in> set (v1_workers s)" "worker_id w \<noteq> []" by fastforce
    then obtain i where i: "i < length (v1_workers s)" "v1_workers s ! i = w" by (metis in_set_conv_nth)
    from worker_alive [OF inv c(1) all w(1)] w(2) i show ?thesis by (auto intro: worker_enabled [of i])
  next
    case 3
    then show ?thesis by (rule fetcher_enabled [OF c(2)])
  next
    case 4
    then obtain b where "map_of (v1_buffer s) (v1_rcvd s) = Some b"
      by (metis map_of_eq_None_iff not_None_eq)
    then have "\<exists>t. v1_continue s = Some t" using spin by (auto simp: v1_continue_def split: prod.split)
    then show ?thesis by (auto intro: v1_enabledI [where a = Continue])
  qed
qed

lemma joining_enabled:
  assumes "v1_inv fetch n R s" and "v1_caller s = Joining e"
  shows "v1_enabled fetch s"
proof (cases "v1_fetcher s = FetcherExited")
  case True
  with assms(2) show ?thesis by (intro v1_enabledI [where a = Continue]) (simp_all add: v1_continue_def)
next
  case False
  then have "data_queue s \<noteq> []" using assms by (auto simp: v1_inv_def control_ok_def)
  then show ?thesis using fetcher_enabled [OF False] by simp
qed

text \<open>
  C22.  Waiting for a batch.  If no batch fails, a caller inside \<open>__next__\<close> or \<open>shutdown\<close> is never stuck: its
  own next step or one of a worker or the fetcher is possible, and those bring the call strictly closer
  to its end.  A call whose batch failed in its worker never returns: the exception stays in the worker process
  and no step of any process lets the caller go on.
\<close>

theorem MultiWorkerIterV1_progress:
  assumes "v1_reach fetch n R s" and "v1_caller s \<noteq> Ready"
  shows "((\<forall>r \<in> set R. \<exists>b. fetch r = Inr b) \<longrightarrow> v1_enabled fetch s)
    \<and> (\<forall>a t. v1_internal a \<longrightarrow> v1_step fetch a s = Some t \<longrightarrow> v1_pending t < v1_pending s \<and> v1_caller t = v1_caller s)
    \<and> (v1_caller s = Spinning \<and> fetch (R ! v1_rcvd s) = Inl e \<longrightarrow>
         (\<forall>a t. v1_step fetch a s = Some t \<longrightarrow> v1_internal a \<and> v1_caller t = Spinning \<and> v1_rcvd t = v1_rcvd s))"
proof (intro conjI impI allI)
  from assms(1) have inv: "v1_inv fetch (nat n) R s" by (rule v1_reach_inv)
  show "v1_enabled fetch s" if "\<forall>r \<in> set R. \<exists>b. fetch r = Inr b"
    using spinning_enabled [OF inv _ that] joining_enabled [OF inv] assms(2) by (cases "v1_caller s") auto
  fix a t
  assume t: "v1_step fetch a s = Some t"
  show "v1_pending t < v1_pending s" "v1_caller t = v1_caller s" if "v1_internal a"
    using v1_internal_pending [OF t that] by simp_all
  assume h: "v1_caller s = Spinning \<and> fetch (R ! v1_rcvd s) = Inl e"
  have "map_of (v1_buffer s) (v1_rcvd s) = None"
  proof (rule ccontr)
    assume "map_of (v1_buffer s) (v1_rcvd s) \<noteq> None"
    then obtain b where "(v1_rcvd s, b) \<in> set (v1_buffer s)" by (auto dest: map_of_SomeD)
    then show False using inv h by (auto simp: v1_inv_def payload_ok_def)
  qed
  then show i: "v1_internal a" using t h
    by (cases a) (auto simp: v1_call_next_def v1_call_shutdown_def v1_continue_def)
  show "v1_caller t = Spinning" "v1_rcvd t = v1_rcvd s" using v1_internal_pending [OF t i] h by simp_all
qed

theorem MultiWorkerIterV1_progress_witness:
  "\<exists>s. v1_reach (\<lambda>r. Inr (Stack r)) 1 [[4, 5], [6]] s \<and> v1_caller s = Spinning \<and> v1_enabled (\<lambda>r. Inr (Stack r)) s"
proof -
  obtain s t where s: "v1_init 1 ([[4, 5], [6]], None) = Inr s" and
    t: "v1_step (\<lambda>r. Inr (Stack r)) CallNext s = Some t" "v1_caller t = Spinning"
    by (simp add: v1_init_def numeral_2_eq_2 v1_push_def v1_call_next_def)
  have r: "v1_reach (\<lambda>r. Inr (Stack r)) 1 [[4, 5], [6]] t" by (rule v1_more [OF v1_start [OF s] t(1)])
  with MultiWorkerIterV1_progress [OF r] t(2) show ?thesis by auto
qed

end
