(* ===== verification/Nd_Arrays.thy ===== *)
theory Nd_Arrays
  imports Prelude
begin

text \<open>
  Arrays with a shape, in row-major order, and the operations on them that the metrics use: broadcasting of
  two arrays as NumPy documents it, the fibres along an axis, and the operators \<open>argmax\<close> and \<open>pick\<close> of
  \<open>src/operator/tensor/broadcast_reduce_op.h\<close>.
\<close>

record 'a arr =
  a_shape :: "nat list"
  a_vals :: "'a list"

definition arr_ok :: "'a arr \<Rightarrow> bool" where
  "arr_ok a \<longleftrightarrow> length (a_vals a) = prod_list (a_shape a)"

definition map_arr :: "('a \<Rightarrow> 'b) \<Rightarrow> 'a arr \<Rightarrow> 'b arr" where
  "map_arr f a = \<lparr> a_shape = a_shape a, a_vals = map f (a_vals a) \<rparr>"

section \<open>Broadcasting\<close>

fun unravel :: "nat list \<Rightarrow> nat \<Rightarrow> nat list" where
  "unravel [] k = []"
| "unravel (d # ds) k = k div prod_list ds # unravel ds (k mod prod_list ds)"

text \<open>The position of an index in an array whose axes of length 1 are repeated.\<close>

fun ravel_bcast :: "nat list \<Rightarrow> nat list \<Rightarrow> nat" where
  "ravel_bcast (d # ds) (i # is) = (if d = 1 then 0 else i) * prod_list ds + ravel_bcast ds is"
| "ravel_bcast _ _ = 0"

fun bcast_rev :: "nat list \<Rightarrow> nat list \<Rightarrow> nat list result" where
  "bcast_rev [] ys = Inr ys"
| "bcast_rev xs [] = Inr xs"
| "bcast_rev (x # xs) (y # ys) =
     rbind (if x = y \<or> y = 1 then Inr x else if x = 1 then Inr y else Inl ValueError) (\<lambda>z.
       rbind (bcast_rev xs ys) (\<lambda>zs. Inr (z # zs)))"

definition broadcast2 :: "('a \<Rightarrow> 'b \<Rightarrow> 'c) \<Rightarrow> 'a arr \<Rightarrow> 'b arr \<Rightarrow> 'c arr result" where
  "broadcast2 f a b =
     rbind (bcast_rev (rev (a_shape a)) (rev (a_shape b))) (\<lambda>rs.
       let ds = rev rs;
           pos = (\<lambda>sh k. ravel_bcast sh (drop (length ds - length sh) (unravel ds k)))
       in Inr \<lparr> a_shape = ds,
                a_vals = map (\<lambda>k. f (a_vals a ! pos (a_shape a) k) (a_vals b ! pos (a_shape b) k)) [0..<prod_list ds] \<rparr>)"

lemma bcast_rev_same [simp]: "bcast_rev ds ds = Inr ds"
  by (induction ds) simp_all

lemma ravel_unravel: "k < prod_list ds \<Longrightarrow> ravel_bcast ds (unravel ds k) = k"
proof (induction ds arbitrary: k)
  case (Cons d ds)
  have pos: "0 < prod_list ds" using Cons.prems by (cases "prod_list ds") auto
  have "k div prod_list ds < d" using Cons.prems pos by (simp add: less_mult_imp_div_less mult.commute)
  then have "(if d = 1 then 0 else k div prod_list ds) = k div prod_list ds" by simp
  moreover have "ravel_bcast ds (unravel ds (k mod prod_list ds)) = k mod prod_list ds"
    using pos by (intro Cons.IH) simp
  ultimately show ?case by simp
qed simp

lemma broadcast2_same:
  assumes "a_shape a = a_shape b" "arr_ok a" "arr_ok b"
  shows "broadcast2 f a b = Inr \<lparr> a_shape = a_shape a, a_vals = map2 f (a_vals a) (a_vals b) \<rparr>"
proof -
  let ?n = "prod_list (a_shape b)"
  have "map (\<lambda>k. f (a_vals a ! ravel_bcast (a_shape b) (unravel (a_shape b) k))
        (a_vals b ! ravel_bcast (a_shape b) (unravel (a_shape b) k))) [0..<?n] = map2 f (a_vals a) (a_vals b)"
    using assms by (intro nth_equalityI) (simp_all add: arr_ok_def ravel_unravel)
  then show ?thesis using assms(1) by (simp add: broadcast2_def)
qed

section \<open>Reductions along an axis\<close>

text \<open>Index of the first maximum.\<close>

definition argmax :: "real list \<Rightarrow> nat" where
  "argmax xs = length (takeWhile (\<lambda>x. x < Max (set xs)) xs)"

lemma argmax_max:
  assumes "xs \<noteq> []"
  shows "argmax xs < length xs" "xs ! argmax xs = Max (set xs)" "i < argmax xs \<Longrightarrow> xs ! i < Max (set xs)"
proof -
  have "Max (set xs) \<in> set xs" using assms by simp
  then have "takeWhile (\<lambda>x. x < Max (set xs)) xs \<noteq> xs" by (metis less_irrefl set_takeWhileD)
  then show l: "argmax xs < length xs"
    by (metis argmax_def length_takeWhile_le nat_less_le takeWhile_eq_take take_all_iff)
  have "\<not> xs ! argmax xs < Max (set xs)" unfolding argmax_def
    by (rule nth_length_takeWhile) (use l argmax_def in simp)
  then show "xs ! argmax xs = Max (set xs)" using l by (meson List.finite_set Max_ge less_le nth_mem)
  show "i < argmax xs \<Longrightarrow> xs ! i < Max (set xs)"
    by (metis argmax_def nth_mem set_takeWhileD takeWhile_nth)
qed

definition check_axis :: "int \<Rightarrow> nat \<Rightarrow> nat result" where
  "check_axis axis ndim =
     (if axis < int ndim \<and> - int ndim \<le> axis then Inr (nat ((axis + int ndim) mod int ndim)) else Inl MXNetError)"

text \<open>The array seen as \<open>leading \<times> M \<times> trailing\<close>: the list of its fibres along the middle axis.\<close>

definition fibres :: "nat \<Rightarrow> 'a arr \<Rightarrow> 'a list list" where
  "fibres axis a =
     (let m = a_shape a ! axis; trailing = prod_list (drop (axis + 1) (a_shape a));
          leading = prod_list (take axis (a_shape a))
      in concat (map (\<lambda>l. map (\<lambda>t. map (\<lambda>j. a_vals a ! ((l * m + j) * trailing + t)) [0..<m]) [0..<trailing])
           [0..<leading]))"

definition reduced_shape :: "nat \<Rightarrow> nat list \<Rightarrow> nat list" where
  "reduced_shape axis sh = (if length sh = 1 then [1] else take axis sh @ drop (axis + 1) sh)"

definition nd_argmax :: "int \<Rightarrow> real arr \<Rightarrow> real arr result" where
  "nd_argmax axis a =
     rbind (check_axis axis (length (a_shape a))) (\<lambda>ax.
       Inr \<lparr> a_shape = reduced_shape ax (a_shape a), a_vals = map (\<lambda>xs. real (argmax xs)) (fibres ax a) \<rparr>)"

text \<open>\<open>pick\<close> with clipping; \<open>idx\<close> is one-dimensional.\<close>

definition pick_clip :: "'a list \<Rightarrow> int \<Rightarrow> 'a" where
  "pick_clip xs j = xs ! (if j \<le> 0 then 0 else if int (length xs) \<le> j then length xs - 1 else nat j)"

definition nd_pick :: "'a arr \<Rightarrow> int list \<Rightarrow> int \<Rightarrow> 'a list result" where
  "nd_pick data idx axis =
     rbind (check_axis axis (length (a_shape data))) (\<lambda>ax.
       if [length idx] \<noteq> (if length (a_shape data) = 1 then [1] else reduced_shape ax (a_shape data))
       then Inl MXNetError
       else Inr (map2 pick_clip (fibres ax data) idx))"

text \<open>A matrix: its fibres along the last axis are its rows.\<close>

lemma fibres_rows:
  assumes "a_shape a = [n, k]" "arr_ok a"
  shows "fibres 1 a = map (\<lambda>i. take k (drop (i * k) (a_vals a))) [0..<n]"
proof -
  have "map (\<lambda>j. a_vals a ! (l * k + j)) [0..<k] = take k (drop (l * k) (a_vals a))" if "l < n" for l
  proof (rule nth_equalityI)
    have "Suc l * k \<le> n * k" using that by (intro mult_le_mono1) simp
    then show "length (map (\<lambda>j. a_vals a ! (l * k + j)) [0..<k]) = length (take k (drop (l * k) (a_vals a)))"
      using assms by (simp add: arr_ok_def)
    have "l * k \<le> n * k" using that by (intro mult_le_mono1) simp
    fix i
    assume "i < length (map (\<lambda>j. a_vals a ! (l * k + j)) [0..<k])"
    with \<open>Suc l * k \<le> n * k\<close> \<open>l * k \<le> n * k\<close> show "map (\<lambda>j. a_vals a ! (l * k + j)) [0..<k] ! i = take k (drop (l * k) (a_vals a)) ! i"
      using assms by (simp add: arr_ok_def)
  qed
  then have "concat (map (\<lambda>l. [map (\<lambda>j. a_vals a ! (l * k + j)) [0..<k]]) ls)
      = map (\<lambda>l. take k (drop (l * k) (a_vals a))) ls" if "set ls \<subseteq> {0..<n}" for ls
    using that by (induction ls) auto
  from this [of "[0..<n]"] show ?thesis using assms by (simp add: fibres_def)
qed

text \<open>Truncation of a floating point number to an integer.\<close>

definition to_int :: "real \<Rightarrow> int" where
  "to_int x = (if 0 \<le> x then \<lfloor>x\<rfloor> else \<lceil>x\<rceil>)"

lemma to_int_of_int [simp]: "to_int (of_int k) = k"
  by (simp add: to_int_def)

lemma to_int_real [simp]: "to_int (real k) = int k"
  by (simp add: to_int_def)

definition mean :: "real list \<Rightarrow> real" where
  "mean xs = sum_list xs / real (length xs)"

end
