(* ===== verification/Metrics.thy ===== *)
theory Metrics
  imports Nd_Arrays Py_Text
begin

text \<open>
  The evaluation metrics of \<open>python/mxnet/metric.py\<close>: the base class \<open>EvalMetric\<close> with its local and global
  statistics, and the \<open>update\<close> methods of the metric classes.

  Most classes loop over pairs of a label and a prediction array and add to the sum and to the count of
  instances; what one pair contributes is the class's \<open>pair\<close> function, a triple of the addition to
  \<open>sum_metric\<close>, to \<open>global_sum_metric\<close>, and to both counts.  \<open>nan\<close> as a result of \<open>get\<close> is \<open>None\<close>.
  \<open>numpy.argpartition\<close> and \<open>numpy.corrcoef\<close> are parameters.
\<close>

section \<open>Inputs\<close>

text \<open>A list of arrays, or a single array.\<close>

datatype arrs = SingleArr "real arr" | ArrList "real arr list"

definition arr_len :: "'a arr \<Rightarrow> nat result" where
  "arr_len a = (case a_shape a of [] \<Rightarrow> Inl TypeError | d # _ \<Rightarrow> Inr d)"

definition arrs_len :: "arrs \<Rightarrow> nat result" where
  "arrs_len x = (case x of SingleArr a \<Rightarrow> arr_len a | ArrList as \<Rightarrow> Inr (length as))"

definition wrap_arrs :: "arrs \<Rightarrow> real arr list" where
  "wrap_arrs x = (case x of SingleArr a \<Rightarrow> [a] | ArrList as \<Rightarrow> as)"

text \<open>\<open>check_label_shapes(labels, preds, wrap=True)\<close>, and the check of the lengths of two arrays.\<close>

definition check_label_shapes :: "arrs \<Rightarrow> arrs \<Rightarrow> (real arr list \<times> real arr list) result" where
  "check_label_shapes labels preds =
     rbind (arrs_len labels) (\<lambda>nl. rbind (arrs_len preds) (\<lambda>np.
       if nl \<noteq> np then Inl ValueError else Inr (wrap_arrs labels, wrap_arrs preds)))"

definition check_lens :: "'a arr \<Rightarrow> 'b arr \<Rightarrow> unit result" where
  "check_lens label pred =
     rbind (arr_len label) (\<lambda>nl. rbind (arr_len pred) (\<lambda>np. if nl \<noteq> np then Inl ValueError else Inr ()))"

text \<open>Iteration over an array runs over its first axis.\<close>

definition iter_arrs :: "arrs \<Rightarrow> real arr list" where
  "iter_arrs x =
     (case x of
        ArrList as \<Rightarrow> as
      | SingleArr a \<Rightarrow>
          (let rest = (if length (a_shape a) = 1 then [1] else tl (a_shape a)); block = prod_list rest in
           map (\<lambda>i. \<lparr> a_shape = rest, a_vals = take block (drop (i * block) (a_vals a)) \<rparr>) [0..<hd (a_shape a)]))"

section \<open>The base class\<close>

record eval_metric =
  em_name :: string
  output_names :: "string list option"
  label_names :: "string list option"
  has_global_stats :: bool
  num_inst :: real
  sum_metric :: real
  global_num_inst :: real
  global_sum_metric :: real

definition EvalMetric_reset :: "eval_metric \<Rightarrow> eval_metric" where
  "EvalMetric_reset m = m\<lparr> num_inst := 0, sum_metric := 0, global_num_inst := 0, global_sum_metric := 0 \<rparr>"

definition EvalMetric_reset_local :: "eval_metric \<Rightarrow> eval_metric" where
  "EvalMetric_reset_local m = m\<lparr> num_inst := 0, sum_metric := 0 \<rparr>"

definition EvalMetric_init :: "string \<Rightarrow> string list option \<Rightarrow> string list option \<Rightarrow> bool \<Rightarrow> eval_metric" where
  "EvalMetric_init name onames lnames glob =
     EvalMetric_reset \<lparr> em_name = name, output_names = onames, label_names = lnames, has_global_stats = glob,
       num_inst = 0, sum_metric = 0, global_num_inst = 0, global_sum_metric = 0 \<rparr>"

definition EvalMetric_get :: "eval_metric \<Rightarrow> string \<times> real option" where
  "EvalMetric_get m = (em_name m, if num_inst m = 0 then None else Some (sum_metric m / num_inst m))"

definition EvalMetric_get_global :: "eval_metric \<Rightarrow> string \<times> real option" where
  "EvalMetric_get_global m =
     (if has_global_stats m
      then (em_name m, if global_num_inst m = 0 then None else Some (global_sum_metric m / global_num_inst m))
      else EvalMetric_get m)"

text \<open>The arguments \<open>update_dict\<close> passes to \<open>update\<close>.\<close>

definition select_names :: "string list option \<Rightarrow> (string \<times> real arr) list \<Rightarrow> arrs result" where
  "select_names names d =
     (case names of
        Some ns \<Rightarrow> rbind (mapM (\<lambda>n. case map_of d n of None \<Rightarrow> Inl KeyError | Some a \<Rightarrow> Inr a) ns) (\<lambda>as. Inr (ArrList as))
      | None \<Rightarrow> Inr (ArrList (map snd d)))"

definition accumulate :: "real \<times> real \<times> real \<Rightarrow> eval_metric \<Rightarrow> eval_metric" where
  "accumulate = (\<lambda>(s, g, n) m.
     m\<lparr> sum_metric := sum_metric m + s, global_sum_metric := global_sum_metric m + g,
         num_inst := num_inst m + n, global_num_inst := global_num_inst m + n \<rparr>)"

type_synonym pair_fn = "real arr \<Rightarrow> real arr \<Rightarrow> (real \<times> real \<times> real) result"

text \<open>The loop \<open>for label, pred in zip(labels, preds)\<close>.\<close>

fun update_pairs :: "pair_fn \<Rightarrow> (real arr \<times> real arr) list \<Rightarrow> eval_metric \<Rightarrow> (eval_metric, unit) outcome" where
  "update_pairs pair [] m = (m, Inr ())"
| "update_pairs pair ((label, pred) # rest) m =
     (case pair label pred of
        Inl e \<Rightarrow> (m, Inl e)
      | Inr c \<Rightarrow> update_pairs pair rest (accumulate c m))"

definition pairwise_update :: "pair_fn \<Rightarrow> arrs \<Rightarrow> arrs \<Rightarrow> eval_metric \<Rightarrow> (eval_metric, unit) outcome" where
  "pairwise_update pair labels preds m =
     (case check_label_shapes labels preds of
        Inl e \<Rightarrow> (m, Inl e)
      | Inr (ls, ps) \<Rightarrow> update_pairs pair (zip ls ps) m)"

section \<open>Classification\<close>

definition count_true :: "bool list \<Rightarrow> nat" where
  "count_true bs = length (filter id bs)"

definition Accuracy_pair :: "int \<Rightarrow> pair_fn" where
  "Accuracy_pair axis label pred =
     rbind (if a_shape pred \<noteq> a_shape label then nd_argmax axis pred else Inr pred) (\<lambda>p.
       let pi = map to_int (a_vals p); li = map to_int (a_vals label)
       in if length li \<noteq> length pi then Inl ValueError
          else let c = real (count_true (map2 (=) pi li)) in Inr (c, c, real (length pi)))"

text \<open>\<open>(a.flat == b.flat).sum()\<close>; lengths that do not match give a plain \<open>False\<close>, which has no \<open>sum\<close>.\<close>

definition flat_eq_sum :: "int list \<Rightarrow> int list \<Rightarrow> nat result" where
  "flat_eq_sum xs ys =
     (if length xs = length ys then Inr (count_true (map2 (=) xs ys))
      else if length xs = 1 then Inr (count_true (map ((=) (hd xs)) ys))
      else if length ys = 1 then Inr (count_true (map ((=) (hd ys)) xs))
      else Inl AttributeError)"

definition rows_of :: "'a arr \<Rightarrow> 'a list list" where
  "rows_of a = fibres (length (a_shape a) - 1) a"

definition TopKAccuracy_pair :: "(real list \<Rightarrow> int \<Rightarrow> nat list result) \<Rightarrow> int \<Rightarrow> pair_fn" where
  "TopKAccuracy_pair argpartition top_k label pred =
     (if 2 < length (a_shape pred) then Inl AssertionError
      else rbind (mapM (\<lambda>r. argpartition r (- top_k)) (rows_of pred)) (\<lambda>parts.
        let li = map to_int (a_vals label) in
        rbind (check_lens label pred) (\<lambda>_.
          let num_samples = real (a_shape pred ! 0) in
          if length (a_shape pred) = 1
          then rbind (flat_eq_sum (map int (concat parts)) li) (\<lambda>c. Inr (real c, 0, num_samples))
          else
            let num_classes = a_shape pred ! 1;
                k = nat (min (int num_classes) top_k)
            in rbind (mapM (\<lambda>j. flat_eq_sum (map (\<lambda>p. int (p ! (num_classes - 1 - j))) parts) li) [0..<k]) (\<lambda>cs.
                 let c = real (sum_list cs) in Inr (c, c, num_samples)))))"

definition TopKAccuracy_init :: "int \<Rightarrow> string \<Rightarrow> string list option \<Rightarrow> string list option \<Rightarrow> eval_metric result" where
  "TopKAccuracy_init top_k name onames lnames =
     (let m = EvalMetric_init name onames lnames True
      in if 1 < top_k then Inr (m\<lparr> em_name := em_name m @ ''_'' @ str_of_int top_k \<rparr>) else Inl AssertionError)"

section \<open>Regression and likelihood\<close>

definition column :: "real arr \<Rightarrow> real arr" where
  "column a = (if length (a_shape a) = 1 then a\<lparr> a_shape := [a_shape a ! 0, 1] \<rparr> else a)"

definition MAE_pair :: pair_fn where
  "MAE_pair label pred =
     rbind (broadcast2 (\<lambda>l p. \<bar>l - p\<bar>) (column label) (column pred)) (\<lambda>d.
       let mae = mean (a_vals d) in Inr (mae, mae, 1))"

definition MSE_pair :: pair_fn where
  "MSE_pair label pred =
     rbind (broadcast2 (\<lambda>l p. (l - p)\<^sup>2) (column label) (column pred)) (\<lambda>d.
       let mse = mean (a_vals d) in Inr (mse, mse, 1))"

definition RMSE_pair :: pair_fn where
  "RMSE_pair label pred =
     rbind (broadcast2 (\<lambda>l p. (l - p)\<^sup>2) (column label) (column pred)) (\<lambda>d.
       let rmse = sqrt (mean (a_vals d)) in Inr (rmse, rmse, 1))"

text \<open>\<open>pred[numpy.arange(n), numpy.int64(label)]\<close>: the entries of row \<open>i\<close> at the label of sample \<open>i\<close>; for
  predictions with more than two axes these are blocks.\<close>

definition index_rows :: "real arr \<Rightarrow> int list \<Rightarrow> real list result" where
  "index_rows pred ls =
     (case a_shape pred of
        n # k # rest \<Rightarrow>
          (let block = prod_list rest in
           rbind (mapM (\<lambda>(i, l). rbind (py_get [0..<k] l) (\<lambda>j. Inr (take block (drop ((i * k + j) * block) (a_vals pred)))))
                    (zip [0..<length ls] ls)) (\<lambda>bs. Inr (concat bs)))
      | _ \<Rightarrow> Inl IndexError)"

definition CrossEntropy_pair :: "real \<Rightarrow> pair_fn" where
  "CrossEntropy_pair eps label pred =
     rbind (arr_len pred) (\<lambda>n.
       if length (a_vals label) \<noteq> n then Inl AssertionError
       else rbind (index_rows pred (map to_int (a_vals label))) (\<lambda>prob.
         let ce = sum_list (map (\<lambda>q. - ln (q + eps)) prob)
         in Inr (ce, ce, real (length (a_vals label)))))"

definition NegativeLogLikelihood_pair :: "real \<Rightarrow> pair_fn" where
  "NegativeLogLikelihood_pair eps label pred =
     rbind (arr_len pred) (\<lambda>num_examples.
       if length (a_vals label) \<noteq> num_examples then Inl AssertionError
       else rbind (index_rows pred (map to_int (a_vals label))) (\<lambda>prob.
         let nll = sum_list (map (\<lambda>q. - ln (q + eps)) prob)
         in Inr (nll, nll, real num_examples)))"

definition PearsonCorrelation_pair :: "(real list \<Rightarrow> real list \<Rightarrow> real) \<Rightarrow> pair_fn" where
  "PearsonCorrelation_pair corrcoef label pred =
     (if a_shape label \<noteq> a_shape pred then Inl ValueError
      else let c = corrcoef (a_vals pred) (a_vals label) in Inr (c, c, 1))"

text \<open>\<open>Perplexity.update\<close> adds to the statistics only after its loop.\<close>

fun perplexity_loop ::
  "int option \<Rightarrow> int \<Rightarrow> (real arr \<times> real arr) list \<Rightarrow> real \<Rightarrow> real \<Rightarrow> (real \<times> real) result" where
  "perplexity_loop ignore_label axis [] loss num = Inr (loss, num)"
| "perplexity_loop ignore_label axis ((label, pred) # rest) loss num =
     (if length (a_vals label) * last (a_shape pred) \<noteq> length (a_vals pred) then Inl AssertionError
      else rbind (nd_pick pred (map to_int (a_vals label)) axis) (\<lambda>p.
        let ignore = map (\<lambda>l. case ignore_label of None \<Rightarrow> False | Some i \<Rightarrow> l = of_int i) (a_vals label);
            num = num - real (count_true ignore);
            p = map2 (\<lambda>q i. if i then 1 else q) p ignore;
            loss = loss - sum_list (map (\<lambda>q. ln (max (1 / 10 ^ 10) q)) p)
        in perplexity_loop ignore_label axis rest loss (num + real (length p))))"

definition Perplexity_update :: "int option \<Rightarrow> int \<Rightarrow> arrs \<Rightarrow> arrs \<Rightarrow> eval_metric \<Rightarrow> (eval_metric, unit) outcome" where
  "Perplexity_update ignore_label axis labels preds m =
     (case rbind (arrs_len labels) (\<lambda>nl. rbind (arrs_len preds) (\<lambda>np.
             if nl \<noteq> np then Inl AssertionError
             else perplexity_loop ignore_label axis (zip (iter_arrs labels) (iter_arrs preds)) 0 0)) of
        Inl e \<Rightarrow> (m, Inl e)
      | Inr (loss, num) \<Rightarrow> (accumulate (loss, loss, num) m, Inr ()))"

definition Perplexity_get :: "eval_metric \<Rightarrow> string \<times> real option" where
  "Perplexity_get m = (em_name m, if num_inst m = 0 then None else Some (exp (sum_metric m / num_inst m)))"

definition Perplexity_get_global :: "eval_metric \<Rightarrow> string \<times> real option" where
  "Perplexity_get_global m =
     (em_name m, if global_num_inst m = 0 then None else Some (exp (global_sum_metric m / global_num_inst m)))"

section \<open>Losses and custom metrics\<close>

fun loss_loop :: "real arr list \<Rightarrow> eval_metric \<Rightarrow> eval_metric" where
  "loss_loop [] m = m"
| "loss_loop (pred # rest) m =
     loss_loop rest (accumulate (sum_list (a_vals pred), sum_list (a_vals pred), real (length (a_vals pred))) m)"

definition Loss_update :: "arrs \<Rightarrow> eval_metric \<Rightarrow> (eval_metric, unit) outcome" where
  "Loss_update preds m = (loss_loop (wrap_arrs preds) m, Inr ())"

text \<open>A custom function returns a sum, or a sum with a count.  Without the check of the arguments an
  array is not wrapped.\<close>

type_synonym feval = "real arr \<Rightarrow> real arr \<Rightarrow> (real \<times> real option) result"

definition CustomMetric_pair :: "feval \<Rightarrow> pair_fn" where
  "CustomMetric_pair feval label pred =
     rbind (feval label pred) (\<lambda>(s, n). Inr (s, s, case n of None \<Rightarrow> 1 | Some k \<Rightarrow> k))"

definition CustomMetric_update :: "feval \<Rightarrow> bool \<Rightarrow> arrs \<Rightarrow> arrs \<Rightarrow> eval_metric \<Rightarrow> (eval_metric, unit) outcome" where
  "CustomMetric_update feval allow_extra_outputs labels preds m =
     (if allow_extra_outputs then update_pairs (CustomMetric_pair feval) (zip (iter_arrs labels) (iter_arrs preds)) m
      else pairwise_update (CustomMetric_pair feval) labels preds m)"

definition custom_name :: "string option \<Rightarrow> string \<Rightarrow> string" where
  "custom_name name fname =
     (case name of Some n \<Rightarrow> n
      | None \<Rightarrow> if CHR ''<'' \<in> set fname then ''custom('' @ fname @ '')'' else fname)"

section \<open>Binary classification\<close>

record binary_stats =
  true_positives :: nat
  false_negatives :: nat
  false_positives :: nat
  true_negatives :: nat
  global_true_positives :: nat
  global_false_negatives :: nat
  global_false_positives :: nat
  global_true_negatives :: nat

definition BinaryMetrics_init :: binary_stats where
  "BinaryMetrics_init =
     \<lparr> true_positives = 0, false_negatives = 0, false_positives = 0, true_negatives = 0,
       global_true_positives = 0, global_false_negatives = 0, global_false_positives = 0, global_true_negatives = 0 \<rparr>"

definition np_argmax1 :: "real arr \<Rightarrow> nat arr result" where
  "np_argmax1 a =
     (if length (a_shape a) < 2 then Inl ValueError
      else Inr \<lparr> a_shape = reduced_shape 1 (a_shape a), a_vals = map argmax (fibres 1 a) \<rparr>)"

definition add_counts :: "nat \<times> nat \<times> nat \<times> nat \<Rightarrow> binary_stats \<Rightarrow> binary_stats" where
  "add_counts = (\<lambda>(tp, fp, fn, tn) s.
     s\<lparr> true_positives := true_positives s + tp, global_true_positives := global_true_positives s + tp,
         false_positives := false_positives s + fp, global_false_positives := global_false_positives s + fp,
         false_negatives := false_negatives s + fn, global_false_negatives := global_false_negatives s + fn,
         true_negatives := true_negatives s + tn, global_true_negatives := global_true_negatives s + tn \<rparr>)"

definition update_binary_stats :: "real arr \<Rightarrow> real arr \<Rightarrow> binary_stats \<Rightarrow> (binary_stats, unit) outcome" where
  "update_binary_stats label pred s =
     (case rbind (np_argmax1 pred) (\<lambda>pred_label.
             let label = map_arr to_int label in
             rbind (check_lens label pred) (\<lambda>_.
               if 2 < length (remdups (a_vals label)) then Inl ValueError
               else
                let pt = map_arr (\<lambda>p. p = 1) pred_label; lt = map_arr (\<lambda>l. l = 1) label;
                    total = (\<lambda>f. rbind (broadcast2 f pt lt) (\<lambda>a. Inr (count_true (a_vals a))))
                in rbind (total (\<lambda>p l. p \<and> l)) (\<lambda>tp. rbind (total (\<lambda>p l. p \<and> \<not> l)) (\<lambda>fp.
                   rbind (total (\<lambda>p l. \<not> p \<and> l)) (\<lambda>fn. rbind (total (\<lambda>p l. \<not> p \<and> \<not> l)) (\<lambda>tn.
                     Inr (tp, fp, fn, tn))))))) of
        Inl e \<Rightarrow> (s, Inl e)
      | Inr counts \<Rightarrow> (add_counts counts s, Inr ()))"

definition precision :: "binary_stats \<Rightarrow> real" where
  "precision s =
     (if 0 < true_positives s + false_positives s
      then real (true_positives s) / real (true_positives s + false_positives s) else 0)"

definition global_precision :: "binary_stats \<Rightarrow> real" where
  "global_precision s =
     (if 0 < global_true_positives s + global_false_positives s
      then real (global_true_positives s) / real (global_true_positives s + global_false_positives s) else 0)"

definition recall :: "binary_stats \<Rightarrow> real" where
  "recall s =
     (if 0 < true_positives s + false_negatives s
      then real (true_positives s) / real (true_positives s + false_negatives s) else 0)"

definition global_recall :: "binary_stats \<Rightarrow> real" where
  "global_recall s =
     (if 0 < global_true_positives s + global_false_negatives s
      then real (global_true_positives s) / real (global_true_positives s + global_false_negatives s) else 0)"

definition fscore :: "binary_stats \<Rightarrow> real" where
  "fscore s =
     (if 0 < precision s + recall s then 2 * precision s * recall s / (precision s + recall s) else 0)"

definition global_fscore :: "binary_stats \<Rightarrow> real" where
  "global_fscore s =
     (if 0 < global_precision s + global_recall s
      then 2 * global_precision s * global_recall s / (global_precision s + global_recall s) else 0)"

definition total_examples :: "binary_stats \<Rightarrow> nat" where
  "total_examples s = false_negatives s + false_positives s + true_negatives s + true_positives s"

definition global_total_examples :: "binary_stats \<Rightarrow> nat" where
  "global_total_examples s =
     global_false_negatives s + global_false_positives s + global_true_negatives s + global_true_positives s"

definition mcc_value :: "real \<Rightarrow> real \<Rightarrow> real \<Rightarrow> real \<Rightarrow> real" where
  "mcc_value tp fp fn tn =
     (tp * tn - fp * fn)
       / sqrt (foldl (\<lambda>denom t. denom * t) 1 (filter (\<lambda>t. t \<noteq> 0) [tp + fp, tp + fn, tn + fp, tn + fn]))"

definition matthewscc :: "bool \<Rightarrow> binary_stats \<Rightarrow> real" where
  "matthewscc use_global s =
     (if use_global
      then if global_total_examples s = 0 then 0
           else mcc_value (real (global_true_positives s)) (real (global_false_positives s))
                  (real (global_false_negatives s)) (real (global_true_negatives s))
      else if total_examples s = 0 then 0
           else mcc_value (real (true_positives s)) (real (false_positives s))
                  (real (false_negatives s)) (real (true_negatives s)))"

definition local_reset_stats :: "binary_stats \<Rightarrow> binary_stats" where
  "local_reset_stats s =
     s\<lparr> false_positives := 0, false_negatives := 0, true_positives := 0, true_negatives := 0 \<rparr>"

definition reset_stats :: "binary_stats \<Rightarrow> binary_stats" where
  "reset_stats s =
     s\<lparr> false_positives := 0, false_negatives := 0, true_positives := 0, true_negatives := 0,
         global_false_positives := 0, global_false_negatives := 0, global_true_positives := 0,
         global_true_negatives := 0 \<rparr>"

fun binary_loop :: "(real arr \<times> real arr) list \<Rightarrow> binary_stats \<Rightarrow> (binary_stats, unit) outcome" where
  "binary_loop [] s = (s, Inr ())"
| "binary_loop ((label, pred) # rest) s = sbind (update_binary_stats label pred s) (\<lambda>s _. binary_loop rest s)"

text \<open>\<open>update\<close> of \<open>F1\<close> and of \<open>MCC\<close>, over the metric and its counts.\<close>

definition F1_update ::
  "string \<Rightarrow> arrs \<Rightarrow> arrs \<Rightarrow> eval_metric \<times> binary_stats \<Rightarrow> (eval_metric \<times> binary_stats, unit) outcome" where
  "F1_update average labels preds = (\<lambda>(m, s).
     case check_label_shapes labels preds of
       Inl e \<Rightarrow> ((m, s), Inl e)
     | Inr (ls, ps) \<Rightarrow>
         (case binary_loop (zip ls ps) s of
            (s, Inl e) \<Rightarrow> ((m, s), Inl e)
          | (s, Inr _) \<Rightarrow>
              if average = ''macro''
              then ((accumulate (fscore s, global_fscore s, 1) m, reset_stats s), Inr ())
              else ((m\<lparr> sum_metric := fscore s * real (total_examples s),
                        global_sum_metric := global_fscore s * real (global_total_examples s),
                        num_inst := real (total_examples s),
                        global_num_inst := real (global_total_examples s) \<rparr>, s), Inr ())))"

definition F1_reset :: "eval_metric \<times> binary_stats \<Rightarrow> eval_metric \<times> binary_stats" where
  "F1_reset = (\<lambda>(m, s). (m\<lparr> sum_metric := 0, num_inst := 0, global_num_inst := 0, global_sum_metric := 0 \<rparr>, reset_stats s))"

definition F1_reset_local :: "eval_metric \<times> binary_stats \<Rightarrow> eval_metric \<times> binary_stats" where
  "F1_reset_local = (\<lambda>(m, s). (m\<lparr> sum_metric := 0, num_inst := 0 \<rparr>, local_reset_stats s))"

definition MCC_update ::
  "string \<Rightarrow> arrs \<Rightarrow> arrs \<Rightarrow> eval_metric \<times> binary_stats \<Rightarrow> (eval_metric \<times> binary_stats, unit) outcome" where
  "MCC_update average labels preds = (\<lambda>(m, s).
     case check_label_shapes labels preds of
       Inl e \<Rightarrow> ((m, s), Inl e)
     | Inr (ls, ps) \<Rightarrow>
         (case binary_loop (zip ls ps) s of
            (s, Inl e) \<Rightarrow> ((m, s), Inl e)
          | (s, Inr _) \<Rightarrow>
              if average = ''macro''
              then ((accumulate (matthewscc False s, matthewscc True s, 1) m, reset_stats s), Inr ())
              else ((m\<lparr> sum_metric := matthewscc False s * real (total_examples s),
                        global_sum_metric := matthewscc True s * real (global_total_examples s),
                        num_inst := real (total_examples s),
                        global_num_inst := real (global_total_examples s) \<rparr>, s), Inr ())))"

definition MCC_reset :: "eval_metric \<times> binary_stats \<Rightarrow> eval_metric \<times> binary_stats" where
  "MCC_reset = (\<lambda>(m, s). (m\<lparr> sum_metric := 0, num_inst := 0, global_sum_metric := 0, global_num_inst := 0 \<rparr>, reset_stats s))"

definition MCC_reset_local :: "eval_metric \<times> binary_stats \<Rightarrow> eval_metric \<times> binary_stats" where
  "MCC_reset_local = (\<lambda>(m, s). (m\<lparr> sum_metric := 0, num_inst := 0 \<rparr>, local_reset_stats s))"

section \<open>All metrics\<close>

text \<open>The class of a metric with its own attributes.\<close>

datatype metric_kind =
    Accuracy int
  | TopKAccuracy int
  | F1 string binary_stats
  | MCC string binary_stats
  | Perplexity "int option" int
  | MAE | MSE | RMSE
  | CrossEntropy real
  | NegativeLogLikelihood real
  | PearsonCorrelation
  | Loss | Torch | Caffe
  | CustomMetric feval bool

datatype metric = Metric metric_kind eval_metric | CompositeEvalMetric eval_metric "metric list"

record numpy =
  np_argpartition :: "real list \<Rightarrow> int \<Rightarrow> nat list result"
  np_corrcoef :: "real list \<Rightarrow> real list \<Rightarrow> real"

definition kind_pair :: "numpy \<Rightarrow> metric_kind \<Rightarrow> pair_fn option" where
  "kind_pair np k =
     (case k of
        Accuracy axis \<Rightarrow> Some (Accuracy_pair axis)
      | TopKAccuracy n \<Rightarrow> Some (TopKAccuracy_pair (np_argpartition np) n)
      | MAE \<Rightarrow> Some MAE_pair | MSE \<Rightarrow> Some MSE_pair | RMSE \<Rightarrow> Some RMSE_pair
      | CrossEntropy eps \<Rightarrow> Some (CrossEntropy_pair eps)
      | NegativeLogLikelihood eps \<Rightarrow> Some (NegativeLogLikelihood_pair eps)
      | PearsonCorrelation \<Rightarrow> Some (PearsonCorrelation_pair (np_corrcoef np))
      | _ \<Rightarrow> None)"

definition kind_update ::
  "numpy \<Rightarrow> metric_kind \<Rightarrow> arrs \<Rightarrow> arrs \<Rightarrow> eval_metric \<Rightarrow> (metric_kind \<times> eval_metric) \<times> (exn + unit)" where
  "kind_update np k labels preds m =
     (case k of
        F1 avg s \<Rightarrow> (case F1_update avg labels preds (m, s) of ((m, s), r) \<Rightarrow> ((F1 avg s, m), r))
      | MCC avg s \<Rightarrow> (case MCC_update avg labels preds (m, s) of ((m, s), r) \<Rightarrow> ((MCC avg s, m), r))
      | Perplexity ign axis \<Rightarrow> (case Perplexity_update ign axis labels preds m of (m, r) \<Rightarrow> ((k, m), r))
      | CustomMetric f extra \<Rightarrow> (case CustomMetric_update f extra labels preds m of (m, r) \<Rightarrow> ((k, m), r))
      | _ \<Rightarrow>
          (case kind_pair np k of
             Some pair \<Rightarrow> (case pairwise_update pair labels preds m of (m, r) \<Rightarrow> ((k, m), r))
           | None \<Rightarrow> (case Loss_update preds m of (m, r) \<Rightarrow> ((k, m), r))))"

fun metric_update :: "numpy \<Rightarrow> metric \<Rightarrow> arrs \<Rightarrow> arrs \<Rightarrow> (metric, unit) outcome"
  and metrics_update :: "numpy \<Rightarrow> metric list \<Rightarrow> arrs \<Rightarrow> arrs \<Rightarrow> (metric list, unit) outcome" where
  "metric_update np (Metric k m) labels preds =
     (case kind_update np k labels preds m of ((k, m), r) \<Rightarrow> (Metric k m, r))"
| "metric_update np (CompositeEvalMetric m ms) labels preds =
     (case metrics_update np ms labels preds of (ms, r) \<Rightarrow> (CompositeEvalMetric m ms, r))"
| "metrics_update np [] labels preds = ([], Inr ())"
| "metrics_update np (x # xs) labels preds =
     (case metric_update np x labels preds of
        (x, Inl e) \<Rightarrow> (x # xs, Inl e)
      | (x, Inr _) \<Rightarrow> (case metrics_update np xs labels preds of (xs, r) \<Rightarrow> (x # xs, r)))"

definition kind_reset :: "metric_kind \<Rightarrow> eval_metric \<Rightarrow> metric_kind \<times> eval_metric" where
  "kind_reset k m =
     (case k of
        F1 avg s \<Rightarrow> (case F1_reset (m, s) of (m, s) \<Rightarrow> (F1 avg s, m))
      | MCC avg s \<Rightarrow> (case MCC_reset (m, s) of (m, s) \<Rightarrow> (MCC avg s, m))
      | _ \<Rightarrow> (k, EvalMetric_reset m))"

definition kind_reset_local :: "metric_kind \<Rightarrow> eval_metric \<Rightarrow> metric_kind \<times> eval_metric" where
  "kind_reset_local k m =
     (case k of
        F1 avg s \<Rightarrow> (case F1_reset_local (m, s) of (m, s) \<Rightarrow> (F1 avg s, m))
      | MCC avg s \<Rightarrow> (case MCC_reset_local (m, s) of (m, s) \<Rightarrow> (MCC avg s, m))
      | _ \<Rightarrow> (k, EvalMetric_reset_local m))"

fun metric_reset :: "metric \<Rightarrow> metric" where
  "metric_reset (Metric k m) = (case kind_reset k m of (k, m) \<Rightarrow> Metric k m)"
| "metric_reset (CompositeEvalMetric m ms) = CompositeEvalMetric m (map metric_reset ms)"

fun metric_reset_local :: "metric \<Rightarrow> metric" where
  "metric_reset_local (Metric k m) = (case kind_reset_local k m of (k, m) \<Rightarrow> Metric k m)"
| "metric_reset_local (CompositeEvalMetric m ms) = CompositeEvalMetric m (map metric_reset_local ms)"

text \<open>\<open>get_name_value\<close>: the names and values of a metric, one entry per leaf.\<close>

fun metric_get :: "metric \<Rightarrow> (string \<times> real option) list" where
  "metric_get (Metric k m) = [case k of Perplexity _ _ \<Rightarrow> Perplexity_get m | _ \<Rightarrow> EvalMetric_get m]"
| "metric_get (CompositeEvalMetric m ms) = concat (map metric_get ms)"

fun metric_get_global :: "metric \<Rightarrow> (string \<times> real option) list" where
  "metric_get_global (Metric k m) =
     [case k of Perplexity _ _ \<Rightarrow> Perplexity_get_global m | _ \<Rightarrow> EvalMetric_get_global m]"
| "metric_get_global (CompositeEvalMetric m ms) = concat (map metric_get_global ms)"

text \<open>\<open>get_metric\<close> returns the exception object instead of raising it.\<close>

definition CompositeEvalMetric_get_metric :: "metric list \<Rightarrow> int \<Rightarrow> metric + exn" where
  "CompositeEvalMetric_get_metric ms i = (case py_get ms i of Inr m \<Rightarrow> Inl m | Inl _ \<Rightarrow> Inr ValueError)"

definition keep_names :: "string list option \<Rightarrow> (string \<times> real arr) list \<Rightarrow> (string \<times> real arr) list" where
  "keep_names names d = (case names of None \<Rightarrow> d | Some ns \<Rightarrow> filter (\<lambda>i. fst i \<in> set ns) d)"

fun metric_update_dict ::
  "numpy \<Rightarrow> metric \<Rightarrow> (string \<times> real arr) list \<Rightarrow> (string \<times> real arr) list \<Rightarrow> (metric, unit) outcome"
  and metrics_update_dict ::
  "numpy \<Rightarrow> metric list \<Rightarrow> (string \<times> real arr) list \<Rightarrow> (string \<times> real arr) list \<Rightarrow> (metric list, unit) outcome" where
  "metric_update_dict np (Metric k m) label pred =
     (case rbind (select_names (output_names m) pred) (\<lambda>p. rbind (select_names (label_names m) label) (\<lambda>l. Inr (l, p))) of
        Inl e \<Rightarrow> (Metric k m, Inl e)
      | Inr (l, p) \<Rightarrow> metric_update np (Metric k m) l p)"
| "metric_update_dict np (CompositeEvalMetric m ms) label pred =
     (case metrics_update_dict np ms (keep_names (label_names m) label) (keep_names (output_names m) pred) of
        (ms, r) \<Rightarrow> (CompositeEvalMetric m ms, r))"
| "metrics_update_dict np [] label pred = ([], Inr ())"
| "metrics_update_dict np (x # xs) label pred =
     (case metric_update_dict np x label pred of
        (x, Inl e) \<Rightarrow> (x # xs, Inl e)
      | (x, Inr _) \<Rightarrow> (case metrics_update_dict np xs label pred of (xs, r) \<Rightarrow> (x # xs, r)))"

end
