(* ===== verification/Metric_Laws.thy ===== *)
theory Metric_Laws
  imports Metrics
begin

text \<open>
  What the metrics compute.  The locale \<open>pair_metric\<close> is the contract of the classes that add up a
  contribution per pair of arrays; in it, any sequence of updates and resets is shown to keep the sums of two
  histories, one since the last \<open>reset\<close> and one since the last \<open>reset\<close> or \<open>reset_local\<close>.
\<close>

section \<open>Histories\<close>

datatype metric_op = Update arrs arrs | Reset | ResetLocal

fun metric_step :: "numpy \<Rightarrow> metric \<Rightarrow> metric_op \<Rightarrow> metric" where
  "metric_step np m (Update labels preds) = fst (metric_update np m labels preds)"
| "metric_step np m Reset = metric_reset m"
| "metric_step np m ResetLocal = metric_reset_local m"

text \<open>The contributions of one \<open>update\<close>: those of the pairs before the first one that fails.\<close>

fun pair_values :: "pair_fn \<Rightarrow> (real arr \<times> real arr) list \<Rightarrow> (real \<times> real) list" where
  "pair_values pair [] = []"
| "pair_values pair ((l, p) # rest) =
     (case pair l p of Inl e \<Rightarrow> [] | Inr (s, g, n) \<Rightarrow> (s, n) # pair_values pair rest)"

definition contributions :: "pair_fn \<Rightarrow> arrs \<Rightarrow> arrs \<Rightarrow> (real \<times> real) list" where
  "contributions pair labels preds =
     (case check_label_shapes labels preds of Inl e \<Rightarrow> [] | Inr (ls, ps) \<Rightarrow> pair_values pair (zip ls ps))"

type_synonym histories = "(real \<times> real) list \<times> (real \<times> real) list"

fun history_step :: "pair_fn \<Rightarrow> histories \<Rightarrow> metric_op \<Rightarrow> histories" where
  "history_step pair (global, local) (Update labels preds) =
     (global @ contributions pair labels preds, local @ contributions pair labels preds)"
| "history_step pair (global, local) Reset = ([], [])"
| "history_step pair (global, local) ResetLocal = (global, [])"

definition total_of :: "(real \<times> real) list \<Rightarrow> real" where
  "total_of cs = sum_list (map fst cs)"

definition instances :: "(real \<times> real) list \<Rightarrow> real" where
  "instances cs = sum_list (map snd cs)"

definition ratio :: "(real \<times> real) list \<Rightarrow> real option" where
  "ratio cs = (if instances cs = 0 then None else Some (total_of cs / instances cs))"

lemma total_simps [simp]:
  "total_of [] = 0" "total_of ((s, n) # cs) = s + total_of cs" "total_of (cs @ ds) = total_of cs + total_of ds"
  "instances [] = 0" "instances ((s, n) # cs) = n + instances cs" "instances (cs @ ds) = instances cs + instances ds"
  by (simp_all add: total_of_def instances_def)

definition holds :: "histories \<Rightarrow> eval_metric \<Rightarrow> bool" where
  "holds h m \<longleftrightarrow>
     sum_metric m = total_of (snd h) \<and> num_inst m = instances (snd h)
     \<and> global_sum_metric m = total_of (fst h) \<and> global_num_inst m = instances (fst h)"

locale pair_metric =
  fixes pair :: pair_fn
  assumes same_global: "pair l p = Inr (s, g, n) \<Longrightarrow> g = s"
begin

lemma update_pairs_holds:
  assumes "holds (G, L) m"
  shows "holds (G @ pair_values pair lps, L @ pair_values pair lps) (fst (update_pairs pair lps m))"
  using assms
proof (induction lps arbitrary: m G L)
  case (Cons lp lps)
  obtain l p where lp: "lp = (l, p)" by (cases lp)
  show ?case
  proof (cases "pair l p")
    case (Inl e)
    then show ?thesis using Cons.prems by (simp add: lp)
  next
    case (Inr c)
    then obtain s n where c: "c = (s, s, n)" using same_global by (cases c) auto
    have "holds (G @ [(s, n)], L @ [(s, n)]) (accumulate c m)"
      using Cons.prems by (simp add: holds_def accumulate_def c)
    from Cons.IH [OF this] show ?thesis by (simp add: lp Inr c)
  qed
qed simp

lemma pairwise_holds:
  assumes "holds (G, L) m"
  shows "holds (history_step pair (G, L) (Update labels preds)) (fst (pairwise_update pair labels preds m))"
  using assms update_pairs_holds
  by (auto simp: pairwise_update_def contributions_def split: sum.split)

lemma pairwise_frame:
  "em_name (fst (pairwise_update pair labels preds m)) = em_name m
   \<and> has_global_stats (fst (pairwise_update pair labels preds m)) = has_global_stats m"
proof -
  have "em_name (fst (update_pairs pair lps m)) = em_name m
      \<and> has_global_stats (fst (update_pairs pair lps m)) = has_global_stats m" for lps
    by (induction pair lps m rule: update_pairs.induct) (auto simp: accumulate_def split: sum.split)
  then show ?thesis by (auto simp: pairwise_update_def split: sum.split)
qed

end

interpretation accuracy: pair_metric "Accuracy_pair axis" for axis
  by unfold_locales (auto simp: Accuracy_pair_def rbind_def Let_def split: sum.splits if_splits)

interpretation mae: pair_metric MAE_pair
  by unfold_locales (auto simp: MAE_pair_def rbind_def Let_def split: sum.splits)

interpretation mse: pair_metric MSE_pair
  by unfold_locales (auto simp: MSE_pair_def rbind_def Let_def split: sum.splits)

interpretation rmse: pair_metric RMSE_pair
  by unfold_locales (auto simp: RMSE_pair_def rbind_def Let_def split: sum.splits)

interpretation cross_entropy: pair_metric "CrossEntropy_pair eps" for eps
  by unfold_locales (auto simp: CrossEntropy_pair_def rbind_def Let_def split: sum.splits if_splits)

interpretation nll: pair_metric "NegativeLogLikelihood_pair eps" for eps
  by unfold_locales (auto simp: NegativeLogLikelihood_pair_def rbind_def Let_def split: sum.splits if_splits)

interpretation pearson: pair_metric "PearsonCorrelation_pair corrcoef" for corrcoef
  by unfold_locales (auto simp: PearsonCorrelation_pair_def Let_def split: if_splits)

lemma kind_pair_metric:
  assumes "kind_pair np k = Some pair" "\<And>n. k \<noteq> TopKAccuracy n"
  shows "pair_metric pair"
  using assms
    accuracy.pair_metric_axioms mae.pair_metric_axioms mse.pair_metric_axioms rmse.pair_metric_axioms
    cross_entropy.pair_metric_axioms nll.pair_metric_axioms pearson.pair_metric_axioms
  by (cases k) (auto simp: kind_pair_def)

lemma kind_pair_update:
  assumes "kind_pair np k = Some pair"
  shows "kind_update np k labels preds m = (case pairwise_update pair labels preds m of (m, r) \<Rightarrow> ((k, m), r))"
    "kind_reset k m = (k, EvalMetric_reset m)" "kind_reset_local k m = (k, EvalMetric_reset_local m)"
  using assms by (cases k; simp add: kind_pair_def kind_update_def kind_reset_def kind_reset_local_def)+

lemma metric_step_holds:
  assumes "kind_pair np k = Some pair" "\<And>n. k \<noteq> TopKAccuracy n" "holds h m" "has_global_stats m"
  shows "\<exists>m'. metric_step np (Metric k m) oper = Metric k m' \<and> holds (history_step pair h oper) m'
    \<and> em_name m' = em_name m \<and> has_global_stats m'"
proof -
  obtain G L where h: "h = (G, L)" by (cases h)
  note pm = kind_pair_metric [OF assms(1,2)]
  show ?thesis
  proof (cases oper)
    case (Update labels preds)
    then show ?thesis
      using pair_metric.pairwise_holds [OF pm, of G L m labels preds] pair_metric.pairwise_frame [OF pm, of labels preds m]
        assms(3,4)
      by (auto simp: h kind_pair_update [OF assms(1)] split: prod.split)
  next
    case Reset
    then show ?thesis using assms(3,4)
      by (simp add: h kind_pair_update [OF assms(1)] EvalMetric_reset_def holds_def)
  next
    case ResetLocal
    then show ?thesis using assms(3,4)
      by (simp add: h kind_pair_update [OF assms(1)] EvalMetric_reset_local_def holds_def)
  qed
qed

lemma metric_run_holds:
  assumes "kind_pair np k = Some pair" "\<And>n. k \<noteq> TopKAccuracy n" "holds h m" "has_global_stats m"
  shows "\<exists>em. foldl (metric_step np) (Metric k m) ops = Metric k em \<and> holds (foldl (history_step pair) h ops) em
    \<and> em_name em = em_name m \<and> has_global_stats em"
  using assms(3,4)
proof (induction ops arbitrary: h m)
  case (Cons oper ops)
  from metric_step_holds [OF assms(1,2) Cons.prems] obtain m' where
    m': "metric_step np (Metric k m) oper = Metric k m'" "holds (history_step pair h oper) m'"
    "em_name m' = em_name m" "has_global_stats m'" by blast
  from Cons.IH [OF m'(2,4)] show ?case by (simp add: m'(1,3))
qed simp

lemma metric_get_holds:
  assumes "kind_pair np k = Some pair" "holds (global, local) em" "has_global_stats em"
  shows "metric_get (Metric k em) = [(em_name em, ratio local)]" "metric_get_global (Metric k em) = [(em_name em, ratio global)]"
proof -
  have "\<And>i a. k \<noteq> Perplexity i a" using assms(1) by (auto simp: kind_pair_def)
  then have "metric_get (Metric k em) = [EvalMetric_get em]" "metric_get_global (Metric k em) = [EvalMetric_get_global em]"
    by (cases k; simp)+
  then show "metric_get (Metric k em) = [(em_name em, ratio local)]"
    "metric_get_global (Metric k em) = [(em_name em, ratio global)]"
    using assms(2,3) by (simp_all add: EvalMetric_get_def EvalMetric_get_global_def ratio_def holds_def)
qed

lemma holds_init [simp]: "holds ([], []) (EvalMetric_init name onames lnames glob)"
  "em_name (EvalMetric_init name onames lnames glob) = name"
  "has_global_stats (EvalMetric_init name onames lnames glob) = glob"
  by (simp_all add: holds_def EvalMetric_init_def EvalMetric_reset_def)

text \<open>
  C13.  The statistics of a metric.  For every class that adds up contributions of pairs (all but \<open>F1\<close>, \<open>MCC\<close>, the
  perplexity, the plain losses, custom metrics and the top-k accuracy), after any sequence of updates, failing ones included,
  and resets: \<open>get\<close> is the sum of the contributions since the last reset of either kind over their
  count, \<open>get_global\<close> the same since the last full reset, and both are \<open>nan\<close> when nothing was counted.
\<close>

theorem metric_statistics:
  assumes "kind_pair np k = Some pair" and "\<And>n. k \<noteq> TopKAccuracy n"
    and "foldl (history_step pair) ([], []) ops = (global, local)"
    and "foldl (metric_step np) (Metric k (EvalMetric_init name onames lnames True)) ops = m"
  shows "metric_get m = [(name, ratio local)] \<and> metric_get_global m = [(name, ratio global)]"
  using metric_run_holds [OF assms(1,2), of "([], [])" "EvalMetric_init name onames lnames True" ops]
    metric_get_holds [OF assms(1)] assms(3,4) by auto

text \<open>For the examples: metrics that call neither of the two functions.\<close>

definition demo_numpy :: numpy where
  "demo_numpy = \<lparr> np_argpartition = (\<lambda>_ _. Inl ValueError), np_corrcoef = (\<lambda>_ _. 0) \<rparr>"

theorem metric_statistics_witness:
  "let a = (\<lambda>x. ArrList [\<lparr> a_shape = [1], a_vals = [x] \<rparr>]);
       m = foldl (metric_step demo_numpy) (Metric MSE (EvalMetric_init ''mse'' None None True))
             [Update (a 1) (a 3), ResetLocal, Update (a 0) (a 1), Update (a 0) (ArrList [])]
   in metric_get m = [(''mse'', Some 1)] \<and> metric_get_global m = [(''mse'', Some (5 / 2))]"
proof -
  let ?a = "\<lambda>x. ArrList [\<lparr> a_shape = [1], a_vals = [x] \<rparr>]"
  let ?ops = "[Update (?a 1) (?a 3), ResetLocal, Update (?a 0) (?a 1), Update (?a 0) (ArrList [])]"
  have p: "MSE_pair \<lparr> a_shape = [1], a_vals = [x] \<rparr> \<lparr> a_shape = [1], a_vals = [y] \<rparr> = Inr ((x - y)\<^sup>2, (x - y)\<^sup>2, 1)" for x y
    by (simp add: MSE_pair_def column_def broadcast2_def mean_def Let_def)
  have "foldl (history_step MSE_pair) ([], []) ?ops = ([(4, 1), (1, 1)], [(1, 1)])"
    by (simp add: contributions_def check_label_shapes_def arrs_len_def wrap_arrs_def p del: One_nat_def)
  from metric_statistics [OF _ _ this refl, of demo_numpy MSE "''mse''" None None]
  show ?thesis by (simp add: kind_pair_def ratio_def Let_def)
qed

text \<open>A loop over batches, one update each.\<close>

definition updates :: "(real arr \<times> real arr) list \<Rightarrow> metric_op list" where
  "updates batches = map (\<lambda>lp. Update (ArrList [fst lp]) (ArrList [snd lp])) batches"

lemma metric_updates:
  assumes kp: "kind_pair np k = Some pair" "\<And>n. k \<noteq> TopKAccuracy n"
    and p: "\<And>lp. lp \<in> set batches \<Longrightarrow> pair (fst lp) (snd lp) = Inr (f lp, f lp, c lp)"
  shows "metric_get (foldl (metric_step np) (Metric k (EvalMetric_init name onames lnames True)) (updates batches))
    = [(name, ratio (map (\<lambda>lp. (f lp, c lp)) batches))]"
proof -
  let ?cs = "map (\<lambda>lp. (f lp, c lp)) batches"
  have "contributions pair (ArrList [fst lp]) (ArrList [snd lp]) = [(f lp, c lp)]" if "lp \<in> set batches" for lp
    using p [OF that] by (cases lp) (simp add: contributions_def check_label_shapes_def arrs_len_def wrap_arrs_def)
  then have "foldl (history_step pair) (G, L) (updates batches) = (G @ ?cs, L @ ?cs)" for G L
    unfolding updates_def by (induction batches arbitrary: G L) simp_all
  from this [of "[]" "[]"] show ?thesis
    using metric_run_holds [OF kp, of "([], [])" "EvalMetric_init name onames lnames True" "updates batches"]
      metric_get_holds(1) [OF kp(1)] by auto
qed

section \<open>Accuracy\<close>

text \<open>A batch of class labels with a row of scores per sample.\<close>

definition class_batch :: "real arr \<times> real arr \<Rightarrow> bool" where
  "class_batch lp \<longleftrightarrow>
     (\<exists>n k. a_shape (fst lp) = [n] \<and> a_shape (snd lp) = [n, k] \<and> arr_ok (fst lp) \<and> arr_ok (snd lp))"

definition samples :: "real arr \<times> real arr \<Rightarrow> (real \<times> real list) list" where
  "samples lp = zip (a_vals (fst lp)) (rows_of (snd lp))"

definition hits :: "(real \<times> real list) list \<Rightarrow> nat" where
  "hits ss = length (filter (\<lambda>(l, r). to_int l = int (argmax r)) ss)"

lemma class_batch_rows:
  assumes "class_batch lp"
  shows "rows_of (snd lp) = fibres 1 (snd lp)" "length (rows_of (snd lp)) = length (a_vals (fst lp))"
    "length (samples lp) = length (a_vals (fst lp))"
proof -
  from assms obtain n k where s: "a_shape (fst lp) = [n]" "a_shape (snd lp) = [n, k]" "arr_ok (fst lp)" "arr_ok (snd lp)"
    by (auto simp: class_batch_def)
  show r: "rows_of (snd lp) = fibres 1 (snd lp)" using s(2) by (simp add: rows_of_def)
  show l: "length (rows_of (snd lp)) = length (a_vals (fst lp))"
    using s(1,3) unfolding r fibres_rows [OF s(2,4)] by (simp add: arr_ok_def)
  then show "length (samples lp) = length (a_vals (fst lp))" by (simp add: samples_def)
qed

lemma count_true_map2: "count_true (map2 f xs ys) = length (filter (\<lambda>(x, y). f x y) (zip xs ys))"
  by (induction xs ys rule: list_induct2') (auto simp: count_true_def)

lemma Accuracy_pair_class:
  assumes "class_batch lp"
  shows "Accuracy_pair 1 (fst lp) (snd lp) = Inr (real (hits (samples lp)), real (hits (samples lp)), real (length (samples lp)))"
proof -
  from assms obtain n k where s: "a_shape (fst lp) = [n]" "a_shape (snd lp) = [n, k]" by (auto simp: class_batch_def)
  let ?rows = "fibres 1 (snd lp)" and ?ls = "a_vals (fst lp)"
  have len: "length ?rows = length ?ls" using class_batch_rows [OF assms] by simp
  have am: "nd_argmax 1 (snd lp) = Inr \<lparr> a_shape = reduced_shape 1 [n, k], a_vals = map (\<lambda>r. real (argmax r)) ?rows \<rparr>"
    by (simp add: nd_argmax_def check_axis_def s(2))
  have "length (filter (\<lambda>(x, y). x = y) (zip (map (\<lambda>r. int (argmax r)) rs) (map to_int ls))) = hits (zip ls rs)" for rs ls
    by (induction ls rs rule: list_induct2') (auto simp: hits_def)
  then show ?thesis using len s am class_batch_rows [OF assms]
    by (simp add: Accuracy_pair_def Let_def comp_def count_true_map2 samples_def)
qed

text \<open>
  C29.  Over any sequence of batches the accuracy is the share of all samples whose label is the (first)
  class with the highest score, independent of how the samples were cut into batches.
\<close>

theorem Accuracy_share:
  assumes "\<forall>lp \<in> set batches. class_batch lp"
  shows "metric_get (foldl (metric_step np) (Metric (Accuracy 1) (EvalMetric_init name onames lnames True)) (updates batches)) =
    [(name, let ss = concat (map samples batches)
            in if ss = [] then None else Some (real (hits ss) / real (length ss)))]"
proof -
  let ?cs = "map (\<lambda>lp. (real (hits (samples lp)), real (length (samples lp)))) batches"
  have "total_of ?cs = real (hits (concat (map samples batches)))"
    by (induction batches) (simp_all add: hits_def)
  moreover have "instances ?cs = real (length (concat (map samples batches)))"
    by (induction batches) simp_all
  ultimately show ?thesis
    using metric_updates [of np "Accuracy 1" "Accuracy_pair 1" batches] assms Accuracy_pair_class
    by (simp add: kind_pair_def ratio_def Let_def)
qed

theorem Accuracy_share_witness:
  "let b1 = (\<lparr> a_shape = [2], a_vals = [1, 0] \<rparr>, \<lparr> a_shape = [2, 2], a_vals = [0, 1, 3, 4] \<rparr>);
       b2 = (\<lparr> a_shape = [1], a_vals = [1] \<rparr>, \<lparr> a_shape = [1, 2], a_vals = [0, 9] \<rparr>)
   in metric_get (foldl (metric_step demo_numpy) (Metric (Accuracy 1) (EvalMetric_init ''accuracy'' None None True))
        (updates [b1, b2])) = [(''accuracy'', Some (2 / 3))]"
proof -
  let ?b1 = "(\<lparr> a_shape = [2], a_vals = [1, 0] \<rparr>, \<lparr> a_shape = [2, 2], a_vals = [0, 1, 3, 4] \<rparr>) :: real arr \<times> real arr"
  let ?b2 = "(\<lparr> a_shape = [1], a_vals = [1] \<rparr>, \<lparr> a_shape = [1, 2], a_vals = [0, 9] \<rparr>) :: real arr \<times> real arr"
  have "samples ?b1 = [(1, [0, 1]), (0, [3, 4])]" "samples ?b2 = [(1, [0, 9])]"
    by (simp_all add: samples_def rows_of_def fibres_def numeral_2_eq_2)
  moreover have "hits [(1, [0, 1]), (0, [3, 4]), (1, [0, 9])] = 2"
    by (simp add: hits_def argmax_def to_int_def)
  moreover have "\<forall>lp \<in> set [?b1, ?b2]. class_batch lp" by (simp add: class_batch_def arr_ok_def)
  ultimately show ?thesis
    using Accuracy_share [of "[?b1, ?b2]" demo_numpy "''accuracy''" None None] by (simp add: Let_def)
qed

section \<open>Mean errors over batches\<close>

text \<open>The squared error of a batch: equal shapes, and as many values as every other batch.\<close>

definition error_batch :: "nat \<Rightarrow> real arr \<times> real arr \<Rightarrow> bool" where
  "error_batch n lp \<longleftrightarrow>
     a_shape (fst lp) = a_shape (snd lp) \<and> arr_ok (fst lp) \<and> arr_ok (snd lp) \<and> length (a_vals (fst lp)) = n"

definition sq_errors :: "real arr \<times> real arr \<Rightarrow> real list" where
  "sq_errors lp = map2 (\<lambda>l p. (l - p)\<^sup>2) (a_vals (fst lp)) (a_vals (snd lp))"

lemma broadcast_column:
  assumes "error_batch n lp"
  shows "\<exists>d. broadcast2 f (column (fst lp)) (column (snd lp)) = Inr d
    \<and> a_vals d = map2 f (a_vals (fst lp)) (a_vals (snd lp))"
proof -
  let ?l = "column (fst lp)" and ?p = "column (snd lp)"
  have "arr_ok ?l" "arr_ok ?p" "a_shape ?l = a_shape ?p" "a_vals ?l = a_vals (fst lp)" "a_vals ?p = a_vals (snd lp)"
    using assms by (auto simp: error_batch_def arr_ok_def column_def length_Suc_conv)
  then show ?thesis using broadcast2_same [of ?l ?p f] by simp
qed

lemma sq_error_pairs:
  assumes "error_batch n lp"
  shows "MSE_pair (fst lp) (snd lp) = Inr (mean (sq_errors lp), mean (sq_errors lp), 1)"
    "RMSE_pair (fst lp) (snd lp) = Inr (sqrt (mean (sq_errors lp)), sqrt (mean (sq_errors lp)), 1)"
  using broadcast_column [OF assms, of "\<lambda>l p. (l - p)\<^sup>2"]
  by (auto simp: MSE_pair_def RMSE_pair_def sq_errors_def Let_def)

lemma sum_list_square_le:
  fixes xs :: "real list"
  shows "(sum_list xs)\<^sup>2 \<le> real (length xs) * sum_list (map (\<lambda>x. x\<^sup>2) xs)"
proof (induction xs)
  case (Cons x xs)
  let ?S = "sum_list xs" and ?Q = "sum_list (map (\<lambda>x. x\<^sup>2) xs)" and ?n = "real (length xs)"
  have "sum_list (map (\<lambda>y. (y - x)\<^sup>2) ys) = sum_list (map (\<lambda>x. x\<^sup>2) ys) - 2 * x * sum_list ys + real (length ys) * x\<^sup>2" for ys
    by (induction ys) (simp_all add: power2_eq_square algebra_simps)
  from this [of xs] have "0 \<le> ?Q - 2 * x * ?S + ?n * x\<^sup>2"
    by (metis (no_types, lifting) sum_list_nonneg imageE list.set_map zero_le_power2)
  then show ?case using Cons by (simp add: power2_eq_square algebra_simps)
qed simp

lemma mean_concat:
  assumes "\<forall>xs \<in> set xss. length xs = n" "0 < n"
  shows "mean (concat xss) = sum_list (map mean xss) / real (length xss)"
proof -
  have l: "length (concat xss) = length xss * n" using assms(1) by (induction xss) auto
  have "sum_list (map mean xss) = sum_list (concat xss) / real n"
    using assms(1) by (induction xss) (simp_all add: mean_def add_divide_distrib)
  then show ?thesis using assms(2) by (simp add: mean_def l)
qed



section \<open>Top-k accuracy\<close>

text \<open>What NumPy documents of \<open>argpartition(xs, -k)\<close>: a permutation of the positions whose last \<open>k\<close> entries
  are those of values no smaller than the others, in any order.\<close>

definition partitions :: "(real list \<Rightarrow> int \<Rightarrow> nat list result) \<Rightarrow> bool" where
  "partitions argpartition \<longleftrightarrow>
     (\<forall>xs k. 1 \<le> k \<and> k \<le> length xs \<longrightarrow>
        (\<exists>p. argpartition xs (- int k) = Inr p \<and> mset p = mset [0..<length xs]
           \<and> (\<forall>i \<in> set (take (length xs - k) p). \<forall>j \<in> set (drop (length xs - k) p). xs ! i \<le> xs ! j)))"

definition top_k_hit :: "nat \<Rightarrow> real \<times> real list \<Rightarrow> bool" where
  "top_k_hit k = (\<lambda>(l, r). card {j. j < length r \<and> r ! nat (to_int l) < r ! j} < k)"

lemma top_k_rank:
  fixes r :: "real list"
  assumes "distinct r" "l < length r" "1 \<le> k" "k \<le> length r" "mset p = mset [0..<length r]"
    and "\<forall>i \<in> set (take (length r - k) p). \<forall>j \<in> set (drop (length r - k) p). r ! i \<le> r ! j"
  shows "l \<in> set (drop (length r - k) p) \<longleftrightarrow> card {j. j < length r \<and> r ! l < r ! j} < k"
proof -
  let ?C = "set (take (length r - k) p)" and ?T = "set (drop (length r - k) p)" and ?A = "{j. j < length r \<and> r ! l < r ! j}"
  have p: "distinct p" "set p = {0..<length r}" "length p = length r"
    using assms(5) mset_eq_imp_distinct_iff [OF assms(5)] mset_eq_setD [OF assms(5)] mset_eq_length [OF assms(5)] by auto
  have split: "?C \<union> ?T = {0..<length r}" "?C \<inter> ?T = {}"
    using p(1,2) by (metis append_take_drop_id set_append, simp add: set_take_disj_set_drop_if_distinct)
  have card: "card ?T = k" using p(1,3) assms(4) by (simp add: distinct_card distinct_drop)
  have less: "r ! i < r ! j" if "i \<in> ?C" "j \<in> ?T" for i j
  proof -
    have "i < length r" "j < length r" "i \<noteq> j" using that split by auto
    then have "r ! i \<noteq> r ! j" using assms(1) by (simp add: nth_eq_iff_index_eq)
    moreover have "r ! i \<le> r ! j" using assms(6) that by blast
    ultimately show ?thesis by simp
  qed
  have mem: "j \<in> ?C \<or> j \<in> ?T" if "j < length r" for j
    using that split(1) by (metis UnE atLeastLessThan_iff zero_le)
  show ?thesis
  proof
    assume l: "l \<in> ?T"
    have "?A \<subseteq> ?T - {l}"
    proof
      fix j assume j: "j \<in> ?A"
      then have "j < length r" "r ! l < r ! j" by simp_all
      then show "j \<in> ?T - {l}" using mem less [of j l] l by (metis DiffI empty_iff insert_iff less_asym less_irrefl)
    qed
    then have "card ?A \<le> card (?T - {l})" by (intro card_mono) simp_all
    also have "\<dots> < k" using l card assms(3) by (simp add: card_Diff_singleton)
    finally show "card ?A < k" .
  next
    assume a: "card ?A < k"
    show "l \<in> ?T"
    proof (rule ccontr)
      assume "l \<notin> ?T"
      then have l: "l \<in> ?C" using mem [OF assms(2)] by blast
      have "?T \<subseteq> ?A"
      proof
        fix j assume "j \<in> ?T"
        moreover from this have "j < length r" using split(1) by (metis UnCI atLeastLessThan_iff)
        ultimately show "j \<in> ?A" using less [OF l] by simp
      qed
      then have "card ?T \<le> card ?A" by (intro card_mono) simp_all
      then show False using a card by simp
    qed
  qed
qed

lemma count_last:
  assumes "distinct p" "k \<le> length p"
  shows "sum_list (map (\<lambda>j. if p ! (length p - 1 - j) = x then 1 else 0) [0..<k]) = (if x \<in> set (drop (length p - k) p) then 1 else (0 :: nat))"
  using assms(2)
proof (induction k)
  case (Suc k)
  have "drop (length p - Suc k) p = p ! (length p - 1 - k) # drop (length p - k) p"
    using Suc.prems Cons_nth_drop_Suc [of "length p - Suc k" p] by (simp add: Suc_diff_Suc)
  moreover have "p ! (length p - 1 - k) \<notin> set (drop (length p - k) p)"
    using assms(1) calculation distinct_drop [of p "length p - Suc k"] by simp
  ultimately show ?case using Suc by auto
qed simp

text \<open>Adding up column by column counts every sample at most once.\<close>

lemma top_k_columns:
  assumes "\<forall>p \<in> set parts. distinct p \<and> length p = c" "k \<le> c" "length parts = length li"
  shows "sum_list (map (\<lambda>j. count_true (map2 (=) (map (\<lambda>p. int (p ! (c - 1 - j))) parts) li)) [0..<k])
    = length (filter (\<lambda>(p, l). 0 \<le> l \<and> nat l \<in> set (drop (c - k) p)) (zip parts li))"
  using assms(3,1)
proof (induction parts li rule: list_induct2)
  case Nil
  then show ?case by (simp add: count_true_def)
next
  case (Cons p ps l ls)
  have c: "count_true (map2 (=) (map (\<lambda>p. int (p ! (c - 1 - j))) (p # ps)) (l # ls))
      = (if int (p ! (c - 1 - j)) = l then 1 else 0) + count_true (map2 (=) (map (\<lambda>p. int (p ! (c - 1 - j))) ps) ls)" for j
    by (simp add: count_true_def)
  have "sum_list (map (\<lambda>j. if int (p ! (c - 1 - j)) = l then 1 else 0) [0..<k])
      = (if 0 \<le> l \<and> nat l \<in> set (drop (c - k) p) then 1 else (0 :: nat))"
  proof (cases "0 \<le> l")
    case True
    then have "(\<lambda>j. if int (p ! (c - 1 - j)) = l then 1 else 0) = (\<lambda>j. if p ! (c - 1 - j) = nat l then 1 else (0 :: nat))"
      by (auto simp: fun_eq_iff)
    then show ?thesis using count_last [of p k "nat l"] Cons.prems assms(2) True by simp
  qed (auto intro!: sum_list_0)
  then show ?case using Cons by (simp only: c sum_list_addf) simp
qed

lemma filter_zip_swap:
  "length (filter (\<lambda>(p, l). P l p) (zip (map f rs) (map g ls))) = length (filter (\<lambda>(l, r). P (g l) (f r)) (zip ls rs))"
  by (induction ls rs rule: list_induct2') auto

lemma perm_upt: "mset p = mset [0..<c] \<Longrightarrow> distinct p \<and> length p = c"
  by (metis diff_zero distinct_upt length_upt mset_eq_imp_distinct_iff mset_eq_length)

lemma partition_rows:
  assumes "partitions argpartition" "1 \<le> k" "k \<le> c" "\<forall>r \<in> set rows. length r = c"
  obtains f where "mapM (\<lambda>r. argpartition r (- int k)) rows = Inr (map f rows)"
    "\<And>r. r \<in> set rows \<Longrightarrow> mset (f r) = mset [0..<c]
      \<and> (\<forall>i \<in> set (take (c - k) (f r)). \<forall>j \<in> set (drop (c - k) (f r)). r ! i \<le> r ! j)"
proof -
  have "\<exists>p. argpartition r (- int k) = Inr p \<and> mset p = mset [0..<c]
      \<and> (\<forall>i \<in> set (take (c - k) p). \<forall>j \<in> set (drop (c - k) p). r ! i \<le> r ! j)" if "r \<in> set rows" for r
    using assms that unfolding partitions_def by metis
  then obtain f where f: "\<And>r. r \<in> set rows \<Longrightarrow> argpartition r (- int k) = Inr (f r) \<and> mset (f r) = mset [0..<c]
      \<and> (\<forall>i \<in> set (take (c - k) (f r)). \<forall>j \<in> set (drop (c - k) (f r)). r ! i \<le> r ! j)" by metis
  then have "mapM (\<lambda>r. argpartition r (- int k)) rows = Inr (map f rows)" by (intro mapM_Inr) blast
  with f that show thesis by blast
qed


text \<open>Sorting all positions by their scores is one such function.\<close>

definition sorting_argpartition :: "real list \<Rightarrow> int \<Rightarrow> nat list result" where
  "sorting_argpartition xs kth =
     (if - int (length xs) \<le> kth \<and> kth < int (length xs) then Inr (sort_key (\<lambda>i. xs ! i) [0..<length xs]) else Inl ValueError)"

lemma sorting_partitions: "partitions sorting_argpartition"
  unfolding partitions_def
proof (intro allI impI)
  fix xs :: "real list" and k
  assume k: "1 \<le> k \<and> k \<le> length xs"
  let ?p = "sort_key (\<lambda>i. xs ! i) [0..<length xs]"
  have s: "sorted (map (\<lambda>i. xs ! i) ?p)" by (rule sorted_sort_key)
  have "xs ! i \<le> xs ! j" if "i \<in> set (take (length xs - k) ?p)" "j \<in> set (drop (length xs - k) ?p)" for i j
  proof -
    have "sorted (map (\<lambda>i. xs ! i) (take (length xs - k) ?p @ drop (length xs - k) ?p))" using s by simp
    then show ?thesis unfolding map_append sorted_append using that by auto
  qed
  then show "\<exists>p. sorting_argpartition xs (- int k) = Inr p \<and> mset p = mset [0..<length xs]
      \<and> (\<forall>i \<in> set (take (length xs - k) p). \<forall>j \<in> set (drop (length xs - k) p). xs ! i \<le> xs ! j)"
    using k by (auto simp: sorting_argpartition_def)
qed


text \<open>With more classes asked for than there are, \<open>argpartition\<close> raises, so the code's own limit on \<open>k\<close> is never used.\<close>

lemma TopKAccuracy_too_few_classes:
  assumes "\<And>xs k. length xs < nat k \<Longrightarrow> argpartition xs (- k) = Inl ValueError"
    and "class_batch (label, pred)" and "a_shape pred = [n, c]" and "0 < n" and "int c < top_k"
  shows "TopKAccuracy_pair argpartition top_k label pred = Inl ValueError"
proof -
  have ok: "arr_ok pred" using assms(2) by (auto simp: class_batch_def)
  have r: "rows_of pred = fibres 1 pred" using class_batch_rows(1) [OF assms(2)] by simp
  obtain m where n: "n = Suc m" using assms(4) by (cases n) auto
  have "length (take c (a_vals pred)) < nat top_k" using assms(5) by auto
  then show ?thesis using assms(1) unfolding TopKAccuracy_pair_def r fibres_rows [OF assms(3) ok] n
    by (simp add: assms(3) upt_conv_Cons del: upt_Suc)
qed

end
