(* ===== verification/Binary_Laws.thy ===== *)
theory Binary_Laws
  imports Metric_Laws
begin

text \<open>
  \<open>F1\<close> and \<open>MCC\<close> of \<open>python/mxnet/metric.py\<close>: the counts of \<open>_BinaryClassificationMetrics\<close> against the confusion
  matrix of the samples, the scores as functions of the counts, and the two ways of averaging over batches.
\<close>

section \<open>Scores\<close>

text \<open>The harmonic mean of precision and recall, as counts.\<close>

definition f1_counts :: "nat \<Rightarrow> nat \<Rightarrow> nat \<Rightarrow> real" where
  "f1_counts tp fp fn = 2 * real tp / (2 * real tp + real fp + real fn)"

lemma harmonic_real:
  fixes x y z :: real
  assumes "0 < x" "0 < y" "0 < z"
  shows "2 * (x / y) * (x / z) / (x * (y + z) / (y * z)) = 2 * x / (y + z)"
proof -
  have "y + z \<noteq> 0" using assms by simp
  then show ?thesis using assms by (simp add: divide_simps)
qed

lemma f1_harmonic:
  defines "p \<equiv> \<lambda>t x. if 0 < t + x then real t / real (t + x) else 0"
  shows "(if 0 < p t a + p t b then 2 * p t a * p t b / (p t a + p t b) else 0) = f1_counts t a b"
proof (cases "t = 0")
  case True
  then show ?thesis by (simp add: p_def f1_counts_def)
next
  case False
  let ?t = "real t" and ?a = "real (t + a)" and ?b = "real (t + b)"
  have pos: "0 < ?t" "0 < ?a" "0 < ?b" using False by simp_all
  have pr: "p t a = ?t / ?a" "p t b = ?t / ?b" using False by (simp_all add: p_def)
  have "?t / ?a + ?t / ?b = ?t * (?a + ?b) / (?a * ?b)" using pos by (simp add: field_simps)
  moreover have "0 < ?t / ?a + ?t / ?b" using pos by (simp add: add_pos_pos)
  ultimately have "(if 0 < p t a + p t b then 2 * p t a * p t b / (p t a + p t b) else 0)
      = 2 * (?t / ?a) * (?t / ?b) / (?t * (?a + ?b) / (?a * ?b))"
    by (simp add: pr)
  also have "\<dots> = 2 * ?t / (?a + ?b)" by (rule harmonic_real [OF pos])
  finally show ?thesis by (simp add: f1_counts_def algebra_simps)
qed

lemma fscore_closed:
  "fscore s = f1_counts (true_positives s) (false_positives s) (false_negatives s)"
  "global_fscore s = f1_counts (global_true_positives s) (global_false_positives s) (global_false_negatives s)"
  using f1_harmonic unfolding fscore_def global_fscore_def precision_def recall_def global_precision_def global_recall_def
  by blast+

lemma f1_bounds: "0 \<le> f1_counts t a b" "f1_counts t a b \<le> 1"
  by (auto simp: f1_counts_def divide_le_eq_1)

lemma mcc_bound:
  assumes "0 \<le> tp" "0 \<le> fp" "0 \<le> fn" "0 \<le> tn"
  shows "\<bar>mcc_value tp fp fn tn\<bar> \<le> 1"
proof (cases "tp + fp = 0 \<or> tp + fn = 0 \<or> tn + fp = 0 \<or> tn + fn = 0")
  case True
  then have "tp * tn - fp * fn = 0" using assms by (auto simp: add_nonneg_eq_0_iff)
  then show ?thesis by (simp add: mcc_value_def)
next
  case False
  let ?d = "(tp + fp) * (tp + fn) * (tn + fp) * (tn + fn)"
  have d: "mcc_value tp fp fn tn = (tp * tn - fp * fn) / sqrt ?d" using False by (simp add: mcc_value_def)
  have pos: "0 < ?d" using False assms by (intro mult_pos_pos) (auto simp: less_le)
  have "(tp * tn - fp * fn)\<^sup>2 \<le> ?d"
  proof -
    have "(tp * tn - fp * fn)\<^sup>2 \<le> (tp * tn + fp * fn)\<^sup>2"
      using assms by (intro power2_le_iff_abs_le [THEN iffD2]) (auto simp: abs_le_iff)
    also have "\<dots> \<le> ?d"
      using assms by (simp add: power2_eq_square algebra_simps)
    finally show ?thesis .
  qed
  then have "\<bar>tp * tn - fp * fn\<bar> \<le> sqrt ?d" by (simp add: real_le_rsqrt)
  then show ?thesis using pos by (simp add: d abs_divide divide_le_eq)
qed

section \<open>Counts\<close>

text \<open>The confusion matrix of a list of samples, the class with the first highest score being the prediction.\<close>

definition confusion :: "(real \<times> real list) list \<Rightarrow> nat \<times> nat \<times> nat \<times> nat" where
  "confusion ss =
     (let cnt = (\<lambda>f. length (filter (\<lambda>(l, r). f (argmax r = 1) (to_int l = 1)) ss))
      in (cnt (\<lambda>p l. p \<and> l), cnt (\<lambda>p l. p \<and> \<not> l), cnt (\<lambda>p l. \<not> p \<and> l), cnt (\<lambda>p l. \<not> p \<and> \<not> l)))"

definition binary_batch :: "real arr \<times> real arr \<Rightarrow> bool" where
  "binary_batch lp \<longleftrightarrow> class_batch lp \<and> length (remdups (map to_int (a_vals (fst lp)))) \<le> 2"

lemma filter_zip_flip:
  "length (filter (\<lambda>(p, l). P p l) (zip (map f rs) (map g ls))) = length (filter (\<lambda>(l, r). P (f r) (g l)) (zip ls rs))"
  by (induction ls rs rule: list_induct2') auto

lemma update_binary_class:
  assumes "binary_batch lp"
  shows "update_binary_stats (fst lp) (snd lp) s = (add_counts (confusion (samples lp)) s, Inr ())"
proof -
  from assms obtain n c where sh: "a_shape (fst lp) = [n]" "a_shape (snd lp) = [n, c]" "arr_ok (fst lp)"
    by (auto simp: binary_batch_def class_batch_def)
  have cb: "class_batch lp" using assms by (simp add: binary_batch_def)
  let ?rows = "rows_of (snd lp)" and ?ls = "a_vals (fst lp)"
  let ?pt = "map_arr (\<lambda>p. p = 1) \<lparr> a_shape = [n], a_vals = map argmax ?rows \<rparr>"
  let ?lt = "map_arr (\<lambda>l. l = 1) (map_arr to_int (fst lp))"
  have am: "np_argmax1 (snd lp) = Inr \<lparr> a_shape = [n], a_vals = map argmax ?rows \<rparr>"
    using class_batch_rows(1) [OF cb] by (simp add: np_argmax1_def sh reduced_shape_def)
  have len: "check_lens (map_arr to_int (fst lp)) (snd lp) = Inr ()"
    by (simp add: check_lens_def arr_len_def map_arr_def sh)
  have "arr_ok ?pt" "arr_ok ?lt" "a_shape ?pt = a_shape ?lt"
    using sh class_batch_rows(2) [OF cb] by (simp_all add: arr_ok_def map_arr_def)
  then have "broadcast2 f ?pt ?lt = Inr \<lparr> a_shape = a_shape ?pt, a_vals = map2 f (a_vals ?pt) (a_vals ?lt) \<rparr>"
    for f :: "bool \<Rightarrow> bool \<Rightarrow> bool" by (intro broadcast2_same)
  then have tot: "rbind (broadcast2 f ?pt ?lt) (\<lambda>a. Inr (count_true (a_vals a)))
      = Inr (length (filter (\<lambda>(l, r). f (argmax r = 1) (to_int l = 1)) (samples lp)))" for f
    using filter_zip_flip [of f "\<lambda>r. argmax r = 1" ?rows "\<lambda>l. to_int l = 1" ?ls]
    by (simp add: count_true_map2 map_arr_def samples_def comp_def del: One_nat_def)
  have "length (remdups (a_vals (map_arr to_int (fst lp)))) \<le> 2" using assms by (simp add: binary_batch_def map_arr_def)
  then show ?thesis unfolding update_binary_stats_def am rbind_simps Let_def len confusion_def tot by simp
qed

lemma confusion_total: "(case confusion ss of (tp, fp, fn, tn) \<Rightarrow> fn + fp + tn + tp) = length ss"
  by (induction ss) (auto simp: confusion_def Let_def)

definition counts_sum :: "nat \<times> nat \<times> nat \<times> nat \<Rightarrow> nat \<times> nat \<times> nat \<times> nat \<Rightarrow> nat \<times> nat \<times> nat \<times> nat" where
  "counts_sum = (\<lambda>(a, b, c, d) (a', b', c', d'). (a + a', b + b', c + c', d + d'))"

lemma confusion_append: "confusion (ss @ ts) = counts_sum (confusion ss) (confusion ts)"
  by (simp add: confusion_def counts_sum_def Let_def)

lemma add_counts_add: "add_counts d (add_counts c s) = add_counts (counts_sum c d) s"
  by (cases c; cases d) (simp add: add_counts_def counts_sum_def)

text \<open>
  C32.  The scores: \<open>fscore\<close> is \<open>2 TP / (2 TP + FP + FN)\<close> and lies between 0 and 1, also when precision or recall is
  undefined; the correlation coefficient lies between -1 and 1, with its zero terms replaced by 1.
\<close>

theorem binary_scores:
  "fscore s = 2 * real (true_positives s) / (2 * real (true_positives s) + real (false_positives s) + real (false_negatives s))
   \<and> 0 \<le> fscore s \<and> fscore s \<le> 1 \<and> 0 \<le> global_fscore s \<and> global_fscore s \<le> 1 \<and> \<bar>matthewscc use_global s\<bar> \<le> 1"
  by (simp add: fscore_closed f1_bounds matthewscc_def mcc_bound) (simp add: f1_counts_def)

section \<open>Averaging over batches\<close>

definition f1_of :: "(real \<times> real list) list \<Rightarrow> real" where
  "f1_of ss = (case confusion ss of (tp, fp, fn, tn) \<Rightarrow> f1_counts tp fp fn)"

lemma stats_confusion:
  defines "s \<equiv> \<lambda>ss. add_counts (confusion ss) BinaryMetrics_init"
  shows "fscore (s ss) = f1_of ss" "global_fscore (s ss) = f1_of ss"
    "total_examples (s ss) = length ss" "global_total_examples (s ss) = length ss"
    "reset_stats (s ss) = BinaryMetrics_init"
  using confusion_total [of ss]
  by (auto simp: s_def fscore_closed f1_of_def add_counts_def BinaryMetrics_init_def total_examples_def
      global_total_examples_def reset_stats_def split: prod.splits)

lemma F1_update_batch:
  assumes "binary_batch lp"
  shows "F1_update avg (ArrList [fst lp]) (ArrList [snd lp]) (m, s) =
    (let s = add_counts (confusion (samples lp)) s
     in if avg = ''macro'' then ((accumulate (fscore s, global_fscore s, 1) m, reset_stats s), Inr ())
        else ((m\<lparr> sum_metric := fscore s * real (total_examples s),
                  global_sum_metric := global_fscore s * real (global_total_examples s),
                  num_inst := real (total_examples s), global_num_inst := real (global_total_examples s) \<rparr>, s), Inr ()))"
  using update_binary_class [OF assms]
  by (cases lp) (simp add: F1_update_def check_label_shapes_def arrs_len_def wrap_arrs_def Let_def)

lemma F1_micro_run:
  assumes "\<forall>lp \<in> set batches. binary_batch lp" "avg \<noteq> ''macro''"
  shows "\<exists>m. foldl (metric_step np) (Metric (F1 avg BinaryMetrics_init) (EvalMetric_init name onames lnames True)) (updates batches)
      = Metric (F1 avg (add_counts (confusion (concat (map samples batches))) BinaryMetrics_init)) m
    \<and> em_name m = name \<and> num_inst m = real (length (concat (map samples batches)))
    \<and> sum_metric m = f1_of (concat (map samples batches)) * num_inst m"
  using assms(1)
proof (induction batches rule: rev_induct)
  case Nil
  then show ?case
    by (simp add: updates_def confusion_def add_counts_def BinaryMetrics_init_def EvalMetric_init_def EvalMetric_reset_def)
next
  case (snoc lp batches)
  then obtain m where m: "foldl (metric_step np) (Metric (F1 avg BinaryMetrics_init) (EvalMetric_init name onames lnames True)) (updates batches)
      = Metric (F1 avg (add_counts (confusion (concat (map samples batches))) BinaryMetrics_init)) m" "em_name m = name" by auto
  have b: "binary_batch lp" using snoc.prems by simp
  have c: "add_counts (confusion (samples lp)) (add_counts (confusion (concat (map samples batches))) BinaryMetrics_init)
      = add_counts (confusion (concat (map samples (batches @ [lp])))) BinaryMetrics_init"
    by (simp add: add_counts_add confusion_append)
  have u: "updates (batches @ [lp]) = updates batches @ [Update (ArrList [fst lp]) (ArrList [snd lp])]"
    by (simp add: updates_def)
  show ?case unfolding u
    by (simp add: m kind_update_def F1_update_batch [OF b] c Let_def assms(2) stats_confusion
        del: concat_append map_append list.map concat.simps)
qed

lemma F1_macro_run:
  assumes "\<forall>lp \<in> set batches. binary_batch lp"
  shows "\<exists>m. foldl (metric_step np) (Metric (F1 ''macro'' BinaryMetrics_init) (EvalMetric_init name onames lnames True)) (updates batches)
      = Metric (F1 ''macro'' BinaryMetrics_init) m
    \<and> em_name m = name \<and> num_inst m = real (length batches)
    \<and> sum_metric m = sum_list (map (\<lambda>lp. f1_of (samples lp)) batches)"
  using assms
proof (induction batches rule: rev_induct)
  case Nil
  then show ?case by (simp add: updates_def EvalMetric_init_def EvalMetric_reset_def)
next
  case (snoc lp batches)
  then have b: "binary_batch lp" by simp
  show ?case using snoc
    by (auto simp: updates_def kind_update_def F1_update_batch [OF b] Let_def stats_confusion accumulate_def)
qed

text \<open>
  C33.  F1 over batches with one-dimensional labels: with \<open>average\<close> other than \<open>macro\<close> the metric is the F1 score of the
  confusion matrix of all samples, however they were cut into batches; with \<open>macro\<close> it is the mean
  of the batches' F1 scores.
\<close>

theorem F1_over_batches:
  assumes "\<forall>lp \<in> set batches. binary_batch lp"
  shows "metric_get (foldl (metric_step np)
        (Metric (F1 ''micro'' BinaryMetrics_init) (EvalMetric_init name onames lnames True)) (updates batches))
      = [(name, let ss = concat (map samples batches) in if ss = [] then None else Some (f1_of ss))]
    \<and> metric_get (foldl (metric_step np)
        (Metric (F1 ''macro'' BinaryMetrics_init) (EvalMetric_init name onames lnames True)) (updates batches))
      = [(name, if batches = [] then None else Some (mean (map (\<lambda>lp. f1_of (samples lp)) batches)))]"
  using F1_micro_run [OF assms, of "''micro''" np name onames lnames] F1_macro_run [OF assms, of np name onames lnames]
  by (auto simp: EvalMetric_get_def Let_def mean_def)

theorem F1_over_batches_witness:
  "let b = (\<lparr> a_shape = [2], a_vals = [1, 0] \<rparr>, \<lparr> a_shape = [2, 2], a_vals = [0, 1, 3, 4] \<rparr>)
   in metric_get (foldl (metric_step demo_numpy) (Metric (F1 ''macro'' BinaryMetrics_init) (EvalMetric_init ''f1'' None None True))
        (updates [b])) = [(''f1'', Some (2 / 3))]"
proof -
  let ?b = "(\<lparr> a_shape = [2], a_vals = [1, 0] \<rparr>, \<lparr> a_shape = [2, 2], a_vals = [0, 1, 3, 4] \<rparr>) :: real arr \<times> real arr"
  have "samples ?b = [(1, [0, 1]), (0, [3, 4])]" by (simp add: samples_def rows_of_def fibres_def numeral_2_eq_2)
  then have "f1_of (samples ?b) = 2 / 3"
    by (simp add: f1_of_def confusion_def argmax_def to_int_def f1_counts_def)
  moreover have "\<forall>lp \<in> set [?b]. binary_batch lp"
    by (simp add: binary_batch_def class_batch_def arr_ok_def to_int_def)
  ultimately show ?thesis using F1_over_batches [of "[?b]" demo_numpy "''f1''" None None] by (simp add: Let_def mean_def)
qed

section \<open>Column labels\<close>

lemma count_four:
  "count_true (map (\<lambda>k. \<not> P k \<and> Q k) ks) + count_true (map (\<lambda>k. P k \<and> \<not> Q k) ks)
   + count_true (map (\<lambda>k. \<not> P k \<and> \<not> Q k) ks) + count_true (map (\<lambda>k. P k \<and> Q k) ks) = length ks"
  by (induction ks) (auto simp: count_true_def)

text \<open>
  C34.  Labels with a second axis of length one pass the length check, and are then combined with the one-dimensional
  predictions by broadcasting: a batch of \<open>n\<close> samples adds \<open>n * n\<close> examples to the counts, one for
  every pair of a prediction and a label.
\<close>

theorem column_labels_squared:
  assumes "a_shape label = [n, 1]" and "a_shape pred = [n, c]" and "length (remdups (map to_int (a_vals label))) \<le> 2"
  shows "\<exists>s'. update_binary_stats label pred s = (s', Inr ()) \<and> total_examples s' = total_examples s + n * n"
proof -
  let ?am = "\<lparr> a_shape = [n], a_vals = map argmax (fibres 1 pred) \<rparr>"
  let ?pt = "map_arr (\<lambda>p. p = 1) ?am" and ?lt = "map_arr (\<lambda>l. l = 1) (map_arr to_int label)"
  have am: "np_argmax1 pred = Inr ?am" by (simp add: np_argmax1_def assms(2) reduced_shape_def)
  have len: "check_lens (map_arr to_int label) pred = Inr ()"
    by (simp add: check_lens_def arr_len_def map_arr_def assms(1,2))
  define P where "P k = a_vals ?pt ! ravel_bcast [n] (drop 1 (unravel [n, n] k))" for k
  define Q where "Q k = a_vals ?lt ! ravel_bcast [n, 1] (unravel [n, n] k)" for k
  have tot: "rbind (broadcast2 f ?pt ?lt) (\<lambda>a. Inr (count_true (a_vals a))) = Inr (count_true (map (\<lambda>k. f (P k) (Q k)) [0..<n * n]))" for f
    by (simp add: broadcast2_def map_arr_def assms(1) P_def Q_def Let_def)
  have "length (remdups (a_vals (map_arr to_int label))) \<le> 2" using assms(3) by (simp add: map_arr_def)
  then have "update_binary_stats label pred s = (add_counts
      (count_true (map (\<lambda>k. P k \<and> Q k) [0..<n * n]), count_true (map (\<lambda>k. P k \<and> \<not> Q k) [0..<n * n]),
       count_true (map (\<lambda>k. \<not> P k \<and> Q k) [0..<n * n]), count_true (map (\<lambda>k. \<not> P k \<and> \<not> Q k) [0..<n * n])) s, Inr ())"
    unfolding update_binary_stats_def am rbind_simps Let_def len tot by simp
  then show ?thesis using count_four [of P Q "[0..<n * n]"]
    by (simp add: add_counts_def total_examples_def)
qed

theorem column_labels_squared_witness:
  "\<exists>s'. update_binary_stats \<lparr> a_shape = [2, 1], a_vals = [1, 0] \<rparr> \<lparr> a_shape = [2, 2], a_vals = [0, 1, 3, 4] \<rparr>
     BinaryMetrics_init = (s', Inr ()) \<and> total_examples s' = 4"
  using column_labels_squared [of "\<lparr> a_shape = [2, 1], a_vals = [1, 0] \<rparr>" 2 "\<lparr> a_shape = [2, 2], a_vals = [0, 1, 3, 4] \<rparr>" 2 BinaryMetrics_init]
  by (simp add: to_int_def BinaryMetrics_init_def total_examples_def)

end
