(* ===== verification/Metric_Config.thy ===== *)
theory Metric_Config
  imports Metrics
begin

text \<open>
  Creating metrics by name and from their saved configuration: \<open>python/mxnet/registry.py\<close> with \<open>create\<close> and
  \<open>get_config\<close> of \<open>python/mxnet/metric.py\<close>.

  Arguments are values \<open>cfg\<close>; \<open>json.loads\<close> is the parameter \<open>json\<close>.  The creating functions call each other
  recursively, to the depth of nested configurations; like Python's recursion limit, their first
  argument bounds the depth, and exceeding it is the \<open>RuntimeError\<close> Python raises.  An argument whose type a
  constructor does not document is reported as \<open>TypeError\<close>.
\<close>

section \<open>The registry\<close>

type_synonym 'k registry = "(string \<times> 'k) list"

definition register :: "'k \<Rightarrow> string \<Rightarrow> 'k registry \<Rightarrow> 'k registry" where
  "register klass name reg = (lower name, klass) # reg"

definition alias_all :: "'k \<Rightarrow> string list \<Rightarrow> 'k registry \<Rightarrow> 'k registry" where
  "alias_all klass names reg = foldl (\<lambda>reg name. register klass name reg) reg names"

text \<open>\<open>register\<close> overrides an earlier class of the same name (with a warning).\<close>

lemma register_lookup: "map_of (register klass name reg) n = (if n = lower name then Some klass else map_of reg n)"
  by (simp add: register_def)

datatype metric_class =
    CAccuracy | CTopKAccuracy | CF1 | CMCC | CPerplexity | CMAE | CMSE | CRMSE | CCrossEntropy
  | CNegativeLogLikelihood | CPearsonCorrelation | CLoss | CTorch | CCaffe | CCustomMetric | CCompositeEvalMetric

text \<open>The decorators of the module, from its beginning to its end; an alias is entered before the class name.\<close>

definition metric_registry :: "metric_class registry" where
  "metric_registry =
     (register CCustomMetric ''CustomMetric'' \<circ> register CCaffe ''Caffe'' \<circ> register CTorch ''Torch''
      \<circ> register CLoss ''Loss''
      \<circ> register CPearsonCorrelation ''PearsonCorrelation'' \<circ> alias_all CPearsonCorrelation [''pearsonr'']
      \<circ> register CNegativeLogLikelihood ''NegativeLogLikelihood'' \<circ> alias_all CNegativeLogLikelihood [''nll_loss'']
      \<circ> register CCrossEntropy ''CrossEntropy'' \<circ> alias_all CCrossEntropy [''ce'']
      \<circ> register CRMSE ''RMSE'' \<circ> register CMSE ''MSE'' \<circ> register CMAE ''MAE''
      \<circ> register CPerplexity ''Perplexity'' \<circ> register CMCC ''MCC'' \<circ> register CF1 ''F1''
      \<circ> register CTopKAccuracy ''TopKAccuracy'' \<circ> alias_all CTopKAccuracy [''top_k_accuracy'', ''top_k_acc'']
      \<circ> register CAccuracy ''Accuracy'' \<circ> alias_all CAccuracy [''acc'']
      \<circ> register CCompositeEvalMetric ''CompositeEvalMetric'' \<circ> alias_all CCompositeEvalMetric [''composite'']) []"

section \<open>Arguments\<close>

datatype cfg =
    CNone | CBool bool | CInt int | CReal real | CStr string | CList "cfg list" | CDict "(string \<times> cfg) list"
  | CMetric metric | CFun string feval

type_synonym kwargs = "(string \<times> cfg) list"

text \<open>Binding of positional and keyword arguments to the names of a constructor's parameters.\<close>

definition bind_args :: "string list \<Rightarrow> cfg list \<Rightarrow> kwargs \<Rightarrow> kwargs result" where
  "bind_args params args kws =
     (if length params < length args then Inl TypeError
      else if \<not> distinct (map fst kws) then Inl TypeError
      else if \<not> set (map fst kws) \<subseteq> set (drop (length args) params) then Inl TypeError
      else Inr (zip params args @ kws))"

definition arg :: "string \<Rightarrow> cfg \<Rightarrow> kwargs \<Rightarrow> cfg" where
  "arg name dflt b = (case map_of b name of Some v \<Rightarrow> v | None \<Rightarrow> dflt)"

definition as_int :: "cfg \<Rightarrow> int result" where
  "as_int c = (case c of CInt i \<Rightarrow> Inr i | _ \<Rightarrow> Inl TypeError)"

definition as_real :: "cfg \<Rightarrow> real result" where
  "as_real c = (case c of CReal x \<Rightarrow> Inr x | CInt i \<Rightarrow> Inr (of_int i) | _ \<Rightarrow> Inl TypeError)"

definition as_str :: "cfg \<Rightarrow> string result" where
  "as_str c = (case c of CStr s \<Rightarrow> Inr s | _ \<Rightarrow> Inl TypeError)"

definition as_names :: "cfg \<Rightarrow> string list option result" where
  "as_names c = (case c of CNone \<Rightarrow> Inr None | CList cs \<Rightarrow> rbind (mapM as_str cs) (\<lambda>ss. Inr (Some ss)) | _ \<Rightarrow> Inl TypeError)"

text \<open>The call of \<open>EvalMetric.__init__\<close> common to all classes.\<close>

definition base_init :: "string \<Rightarrow> kwargs \<Rightarrow> eval_metric result" where
  "base_init dflt b =
     rbind (as_str (arg ''name'' (CStr dflt) b)) (\<lambda>name.
     rbind (as_names (arg ''output_names'' CNone b)) (\<lambda>onames.
     rbind (as_names (arg ''label_names'' CNone b)) (\<lambda>lnames.
       Inr (EvalMetric_init name onames lnames True))))"

abbreviation common_params :: "string list" where
  "common_params \<equiv> [''name'', ''output_names'', ''label_names'']"

definition class_params :: "metric_class \<Rightarrow> string list" where
  "class_params k =
     (case k of
        CAccuracy \<Rightarrow> ''axis'' # common_params
      | CTopKAccuracy \<Rightarrow> ''top_k'' # common_params
      | CF1 \<Rightarrow> common_params @ [''average'']
      | CMCC \<Rightarrow> common_params @ [''average'']
      | CPerplexity \<Rightarrow> ''ignore_label'' # ''axis'' # common_params
      | CCrossEntropy \<Rightarrow> ''eps'' # common_params
      | CNegativeLogLikelihood \<Rightarrow> ''eps'' # common_params
      | CCustomMetric \<Rightarrow> [''feval'', ''name'', ''allow_extra_outputs'', ''output_names'', ''label_names'']
      | CCompositeEvalMetric \<Rightarrow> ''metrics'' # common_params
      | _ \<Rightarrow> common_params)"

text \<open>The constructors other than that of the composite.\<close>

definition plain_make :: "metric_kind \<Rightarrow> string \<Rightarrow> kwargs \<Rightarrow> metric result" where
  "plain_make kind dflt b = rbind (base_init dflt b) (\<lambda>m. Inr (Metric kind m))"

definition Accuracy_make :: "kwargs \<Rightarrow> metric result" where
  "Accuracy_make b = rbind (as_int (arg ''axis'' (CInt 1) b)) (\<lambda>axis. plain_make (Accuracy axis) ''accuracy'' b)"

definition TopKAccuracy_make :: "kwargs \<Rightarrow> metric result" where
  "TopKAccuracy_make b =
     rbind (as_int (arg ''top_k'' (CInt 1) b)) (\<lambda>top_k.
     rbind (base_init ''top_k_accuracy'' b) (\<lambda>m.
     rbind (TopKAccuracy_init top_k (em_name m) (output_names m) (label_names m)) (\<lambda>m. Inr (Metric (TopKAccuracy top_k) m))))"

definition F1_make :: "kwargs \<Rightarrow> metric result" where
  "F1_make b = rbind (as_str (arg ''average'' (CStr ''macro'') b)) (\<lambda>avg. plain_make (F1 avg BinaryMetrics_init) ''f1'' b)"

definition MCC_make :: "kwargs \<Rightarrow> metric result" where
  "MCC_make b = rbind (as_str (arg ''average'' (CStr ''macro'') b)) (\<lambda>avg. plain_make (MCC avg BinaryMetrics_init) ''mcc'' b)"

definition Perplexity_make :: "kwargs \<Rightarrow> metric result" where
  "Perplexity_make b =
     (case map_of b ''ignore_label'' of
        None \<Rightarrow> Inl TypeError
      | Some il \<Rightarrow>
          rbind (case il of CNone \<Rightarrow> Inr None | CInt i \<Rightarrow> Inr (Some i) | _ \<Rightarrow> Inl TypeError) (\<lambda>il.
          rbind (as_int (arg ''axis'' (CInt (-1)) b)) (\<lambda>axis. plain_make (Perplexity il axis) ''perplexity'' b)))"

definition MAE_make :: "kwargs \<Rightarrow> metric result" where
  "MAE_make = plain_make MAE ''mae''"

definition MSE_make :: "kwargs \<Rightarrow> metric result" where
  "MSE_make = plain_make MSE ''mse''"

definition RMSE_make :: "kwargs \<Rightarrow> metric result" where
  "RMSE_make = plain_make RMSE ''rmse''"

definition PearsonCorrelation_make :: "kwargs \<Rightarrow> metric result" where
  "PearsonCorrelation_make = plain_make PearsonCorrelation ''pearsonr''"

definition Loss_make :: "kwargs \<Rightarrow> metric result" where
  "Loss_make = plain_make Loss ''loss''"

definition Torch_make :: "kwargs \<Rightarrow> metric result" where
  "Torch_make = plain_make Torch ''torch''"

definition Caffe_make :: "kwargs \<Rightarrow> metric result" where
  "Caffe_make = plain_make Caffe ''caffe''"

definition CrossEntropy_make :: "kwargs \<Rightarrow> metric result" where
  "CrossEntropy_make b =
     rbind (as_real (arg ''eps'' (CReal (1 / 10 ^ 12)) b)) (\<lambda>eps. plain_make (CrossEntropy eps) ''cross-entropy'' b)"

definition NegativeLogLikelihood_make :: "kwargs \<Rightarrow> metric result" where
  "NegativeLogLikelihood_make b =
     rbind (as_real (arg ''eps'' (CReal (1 / 10 ^ 12)) b)) (\<lambda>eps. plain_make (NegativeLogLikelihood eps) ''nll-loss'' b)"

definition CustomMetric_make :: "kwargs \<Rightarrow> metric result" where
  "CustomMetric_make b =
     (case map_of b ''feval'' of
        Some (CFun fname f) \<Rightarrow>
          rbind (case arg ''name'' CNone b of CNone \<Rightarrow> Inr (custom_name None fname) | CStr s \<Rightarrow> Inr s | _ \<Rightarrow> Inl TypeError) (\<lambda>name.
          rbind (case arg ''allow_extra_outputs'' (CBool False) b of CBool x \<Rightarrow> Inr x | _ \<Rightarrow> Inl TypeError) (\<lambda>extra.
          rbind (as_names (arg ''output_names'' CNone b)) (\<lambda>onames.
          rbind (as_names (arg ''label_names'' CNone b)) (\<lambda>lnames.
            Inr (Metric (CustomMetric f extra) (EvalMetric_init name onames lnames True))))))
      | _ \<Rightarrow> Inl TypeError)"

definition construct_leaf :: "metric_class \<Rightarrow> kwargs \<Rightarrow> metric result" where
  "construct_leaf k =
     (case k of
        CAccuracy \<Rightarrow> Accuracy_make | CTopKAccuracy \<Rightarrow> TopKAccuracy_make | CF1 \<Rightarrow> F1_make | CMCC \<Rightarrow> MCC_make
      | CPerplexity \<Rightarrow> Perplexity_make | CMAE \<Rightarrow> MAE_make | CMSE \<Rightarrow> MSE_make | CRMSE \<Rightarrow> RMSE_make
      | CCrossEntropy \<Rightarrow> CrossEntropy_make | CNegativeLogLikelihood \<Rightarrow> NegativeLogLikelihood_make
      | CPearsonCorrelation \<Rightarrow> PearsonCorrelation_make | CLoss \<Rightarrow> Loss_make | CTorch \<Rightarrow> Torch_make
      | CCaffe \<Rightarrow> Caffe_make | CCustomMetric \<Rightarrow> CustomMetric_make
      | CCompositeEvalMetric \<Rightarrow> (\<lambda>b. Inl TypeError))"

lemmas make_defs = construct_leaf_def plain_make_def Accuracy_make_def TopKAccuracy_make_def F1_make_def MCC_make_def
  Perplexity_make_def MAE_make_def MSE_make_def RMSE_make_def CrossEntropy_make_def NegativeLogLikelihood_make_def
  PearsonCorrelation_make_def Loss_make_def Torch_make_def Caffe_make_def

section \<open>Creation\<close>

text \<open>The four functions that call one another, each with the others as the argument \<open>rec\<close>.\<close>

datatype call =
    Create cfg "cfg list" kwargs
  | RegistryCreate cfg "cfg list" kwargs
  | RegistryCreateKw kwargs
  | Construct metric_class "cfg list" kwargs

definition create_body :: "(call \<Rightarrow> metric result) \<Rightarrow> cfg \<Rightarrow> cfg list \<Rightarrow> kwargs \<Rightarrow> metric result" where
  "create_body rec metric args kws =
     (case metric of
        CFun fname f \<Rightarrow> rec (Construct CCustomMetric (CFun fname f # args) kws)
      | CList cs \<Rightarrow>
          rbind (mapM (\<lambda>c. rec (Create c args kws)) cs) (\<lambda>ms.
            Inr (CompositeEvalMetric (EvalMetric_init ''composite'' None None True) ms))
      | _ \<Rightarrow> rec (RegistryCreate metric args kws))"

definition json_pair :: "cfg \<Rightarrow> (cfg \<times> kwargs) result" where
  "json_pair j =
     (case j of
        CList cs \<Rightarrow>
          if length cs \<noteq> 2 then Inl ValueError
          else (case cs ! 1 of CDict d \<Rightarrow> Inr (cs ! 0, d) | _ \<Rightarrow> Inl TypeError)
      | _ \<Rightarrow> Inl TypeError)"

definition registry_create_body ::
  "(string \<Rightarrow> cfg result) \<Rightarrow> (call \<Rightarrow> metric result) \<Rightarrow> cfg \<Rightarrow> cfg list \<Rightarrow> kwargs \<Rightarrow> metric result" where
  "registry_create_body json rec name args kws =
     (case name of
        CMetric m \<Rightarrow> if args = [] \<and> kws = [] then Inr m else Inl AssertionError
      | CDict d \<Rightarrow> rec (RegistryCreateKw d)
      | CStr s \<Rightarrow>
          if take 1 s = ''['' then
            (if args \<noteq> [] \<or> kws \<noteq> [] then Inl AssertionError
             else rbind (rbind (json s) json_pair) (\<lambda>(nm, d). rec (RegistryCreate nm [] d)))
          else if take 1 s = ''{'' then
            (if args \<noteq> [] \<or> kws \<noteq> [] then Inl AssertionError
             else rbind (json s) (\<lambda>j. case j of CDict d \<Rightarrow> rec (RegistryCreateKw d) | _ \<Rightarrow> Inl TypeError))
          else (case map_of metric_registry (lower s) of
                  None \<Rightarrow> Inl AssertionError
                | Some k \<Rightarrow> rec (Construct k args kws))
      | _ \<Rightarrow> Inl AssertionError)"

definition registry_create_kw_body :: "(call \<Rightarrow> metric result) \<Rightarrow> kwargs \<Rightarrow> metric result" where
  "registry_create_kw_body rec d =
     (case map_of d ''metric'' of
        None \<Rightarrow> Inl KeyError
      | Some v \<Rightarrow> rec (RegistryCreate v [] (filter (\<lambda>i. fst i \<noteq> ''metric'') d)))"

definition construct_body :: "(call \<Rightarrow> metric result) \<Rightarrow> metric_class \<Rightarrow> cfg list \<Rightarrow> kwargs \<Rightarrow> metric result" where
  "construct_body rec k args kws =
     rbind (bind_args (class_params k) args kws) (\<lambda>b.
       if k = CCompositeEvalMetric
       then rbind (base_init ''composite'' b) (\<lambda>m.
            rbind (case arg ''metrics'' CNone b of
                     CNone \<Rightarrow> Inr []
                   | CList cs \<Rightarrow> mapM (\<lambda>c. rec (Create c [] [])) cs
                   | _ \<Rightarrow> Inl TypeError) (\<lambda>ms.
              Inr (CompositeEvalMetric m ms)))
       else construct_leaf k b)"

primrec perform :: "(string \<Rightarrow> cfg result) \<Rightarrow> nat \<Rightarrow> call \<Rightarrow> metric result" where
  "perform json 0 c = Inl RuntimeError"
| "perform json (Suc n) c =
     (case c of
        Create metric args kws \<Rightarrow> create_body (perform json n) metric args kws
      | RegistryCreate name args kws \<Rightarrow> registry_create_body json (perform json n) name args kws
      | RegistryCreateKw d \<Rightarrow> registry_create_kw_body (perform json n) d
      | Construct k args kws \<Rightarrow> construct_body (perform json n) k args kws)"

text \<open>\<open>metric.create(**config)\<close>: the keyword \<open>metric\<close> is the first parameter.\<close>

definition create_config :: "(string \<Rightarrow> cfg result) \<Rightarrow> nat \<Rightarrow> kwargs \<Rightarrow> metric result" where
  "create_config json n config =
     (case map_of config ''metric'' of
        None \<Rightarrow> Inl TypeError
      | Some v \<Rightarrow> perform json n (Create v [] (filter (\<lambda>i. fst i \<noteq> ''metric'') config)))"

section \<open>Saving\<close>

definition cfg_names :: "string list option \<Rightarrow> cfg" where
  "cfg_names ns = (case ns of None \<Rightarrow> CNone | Some ss \<Rightarrow> CList (map CStr ss))"

definition base_config :: "string \<Rightarrow> eval_metric \<Rightarrow> kwargs \<Rightarrow> kwargs" where
  "base_config cls m kws =
     kws @ [(''metric'', CStr cls), (''name'', CStr (em_name m)), (''output_names'', cfg_names (output_names m)),
            (''label_names'', cfg_names (label_names m))]"

definition kind_config :: "metric_kind \<Rightarrow> eval_metric \<Rightarrow> kwargs result" where
  "kind_config k m =
     (case k of
        Accuracy axis \<Rightarrow> Inr (base_config ''Accuracy'' m [(''axis'', CInt axis)])
      | TopKAccuracy top_k \<Rightarrow> Inr (base_config ''TopKAccuracy'' m [(''top_k'', CInt top_k)])
      | F1 avg s \<Rightarrow> Inr (base_config ''F1'' m [])
      | MCC avg s \<Rightarrow> Inr (base_config ''MCC'' m [])
      | Perplexity il axis \<Rightarrow>
          Inr (base_config ''Perplexity'' m [(''ignore_label'', case il of None \<Rightarrow> CNone | Some i \<Rightarrow> CInt i)])
      | MAE \<Rightarrow> Inr (base_config ''MAE'' m []) | MSE \<Rightarrow> Inr (base_config ''MSE'' m [])
      | RMSE \<Rightarrow> Inr (base_config ''RMSE'' m [])
      | CrossEntropy eps \<Rightarrow> Inr (base_config ''CrossEntropy'' m [(''eps'', CReal eps)])
      | NegativeLogLikelihood eps \<Rightarrow> Inr (base_config ''NegativeLogLikelihood'' m [(''eps'', CReal eps)])
      | PearsonCorrelation \<Rightarrow> Inr (base_config ''PearsonCorrelation'' m [])
      | Loss \<Rightarrow> Inr (base_config ''Loss'' m []) | Torch \<Rightarrow> Inr (base_config ''Torch'' m [])
      | Caffe \<Rightarrow> Inr (base_config ''Caffe'' m [])
      | CustomMetric f extra \<Rightarrow> Inl NotImplementedError)"

fun get_config :: "metric \<Rightarrow> kwargs result" where
  "get_config (Metric k m) = kind_config k m"
| "get_config (CompositeEvalMetric m ms) =
     rbind (mapM get_config ms) (\<lambda>cs.
       Inr (base_config ''CompositeEvalMetric'' m [] @ [(''metrics'', CList (map CDict cs))]))"

section \<open>What a configuration restores\<close>

definition fresh :: "eval_metric \<Rightarrow> eval_metric" where
  "fresh m = EvalMetric_init (em_name m) (output_names m) (label_names m) True"

fun restored :: "metric \<Rightarrow> metric" where
  "restored (Metric k m) =
     (case k of
        F1 avg s \<Rightarrow> Metric (F1 ''macro'' BinaryMetrics_init) (fresh m)
      | MCC avg s \<Rightarrow> Metric (MCC ''macro'' BinaryMetrics_init) (fresh m)
      | Perplexity il axis \<Rightarrow> Metric (Perplexity il (-1)) (fresh m)
      | TopKAccuracy top_k \<Rightarrow> Metric k (fresh (m\<lparr> em_name := em_name m @ ''_'' @ str_of_int top_k \<rparr>))
      | _ \<Rightarrow> Metric k (fresh m))"
| "restored (CompositeEvalMetric m ms) = CompositeEvalMetric (fresh m) (map restored ms)"

text \<open>What every constructed metric satisfies.\<close>

fun constructed :: "metric \<Rightarrow> bool" where
  "constructed (Metric k m) = (case k of TopKAccuracy top_k \<Rightarrow> 1 < top_k | _ \<Rightarrow> True)"
| "constructed (CompositeEvalMetric m ms) = list_all constructed ms"

text \<open>The depth of the calls that a configuration needs.\<close>

fun call_depth :: "metric \<Rightarrow> nat" where
  "call_depth (Metric k m) = 5"
| "call_depth (CompositeEvalMetric m ms) = 5 + Max (insert 0 (set (map call_depth ms)))"

definition class_of :: "metric \<Rightarrow> metric_class \<times> string" where
  "class_of m =
     (case m of
        CompositeEvalMetric _ _ \<Rightarrow> (CCompositeEvalMetric, ''CompositeEvalMetric'')
      | Metric k _ \<Rightarrow>
          (case k of
             Accuracy _ \<Rightarrow> (CAccuracy, ''Accuracy'') | TopKAccuracy _ \<Rightarrow> (CTopKAccuracy, ''TopKAccuracy'')
           | F1 _ _ \<Rightarrow> (CF1, ''F1'') | MCC _ _ \<Rightarrow> (CMCC, ''MCC'') | Perplexity _ _ \<Rightarrow> (CPerplexity, ''Perplexity'')
           | MAE \<Rightarrow> (CMAE, ''MAE'') | MSE \<Rightarrow> (CMSE, ''MSE'') | RMSE \<Rightarrow> (CRMSE, ''RMSE'')
           | CrossEntropy _ \<Rightarrow> (CCrossEntropy, ''CrossEntropy'')
           | NegativeLogLikelihood _ \<Rightarrow> (CNegativeLogLikelihood, ''NegativeLogLikelihood'')
           | PearsonCorrelation \<Rightarrow> (CPearsonCorrelation, ''PearsonCorrelation'')
           | Loss \<Rightarrow> (CLoss, ''Loss'') | Torch \<Rightarrow> (CTorch, ''Torch'') | Caffe \<Rightarrow> (CCaffe, ''Caffe'')
           | CustomMetric _ _ \<Rightarrow> (CCustomMetric, ''CustomMetric'')))"

lemma registry_classes:
  "\<forall>(k, n) \<in> set [(CAccuracy, ''Accuracy''), (CTopKAccuracy, ''TopKAccuracy''), (CF1, ''F1''), (CMCC, ''MCC''),
     (CPerplexity, ''Perplexity''), (CMAE, ''MAE''), (CMSE, ''MSE''), (CRMSE, ''RMSE''), (CCrossEntropy, ''CrossEntropy''),
     (CNegativeLogLikelihood, ''NegativeLogLikelihood''), (CPearsonCorrelation, ''PearsonCorrelation''), (CLoss, ''Loss''),
     (CTorch, ''Torch''), (CCaffe, ''Caffe''), (CCustomMetric, ''CustomMetric''), (CCompositeEvalMetric, ''CompositeEvalMetric'')].
     map_of metric_registry (lower n) = Some k \<and> take 1 n \<noteq> ''['' \<and> take 1 n \<noteq> ''{''"
  by code_simp

lemma class_of_registered:
  "map_of metric_registry (lower (snd (class_of m))) = Some (fst (class_of m))"
  "take 1 (snd (class_of m)) \<noteq> ''[''" "take 1 (snd (class_of m)) \<noteq> ''{''"
proof -
  have "class_of m \<in> set [(CAccuracy, ''Accuracy''), (CTopKAccuracy, ''TopKAccuracy''), (CF1, ''F1''), (CMCC, ''MCC''),
     (CPerplexity, ''Perplexity''), (CMAE, ''MAE''), (CMSE, ''MSE''), (CRMSE, ''RMSE''), (CCrossEntropy, ''CrossEntropy''),
     (CNegativeLogLikelihood, ''NegativeLogLikelihood''), (CPearsonCorrelation, ''PearsonCorrelation''), (CLoss, ''Loss''),
     (CTorch, ''Torch''), (CCaffe, ''Caffe''), (CCustomMetric, ''CustomMetric''), (CCompositeEvalMetric, ''CompositeEvalMetric'')]"
    by (simp add: class_of_def split: metric.split metric_kind.split)
  from bspec [OF registry_classes this]
  show "map_of metric_registry (lower (snd (class_of m))) = Some (fst (class_of m))"
    "take 1 (snd (class_of m)) \<noteq> ''[''" "take 1 (snd (class_of m)) \<noteq> ''{''"
    by (simp_all add: case_prod_beta)
qed

lemma as_names_cfg [simp]: "as_names (cfg_names ns) = Inr ns"
proof -
  have "mapM as_str (map CStr ss) = Inr ss" for ss by (induction ss) (simp_all add: as_str_def)
  then show ?thesis by (simp add: cfg_names_def as_names_def split: option.split)
qed

lemma base_init_config:
  assumes "map_of b ''name'' = Some (CStr (em_name m))" "map_of b ''output_names'' = Some (cfg_names (output_names m))"
    "map_of b ''label_names'' = Some (cfg_names (label_names m))"
  shows "base_init dflt b = Inr (fresh m)"
  by (simp add: base_init_def arg_def assms as_str_def fresh_def)

text \<open>Everything but the class name is passed to the constructor.\<close>

lemma leaf_restored:
  assumes "kind_config k m = Inr c" "constructed (Metric k m)"
  shows "construct_body rec (fst (class_of (Metric k m))) [] (filter (\<lambda>i. fst i \<noteq> ''metric'') c) = Inr (restored (Metric k m))"
    "map_of c ''metric'' = Some (CStr (snd (class_of (Metric k m))))"
proof -
  have *: "construct_body rec (fst (class_of (Metric k m))) [] (filter (\<lambda>i. fst i \<noteq> ''metric'') c) = Inr (restored (Metric k m))
    \<and> map_of c ''metric'' = Some (CStr (snd (class_of (Metric k m))))"
    using assms
    by (cases k)
      (auto simp: kind_config_def base_config_def class_of_def construct_body_def bind_args_def class_params_def
        make_defs base_init_config [where m = m] arg_def as_int_def as_str_def as_real_def
        TopKAccuracy_init_def fresh_def EvalMetric_init_def EvalMetric_reset_def Let_def split: option.splits)
  then show "construct_body rec (fst (class_of (Metric k m))) [] (filter (\<lambda>i. fst i \<noteq> ''metric'') c) = Inr (restored (Metric k m))"
    "map_of c ''metric'' = Some (CStr (snd (class_of (Metric k m))))" by blast+
qed

lemma mapM_through:
  "mapM f ms = Inr cs \<Longrightarrow> (\<And>m c. m \<in> set ms \<Longrightarrow> f m = Inr c \<Longrightarrow> g (k c) = Inr (h m)) \<Longrightarrow> mapM g (map k cs) = Inr (map h ms)"
proof (induction ms arbitrary: cs)
  case (Cons m ms)
  from Cons.prems(1) obtain c cs' where c: "f m = Inr c" "mapM f ms = Inr cs'" "cs = c # cs'"
    by (auto simp: rbind_def split: sum.splits)
  have "mapM g (map k cs') = Inr (map h ms)" using c(2) Cons.prems(2) by (intro Cons.IH) auto
  then show ?case using Cons.prems(2) [of m c] c by simp
qed simp

lemma call_depth_ge: "5 \<le> call_depth m"
  by (cases m) simp_all

lemma registry_create_class:
  "perform json (Suc n) (RegistryCreate (CStr (snd (class_of m))) [] kws) = perform json n (Construct (fst (class_of m)) [] kws)"
  using class_of_registered [of m] by (simp add: registry_create_body_def)

lemma perform_restored:
  assumes "get_config m = Inr c" "constructed m" "call_depth m \<le> n + 3"
  shows "perform json n (RegistryCreate (CStr (snd (class_of m))) [] (filter (\<lambda>i. fst i \<noteq> ''metric'') c)) = Inr (restored m)
    \<and> map_of c ''metric'' = Some (CStr (snd (class_of m)))"
  using assms
proof (induction m arbitrary: c n)
  case (Metric k m)
  then obtain j where "n = 2 + j" using le_Suc_ex [of 2 n] by auto
  then have n: "n = Suc (Suc j)" by simp
  from Metric.prems have k: "kind_config k m = Inr c" by simp
  show ?case unfolding n registry_create_class using leaf_restored [OF k Metric.prems(2)] by simp
next
  case (CompositeEvalMetric m ms)
  let ?m = "CompositeEvalMetric m ms"
  from CompositeEvalMetric.prems(1) obtain cs where cs: "mapM get_config ms = Inr cs"
    and c: "c = base_config ''CompositeEvalMetric'' m [] @ [(''metrics'', CList (map CDict cs))]"
    by (auto simp: rbind_def split: sum.splits)
  let ?kws = "filter (\<lambda>i. fst i \<noteq> ''metric'') c"
  have d: "call_depth x + 2 \<le> n" if "x \<in> set ms" for x
  proof -
    have "call_depth x \<le> Max (insert 0 (set (map call_depth ms)))" using that by (intro Max_ge) auto
    then show ?thesis using CompositeEvalMetric.prems(3) by simp
  qed
  obtain j where "n = 2 + j" using CompositeEvalMetric.prems(3) le_Suc_ex [of 2 n] by auto
  then obtain n' where n: "n = Suc (Suc n')" by simp
  have "perform json n' (Create (CDict x) [] []) = Inr (restored y)" if y: "y \<in> set ms" "get_config y = Inr x" for x y
  proof -
    have "5 \<le> n'" using d [OF y(1)] call_depth_ge [of y] n by simp
    then obtain j where "n' = 5 + j" using le_Suc_ex by blast
    then obtain n3 where n3: "n' = Suc (Suc (Suc n3))" by simp
    have cy: "constructed y" using CompositeEvalMetric.prems(2) y(1) by (simp add: list_all_iff)
    have "call_depth y \<le> n3 + 3" using d [OF y(1)] n n3 by simp
    from CompositeEvalMetric.IH [OF y(1) y(2) cy this] show ?thesis
      by (simp add: n3 create_body_def registry_create_body_def registry_create_kw_body_def)
  qed
  then have ms: "mapM (\<lambda>c. perform json n' (Create c [] [])) (map CDict cs) = Inr (map restored ms)"
    by (intro mapM_through [OF cs])
  have k: "fst (class_of ?m) = CCompositeEvalMetric" "snd (class_of ?m) = ''CompositeEvalMetric''" by (simp_all add: class_of_def)
  have "base_init ''composite'' ?kws = Inr (fresh m)" by (rule base_init_config) (simp_all add: c base_config_def)
  moreover have "arg ''metrics'' CNone ?kws = CList (map CDict cs)" by (simp add: c base_config_def arg_def)
  moreover have "bind_args (class_params CCompositeEvalMetric) [] ?kws = Inr ?kws"
    by (simp add: c base_config_def bind_args_def class_params_def)
  moreover have "map_of c ''metric'' = Some (CStr ''CompositeEvalMetric'')" by (simp add: c base_config_def)
  ultimately show ?case unfolding n registry_create_class by (simp add: k construct_body_def ms)
qed

text \<open>
  C14.  Recreating a metric from its configuration, as \<open>get_config\<close> documents, for every metric that has one, composites
  included: the class, the name, the argument names and the parameters in the configuration come back and
  the statistics start at zero, but three things are lost.  \<open>F1\<close> and \<open>MCC\<close> come back with \<open>average='macro'\<close>, the
  perplexity with \<open>axis=-1\<close>, and the top-k accuracy with its suffix appended to the name a second time.
\<close>

theorem config_restores:
  assumes "get_config m = Inr c" and "constructed m" and "call_depth m \<le> n"
  shows "create_config json n c = Inr (restored m)"
proof -
  obtain n1 where n: "n = Suc n1" "call_depth m \<le> n1 + 3" using assms(3) call_depth_ge [of m] by (cases n) auto
  from perform_restored [OF assms(1,2) n(2)] show ?thesis
    by (simp add: create_config_def n(1) create_body_def)
qed

theorem config_restores_witness:
  "\<exists>m c. m = CompositeEvalMetric (EvalMetric_init ''composite'' None None True)
           [Metric (Accuracy 0) (EvalMetric_init ''accuracy'' None None True),
            Metric (F1 ''micro'' BinaryMetrics_init) (EvalMetric_init ''f1'' None None True)]
     \<and> get_config m = Inr c
     \<and> create_config (\<lambda>s. Inl ValueError) 10 c = Inr (CompositeEvalMetric (EvalMetric_init ''composite'' None None True)
           [Metric (Accuracy 0) (EvalMetric_init ''accuracy'' None None True),
            Metric (F1 ''macro'' BinaryMetrics_init) (EvalMetric_init ''f1'' None None True)])"
proof -
  let ?m = "CompositeEvalMetric (EvalMetric_init ''composite'' None None True)
           [Metric (Accuracy 0) (EvalMetric_init ''accuracy'' None None True),
            Metric (F1 ''micro'' BinaryMetrics_init) (EvalMetric_init ''f1'' None None True)]"
  obtain c where c: "get_config ?m = Inr c" by (simp add: kind_config_def)
  have "fresh (EvalMetric_init n None None True) = EvalMetric_init n None None True" for n
    by (simp add: fresh_def EvalMetric_init_def EvalMetric_reset_def)
  with config_restores [OF c, of 10 "\<lambda>s. Inl ValueError"]
  have "create_config (\<lambda>s. Inl ValueError) 10 c = Inr (CompositeEvalMetric (EvalMetric_init ''composite'' None None True)
           [Metric (Accuracy 0) (EvalMetric_init ''accuracy'' None None True),
            Metric (F1 ''macro'' BinaryMetrics_init) (EvalMetric_init ''f1'' None None True)])" by simp
  with c show ?thesis by blast
qed

end
