(* ===== verification/Text_Vocab.thy ===== *)
theory Text_Vocab
  imports Py_Text "HOL-Library.AList" "HOL-Library.List_Lexorder" "HOL-Library.Char_ord"
begin

text \<open>
  Text tokens: \<open>contrib/text/utils.py\<close> (counting) and \<open>contrib/text/vocab.py\<close> (\<open>Vocabulary\<close>).

  A \<open>collections.Counter\<close> is the association list of its items in insertion order.  Regular expression
  splitting (\<open>re.split\<close>) is the argument \<open>re_split\<close>.  The properties: the two tables of a vocabulary are
  inverse to each other and converting back and forth loses only unknown tokens; and the tokens of the
  counter that get an index are the most frequent ones, ties in alphabetic order, as many as allowed.
\<close>

section \<open>Counting tokens\<close>

type_synonym 'a counter = "('a \<times> int) list"

definition counter_get :: "'a counter \<Rightarrow> 'a \<Rightarrow> int" where
  "counter_get c t = (case map_of c t of None \<Rightarrow> 0 | Some n \<Rightarrow> n)"

definition counter_add :: "'a counter \<Rightarrow> 'a \<Rightarrow> 'a counter" where
  "counter_add c t = AList.update t (counter_get c t + 1) c"

definition counter_update :: "'a counter \<Rightarrow> 'a list \<Rightarrow> 'a counter" where
  "counter_update c ts = foldl counter_add c ts"

definition count_tokens_from_str ::
  "(string \<Rightarrow> string \<Rightarrow> string list) \<Rightarrow> string \<Rightarrow> string \<Rightarrow> string \<Rightarrow> bool \<Rightarrow> string counter option \<Rightarrow> string counter" where
  "count_tokens_from_str re_split source_str token_delim seq_delim to_lower counter_to_update =
     (let toks = filter (\<lambda>t. t \<noteq> []) (re_split (token_delim @ ''|'' @ seq_delim) source_str);
          toks = (if to_lower then map lower toks else toks)
      in case counter_to_update of
           None \<Rightarrow> counter_update [] toks
         | Some c \<Rightarrow> counter_update c toks)"

section \<open>The vocabulary\<close>

record 'a vocabulary =
  unknown_token :: 'a
  reserved_tokens :: "'a list option"
  idx_to_token :: "'a list"
  token_to_idx :: "'a \<rightharpoonup> int"

definition reserved_list :: "'a list option \<Rightarrow> 'a list" where
  "reserved_list r = (case r of None \<Rightarrow> [] | Some ts \<Rightarrow> ts)"

definition enumerate_dict :: "'a list \<Rightarrow> ('a \<rightharpoonup> int)" where
  "enumerate_dict ts = map_of (rev (zip ts (map int [0..<length ts])))"

definition index_unknown_and_reserved_tokens :: "'a \<Rightarrow> 'a list option \<Rightarrow> 'a vocabulary" where
  "index_unknown_and_reserved_tokens unk res =
     (let toks = unk # reserved_list res
      in \<lparr> unknown_token = unk, reserved_tokens = res, idx_to_token = toks, token_to_idx = enumerate_dict toks \<rparr>)"

text \<open>The two sorts of \<open>_index_counter_keys\<close>; both are stable, also the descending one.\<close>

definition token_freqs :: "('a :: linorder) counter \<Rightarrow> 'a counter" where
  "token_freqs counter = sort_key (\<lambda>x. - snd x) (sort_key fst counter)"

fun index_loop :: "'a set \<Rightarrow> int \<Rightarrow> int \<Rightarrow> 'a counter \<Rightarrow> 'a vocabulary \<Rightarrow> 'a vocabulary" where
  "index_loop special token_cap min_freq [] v = v"
| "index_loop special token_cap min_freq ((token, freq) # rest) v =
     (if freq < min_freq \<or> int (length (idx_to_token v)) = token_cap then v
      else if token \<notin> special
      then index_loop special token_cap min_freq rest
             (v\<lparr> idx_to_token := idx_to_token v @ [token],
                 token_to_idx := (token_to_idx v)(token \<mapsto> int (length (idx_to_token v @ [token])) - 1) \<rparr>)
      else index_loop special token_cap min_freq rest v)"

definition index_counter_keys ::
  "('a :: linorder) counter \<Rightarrow> 'a \<Rightarrow> 'a list option \<Rightarrow> int option \<Rightarrow> int \<Rightarrow> 'a vocabulary \<Rightarrow> 'a vocabulary" where
  "index_counter_keys counter unk res most_freq_count min_freq v =
     (let special = set (unk # reserved_list res);
          token_cap = int (card special) + (case most_freq_count of None \<Rightarrow> int (length counter) | Some k \<Rightarrow> k)
      in index_loop special token_cap min_freq (token_freqs counter) v)"

definition Vocabulary_init ::
  "('a :: linorder) counter option \<Rightarrow> int option \<Rightarrow> int \<Rightarrow> 'a \<Rightarrow> 'a list option \<Rightarrow> 'a vocabulary result" where
  "Vocabulary_init counter most_freq_count min_freq unk res =
     (if \<not> 0 < min_freq then Inl AssertionError
      else if unk \<in> set (reserved_list res) then Inl AssertionError
      else if card (set (reserved_list res)) \<noteq> length (reserved_list res) then Inl AssertionError
      else let v = index_unknown_and_reserved_tokens unk res
           in Inr (case counter of
                     None \<Rightarrow> v
                   | Some c \<Rightarrow> index_counter_keys c unk res most_freq_count min_freq v))"

definition Vocabulary_len :: "'a vocabulary \<Rightarrow> nat" where
  "Vocabulary_len v = length (idx_to_token v)"

text \<open>An argument that is a list or a single value; the result has the same form.\<close>

datatype 'a scalar_or_list = Scalar 'a | Listed "'a list"

definition UNKNOWN_IDX :: int where "UNKNOWN_IDX = 0"

definition to_index :: "'a vocabulary \<Rightarrow> 'a \<Rightarrow> int" where
  "to_index v token = (case token_to_idx v token of Some i \<Rightarrow> i | None \<Rightarrow> UNKNOWN_IDX)"

fun to_indices :: "'a vocabulary \<Rightarrow> 'a scalar_or_list \<Rightarrow> int scalar_or_list" where
  "to_indices v (Listed tokens) = Listed (map (to_index v) tokens)"
| "to_indices v (Scalar token) = Scalar (to_index v token)"

definition to_token :: "'a vocabulary \<Rightarrow> int \<Rightarrow> 'a result" where
  "to_token v idx =
     (if int (length (idx_to_token v)) - 1 < idx then Inl ValueError else py_get (idx_to_token v) idx)"

fun to_tokens :: "'a vocabulary \<Rightarrow> int scalar_or_list \<Rightarrow> 'a scalar_or_list result" where
  "to_tokens v (Listed indices) = rbind (mapM (to_token v) indices) (\<lambda>ts. Inr (Listed ts))"
| "to_tokens v (Scalar idx) = rbind (to_token v idx) (\<lambda>t. Inr (Scalar t))"

section \<open>What the counter counts\<close>

lemma counter_get_add: "counter_get (counter_add c t) u = counter_get c u + (if u = t then 1 else 0)"
  by (simp add: counter_get_def counter_add_def update_conv')

lemma distinct_counter_update: "distinct (map fst c) \<Longrightarrow> distinct (map fst (counter_update c ts))"
  unfolding counter_update_def
  by (induction ts arbitrary: c) (simp_all add: counter_add_def distinct_update)

lemma counter_get_update: "counter_get (counter_update c ts) u = counter_get c u + int (count_list ts u)"
  unfolding counter_update_def by (induction ts arbitrary: c) (simp_all add: counter_get_add)

lemma counter_update_keys: "fst ` set (counter_update c ts) = fst ` set c \<union> set ts"
  unfolding counter_update_def by (induction ts arbitrary: c) (auto simp: counter_add_def dom_update)

section \<open>Frequency order\<close>

text \<open>More frequent first, equally frequent tokens in their own order.\<close>

definition before :: "('a :: linorder) \<times> int \<Rightarrow> 'a \<times> int \<Rightarrow> bool" where
  "before x y \<longleftrightarrow> snd y < snd x \<or> snd y = snd x \<and> fst x < fst y"

lemma set_token_freqs [simp]: "set (token_freqs c) = set c"
  by (simp add: token_freqs_def)

lemma length_token_freqs [simp]: "length (token_freqs c) = length c"
  by (simp add: token_freqs_def)

lemma distinct_token_freqs:
  assumes "distinct (map fst c)"
  shows "distinct (map fst (token_freqs c))"
proof -
  have "mset (map fst (token_freqs c)) = mset (map fst c)" by (simp add: token_freqs_def)
  with assms show ?thesis by (metis mset_eq_imp_distinct_iff)
qed

lemma insort_key_sorted_wrt:
  assumes "sorted_wrt R xs" and "\<And>y. y \<in> set xs \<Longrightarrow> k x \<le> k y \<Longrightarrow> R x y"
    and "\<And>y. y \<in> set xs \<Longrightarrow> \<not> k x \<le> k y \<Longrightarrow> R y x" and "sorted (map k xs)"
  shows "sorted_wrt R (insort_key k x xs)"
  using assms
proof (induction xs)
  case (Cons y xs)
  then show ?case by (auto simp: set_insort_key intro: order_trans)
qed simp

lemma token_freqs_before:
  assumes "distinct (map fst c)"
  shows "sorted_wrt before (token_freqs c)"
proof -
  have "sorted_wrt before (sort_key (\<lambda>x. - snd x) xs)"
    if "sorted (map fst xs)" "distinct (map fst xs)" for xs :: "'a counter"
    using that
  proof (induction xs)
    case (Cons x xs)
    have lt: "fst x < fst y" if "y \<in> set xs" for y
      using Cons.prems that by (metis (no_types, lifting) distinct.simps(2) image_eqI list.set_map list.simps(9)
          order_le_neq_trans sorted_simps(2))
    show ?case unfolding sort_key_simps
      by (rule insort_key_sorted_wrt) (use Cons lt in \<open>auto simp: before_def\<close>)
  qed simp
  moreover have "distinct (map fst (sort_key fst c))"
    using assms by (metis mset_eq_imp_distinct_iff mset_map mset_sort)
  ultimately show ?thesis unfolding token_freqs_def by simp
qed

section \<open>The tables\<close>

definition vocab_ok :: "'a vocabulary \<Rightarrow> bool" where
  "vocab_ok v \<longleftrightarrow> distinct (idx_to_token v) \<and> idx_to_token v \<noteq> [] \<and> hd (idx_to_token v) = unknown_token v
     \<and> (\<forall>t i. token_to_idx v t = Some i \<longleftrightarrow> (\<exists>k < length (idx_to_token v). i = int k \<and> idx_to_token v ! k = t))"

lemma enumerate_dict_iff:
  assumes "distinct ts"
  shows "enumerate_dict ts t = Some i \<longleftrightarrow> (\<exists>k < length ts. i = int k \<and> ts ! k = t)"
proof -
  have "distinct (map fst (rev (zip ts (map int [0..<length ts]))))" using assms by (simp flip: rev_map)
  then show ?thesis
    unfolding enumerate_dict_def by (auto simp: map_of_eq_Some_iff in_set_zip)
qed

lemma vocab_ok_start:
  assumes "distinct (unk # reserved_list res)"
  shows "vocab_ok (index_unknown_and_reserved_tokens unk res)"
  unfolding vocab_ok_def index_unknown_and_reserved_tokens_def Let_def
  using enumerate_dict_iff [OF assms] assms by simp

lemma vocab_ok_append:
  assumes "vocab_ok v" "t \<notin> set (idx_to_token v)"
  shows "vocab_ok (v\<lparr> idx_to_token := idx_to_token v @ [t],
                      token_to_idx := (token_to_idx v)(t \<mapsto> int (length (idx_to_token v @ [t])) - 1) \<rparr>)"
  using assms by (auto simp: vocab_ok_def nth_append less_Suc_eq)

lemma index_loop_ok:
  assumes "vocab_ok v" "distinct (map fst fs)" "\<And>t. t \<in> fst ` set fs \<Longrightarrow> t \<in> set (idx_to_token v) \<Longrightarrow> t \<in> special"
  shows "vocab_ok (index_loop special cap mf fs v)
    \<and> unknown_token (index_loop special cap mf fs v) = unknown_token v"
  using assms
proof (induction special cap mf fs v rule: index_loop.induct)
  case (2 special cap mf token freq rest v)
  show ?case
  proof (cases "freq < mf \<or> int (length (idx_to_token v)) = cap \<or> token \<in> special")
    case True
    then show ?thesis using 2 by auto
  next
    case False
    then have "token \<notin> set (idx_to_token v)" using "2.prems"(3) [of token] by auto
    from vocab_ok_append [OF "2.prems"(1) this] False 2 show ?thesis by (auto simp: image_iff)
  qed
qed simp

text \<open>The loop appends the eligible tokens in order until the cap is reached.\<close>

lemma index_loop_tokens:
  assumes "int (length (idx_to_token v)) \<le> cap"
  shows "idx_to_token (index_loop special cap mf fs v) = idx_to_token v
    @ take (nat (cap - int (length (idx_to_token v))))
        (map fst (filter (\<lambda>x. fst x \<notin> special) (takeWhile (\<lambda>x. mf \<le> snd x) fs)))"
  using assms
proof (induction special cap mf fs v rule: index_loop.induct)
  case (2 special cap mf token freq rest v)
  show ?case
  proof (cases "freq < mf \<or> int (length (idx_to_token v)) = cap")
    case True
    then show ?thesis by auto
  next
    case False
    define n where "n = nat (cap - int (length (idx_to_token v)) - 1)"
    have "nat (cap - int (length (idx_to_token v))) = Suc n" using False "2.prems" unfolding n_def by linarith
    with False 2 show ?thesis by (auto simp: n_def algebra_simps)
  qed
qed simp

lemma takeWhile_before:
  "sorted_wrt before fs \<Longrightarrow> takeWhile (\<lambda>x. mf \<le> snd x) fs = filter (\<lambda>x. mf \<le> snd x) fs"
proof (induction fs)
  case (Cons x fs)
  then have "filter (\<lambda>y. mf \<le> snd y) fs = []" if "\<not> mf \<le> snd x"
    using that by (force simp: before_def filter_empty_conv)
  with Cons show ?case by simp
qed simp

lemma Vocabulary_init_ok:
  assumes "Vocabulary_init counter most_freq_count min_freq unk res = Inr v"
    and "\<And>c. counter = Some c \<Longrightarrow> distinct (map fst c)"
  shows "vocab_ok v \<and> unknown_token v = unk"
proof -
  let ?v = "index_unknown_and_reserved_tokens unk res"
  have d: "distinct (unk # reserved_list res)"
    using assms(1) by (auto simp: Vocabulary_init_def Let_def card_distinct split: if_splits)
  note start = vocab_ok_start [OF d]
  show ?thesis
  proof (cases counter)
    case None
    then show ?thesis using assms(1) start
      by (auto simp: Vocabulary_init_def Let_def index_unknown_and_reserved_tokens_def split: if_splits)
  next
    case (Some c)
    have "vocab_ok (index_loop (set (unk # reserved_list res)) cap min_freq (token_freqs c) ?v)
        \<and> unknown_token (index_loop (set (unk # reserved_list res)) cap min_freq (token_freqs c) ?v) = unknown_token ?v" for cap
      by (rule index_loop_ok [OF start distinct_token_freqs [OF assms(2) [OF Some]]])
        (simp add: index_unknown_and_reserved_tokens_def Let_def)
    then show ?thesis using assms(1) Some
      by (auto simp: Vocabulary_init_def Let_def index_counter_keys_def index_unknown_and_reserved_tokens_def split: if_splits)
  qed
qed

section \<open>Converting back and forth\<close>

lemma to_token_index:
  assumes "vocab_ok v"
  shows "to_token v (to_index v t) = Inr (if t \<in> set (idx_to_token v) then t else unknown_token v)"
proof (cases "t \<in> set (idx_to_token v)")
  case True
  then obtain k where "k < length (idx_to_token v)" "idx_to_token v ! k = t" by (auto simp: in_set_conv_nth)
  moreover from this assms have "token_to_idx v t = Some (int k)" by (auto simp: vocab_ok_def)
  ultimately show ?thesis using True by (simp add: to_token_def to_index_def)
next
  case False
  with assms have "token_to_idx v t \<noteq> Some i" for i by (auto simp: vocab_ok_def)
  then have "token_to_idx v t = None" by blast
  moreover from assms have "idx_to_token v \<noteq> []" "idx_to_token v ! 0 = unknown_token v"
    by (auto simp: vocab_ok_def hd_conv_nth)
  ultimately show ?thesis using False by (simp add: to_token_def to_index_def UNKNOWN_IDX_def py_get_def)
qed

lemma to_index_token:
  assumes "vocab_ok v" "0 \<le> i" "i < int (length (idx_to_token v))"
  shows "to_token v i = Inr (idx_to_token v ! nat i) \<and> to_index v (idx_to_token v ! nat i) = i"
proof -
  have "token_to_idx v (idx_to_token v ! nat i) = Some i"
    using assms unfolding vocab_ok_def by (metis int_nat_eq nat_less_iff)
  then show ?thesis using assms by (simp add: to_token_def to_index_def py_get_in)
qed

text \<open>C37. For every vocabulary the constructor returns, converting tokens to indices and back gives the
  tokens, with the unknown token in place of those without an index; converting valid indices to tokens and
  back gives the indices; and an index at or beyond the length raises \<open>ValueError\<close>.\<close>

theorem Vocabulary_round_trip:
  assumes "Vocabulary_init counter most_freq_count min_freq unk res = Inr v"
    and "\<And>c. counter = Some c \<Longrightarrow> distinct (map fst c)"
  shows "to_tokens v (to_indices v (Listed ts)) = Inr (Listed (map (\<lambda>t. if t \<in> set (idx_to_token v) then t else unk) ts))
    \<and> (set is \<subseteq> {0..<int (Vocabulary_len v)} \<longrightarrow>
         (\<exists>us. to_tokens v (Listed is) = Inr (Listed us) \<and> to_indices v (Listed us) = Listed is))
    \<and> (int (Vocabulary_len v) \<le> i \<longrightarrow> to_tokens v (Scalar i) = Inl ValueError)"
proof (intro conjI impI)
  note ok = Vocabulary_init_ok [OF assms]
  show "to_tokens v (to_indices v (Listed ts)) = Inr (Listed (map (\<lambda>t. if t \<in> set (idx_to_token v) then t else unk) ts))"
    using ok by (induction ts) (auto simp: to_token_index)
  assume "set is \<subseteq> {0..<int (Vocabulary_len v)}"
  then have "mapM (to_token v) is = Inr (map (\<lambda>i. idx_to_token v ! nat i) is)"
    and "map (to_index v) (map (\<lambda>i. idx_to_token v ! nat i) is) = is"
    using to_index_token [OF conjunct1 [OF ok]]
    by (auto intro!: mapM_Inr map_idI simp: Vocabulary_len_def subset_iff)
  then show "\<exists>us. to_tokens v (Listed is) = Inr (Listed us) \<and> to_indices v (Listed us) = Listed is" by auto
next
  assume "int (Vocabulary_len v) \<le> i"
  then show "to_tokens v (Scalar i) = Inl ValueError" by (simp add: to_token_def Vocabulary_len_def)
qed

theorem Vocabulary_round_trip_witness:
  "\<exists>v. Vocabulary_init (Some [(3, 2), (1, 5), (2 :: nat, 2)]) None 1 0 (Some [9]) = Inr v
     \<and> to_tokens v (to_indices v (Listed [1, 7, 9])) = Inr (Listed [1, 0, 9])
     \<and> to_tokens v (Scalar 5) = Inl ValueError"
proof -
  let ?c = "[(3, 2), (1, 5), (2 :: nat, 2)] :: nat counter"
  obtain v where v: "Vocabulary_init (Some ?c) None 1 0 (Some [9]) = Inr v" "idx_to_token v = [0, 9, 1, 2, 3]"
    by (simp add: Vocabulary_init_def Let_def index_counter_keys_def index_unknown_and_reserved_tokens_def
        reserved_list_def token_freqs_def)
  from Vocabulary_round_trip [OF v(1), of "[1, 7, 9]" "[]" 5] v show ?thesis by (auto simp: Vocabulary_len_def)
qed

section \<open>Which tokens get an index\<close>

definition eligible :: "'a counter \<Rightarrow> int \<Rightarrow> 'a set \<Rightarrow> 'a set" where
  "eligible c min_freq special = {t. \<exists>n. (t, n) \<in> set c \<and> min_freq \<le> n \<and> t \<notin> special}"

lemma sorted_wrt_take_drop: "sorted_wrt R xs \<Longrightarrow> x \<in> set (take n xs) \<Longrightarrow> y \<in> set (drop n xs) \<Longrightarrow> R x y"
  by (metis append_take_drop_id sorted_wrt_append)

text \<open>C21. With a counter and a limit of \<open>k\<close> tokens, the constructor indexes the unknown token, the
  reserved tokens and then the \<open>k\<close> most frequent other tokens that reach \<open>min_freq\<close> (all of them when there are
  fewer), the more frequent first and equally frequent ones in order; every token left out comes after every
  token taken.\<close>

theorem Vocabulary_most_frequent:
  assumes "Vocabulary_init (Some c) (Some (int k)) min_freq unk res = Inr v" and d: "distinct (map fst c)"
  defines "special \<equiv> set (unk # reserved_list res)"
  shows "\<exists>ws. idx_to_token v = unk # reserved_list res @ ws \<and> set ws \<subseteq> eligible c min_freq special
    \<and> length ws = min k (card (eligible c min_freq special))
    \<and> sorted_wrt (\<lambda>a b. before (a, counter_get c a) (b, counter_get c b)) ws
    \<and> (\<forall>a \<in> set ws. \<forall>b \<in> eligible c min_freq special - set ws. before (a, counter_get c a) (b, counter_get c b))"
proof -
  let ?before = "\<lambda>a b. before (a, counter_get c a) (b, counter_get c b)"
  define es where "es = filter (\<lambda>x. min_freq \<le> snd x \<and> fst x \<notin> special) (token_freqs c)"
  let ?es = "map fst es"
  have freq: "counter_get c (fst x) = snd x" if "x \<in> set es" for x
    using that map_of_is_SomeI [OF d, of "fst x" "snd x"] by (simp add: es_def counter_get_def)
  have set_es: "set ?es = eligible c min_freq special" by (force simp: es_def eligible_def)
  have dist: "distinct ?es" unfolding es_def using distinct_token_freqs [OF d] by (rule distinct_map_filter)
  have "sorted_wrt before es" unfolding es_def by (rule sorted_wrt_filter [OF token_freqs_before [OF d]])
  then have sorted: "sorted_wrt ?before ?es"
    unfolding sorted_wrt_map by (rule sorted_wrt_mono_rel [rotated]) (simp add: freq)
  have "card special = length (unk # reserved_list res)"
    using assms(1) by (auto simp: special_def Vocabulary_init_def split: if_splits)
  then have v: "idx_to_token v = unk # reserved_list res @ take k ?es"
    using assms(1) index_loop_tokens [of "index_unknown_and_reserved_tokens unk res" "int (card special) + int k" special min_freq "token_freqs c"]
    by (auto simp: Vocabulary_init_def Let_def index_counter_keys_def index_unknown_and_reserved_tokens_def special_def
        takeWhile_before [OF token_freqs_before [OF d]] es_def conj_commute split: if_splits)
  have "set ?es - set (take k ?es) \<subseteq> set (drop k ?es)" by (metis Diff_subset_conv append_take_drop_id set_append subset_refl)
  then have "\<forall>a \<in> set (take k ?es). \<forall>b \<in> eligible c min_freq special - set (take k ?es). ?before a b"
    using sorted_wrt_take_drop [OF sorted, of _ k] unfolding set_es by blast
  moreover have "length (take k ?es) = min k (card (eligible c min_freq special))"
    using distinct_card [OF dist] unfolding set_es by simp
  moreover have "set (take k ?es) \<subseteq> eligible c min_freq special" using set_take_subset [of k ?es] unfolding set_es .
  ultimately show ?thesis using v sorted_wrt_take [OF sorted, of k] by blast
qed

theorem Vocabulary_most_frequent_witness:
  "\<exists>v. Vocabulary_init (Some (counter_update [] [3, 1, 2, 1, 3, 2, 1, 4])) (Some 2) 2 0 (Some [9 :: nat]) = Inr v
     \<and> (\<exists>ws. idx_to_token v = [0, 9] @ ws \<and> length ws = 2 \<and> set ws \<subseteq> {1, 2, 3} \<and> 1 \<in> set ws)"
proof -
  let ?c = "counter_update [] [3, 1, 2, 1, 3, 2, 1, 4] :: nat counter"
  have c: "?c = [(3, 2), (1, 3), (2, 2), (4, 1)]" by (simp add: counter_update_def counter_add_def counter_get_def)
  obtain v where v: "Vocabulary_init (Some ?c) (Some (int 2)) 2 0 (Some [9]) = Inr v"
    unfolding c by (simp add: Vocabulary_init_def Let_def reserved_list_def)
  have d: "distinct (map fst ?c)" by (rule distinct_counter_update) simp
  have e: "eligible ?c 2 (set (0 # reserved_list (Some [9]))) = {1, 2, 3}"
    unfolding c by (auto simp: eligible_def reserved_list_def)
  from Vocabulary_most_frequent [OF v d, unfolded e] obtain ws where ws: "idx_to_token v = 0 # 9 # ws" "set ws \<subseteq> {1, 2, 3}"
    "length ws = 2" "\<forall>a \<in> set ws. \<forall>b \<in> {1, 2, 3} - set ws. before (a, counter_get ?c a) (b, counter_get ?c b)"
    by (auto simp: reserved_list_def)
  have "1 \<in> set ws"
  proof (rule ccontr)
    assume "1 \<notin> set ws"
    moreover obtain a where "a \<in> set ws" using ws(3) by (cases ws) auto
    ultimately show False using ws(2) bspec [OF bspec [OF ws(4)], of a 1] unfolding c by (auto simp: before_def counter_get_def)
  qed
  with v ws show ?thesis by auto
qed

end
