(* ===== verification/Bucketing.thy ===== *)
theory Bucketing
  imports Data_Iters
begin

text \<open>
  \<open>rnn/io.py\<close>: \<open>encode_sentences\<close>, which turns words into numbers, and \<open>BucketSentenceIter\<close>, which sorts
  sentences into buckets of equal length, pads them, and delivers batches of one bucket each with the next
  token of every position as its label.

  The shuffles \<open>random.shuffle\<close> of the index list and \<open>np.random.shuffle\<close> of a bucket are the arguments
  \<open>shuf_idx\<close> and \<open>shuf_rows\<close>, numbered by their calls.  A two-dimensional array is the list of its rows; a code keeps
  its value in the element type of the array.  The caller's list of buckets is sorted in place; the model
  returns the iterator only.
\<close>

section \<open>Encoding\<close>

definition truthy :: "string option \<Rightarrow> bool" where
  "truthy s \<longleftrightarrow> (case s of None \<Rightarrow> False | Some w \<Rightarrow> w \<noteq> [])"

text \<open>The state of the loops: the next free index and the vocabulary, which may be the caller's dict.\<close>

type_synonym encoder = "int \<times> (string \<rightharpoonup> int)"

definition encode_word :: "bool \<Rightarrow> int \<Rightarrow> string option \<Rightarrow> encoder \<Rightarrow> string \<Rightarrow> (encoder, int) outcome" where
  "encode_word new_vocab invalid_label unknown_token e word =
     (case e of (idx, vocab) \<Rightarrow>
        (case vocab word of
           Some c \<Rightarrow> (e, Inr c)
         | None \<Rightarrow>
             if \<not> (new_vocab \<or> truthy unknown_token) then (e, Inl AssertionError)
             else (let idx = (if idx = invalid_label then idx + 1 else idx);
                       word = (if truthy unknown_token then the unknown_token else word)
                   in ((idx + 1, vocab(word \<mapsto> idx)), Inr idx))))"

fun encode_loop :: "('e \<Rightarrow> 'w \<Rightarrow> ('e, 'c) outcome) \<Rightarrow> 'e \<Rightarrow> 'w list \<Rightarrow> ('e, 'c list) outcome" where
  "encode_loop f e [] = (e, Inr [])"
| "encode_loop f e (w # ws) =
     sbind (f e w) (\<lambda>e c. sbind (encode_loop f e ws) (\<lambda>e cs. (e, Inr (c # cs))))"

definition encode_sentences ::
  "string list list \<Rightarrow> (string \<rightharpoonup> int) option \<Rightarrow> int \<Rightarrow> string \<Rightarrow> int \<Rightarrow> string option \<Rightarrow>
   (string \<rightharpoonup> int, int list list) outcome" where
  "encode_sentences sentences vocab invalid_label invalid_key start_label unknown_token =
     (let start = (case vocab of None \<Rightarrow> [invalid_key \<mapsto> invalid_label] | Some v \<Rightarrow> v)
      in case encode_loop (encode_loop (encode_word (vocab = None) invalid_label unknown_token))
                (start_label, start) sentences of
           ((idx, v), r) \<Rightarrow> (v, r))"

section \<open>The iterator\<close>

record bucket_iter =
  bi_data :: "int list list list"
  bi_batch_size :: int
  bi_buckets :: "int list"
  data_name :: string
  label_name :: string
  bi_dtype :: string
  bi_invalid_label :: int
  nddata :: "int list list list"
  ndlabel :: "int list list list"
  major_axis :: int
  bi_layout :: string
  default_bucket_key :: int
  bi_provide_data :: "data_desc list"
  bi_provide_label :: "data_desc list"
  bi_idx :: "(nat \<times> int) list"
  curr_idx :: nat
  bi_draws :: nat

definition bincount :: "nat list \<Rightarrow> nat list" where
  "bincount xs = map (count_list xs) [0..<(if xs = [] then 0 else Suc (foldr max xs 0))]"

definition auto_buckets :: "int list list \<Rightarrow> int \<Rightarrow> int list" where
  "auto_buckets sentences bsize =
     (let counts = bincount (map length sentences)
      in map int (filter (\<lambda>i. bsize \<le> int (counts ! i)) [0..<length counts]))"

definition chosen_buckets :: "int list list \<Rightarrow> int \<Rightarrow> int list option \<Rightarrow> int list" where
  "chosen_buckets sentences bsize buckets =
     (let given = (case buckets of None \<Rightarrow> [] | Some bs \<Rightarrow> bs)
      in sort (if given = [] then auto_buckets sentences bsize else given))"

definition bisect_left :: "int list \<Rightarrow> int \<Rightarrow> nat" where
  "bisect_left xs x = length (takeWhile (\<lambda>b. b < x) xs)"

definition pad_to :: "int \<Rightarrow> int \<Rightarrow> int list \<Rightarrow> int list" where
  "pad_to invalid_label width sent = sent @ replicate (nat width - length sent) invalid_label"

fun place_sentences ::
  "int list \<Rightarrow> int \<Rightarrow> int list list \<Rightarrow> int list list list \<times> nat set \<times> nat \<Rightarrow> int list list list \<times> nat set \<times> nat" where
  "place_sentences buckets invalid_label [] st = st"
| "place_sentences buckets invalid_label (sent # rest) (data, valid, ndiscard) =
     (let buck = bisect_left buckets (int (length sent)); valid = insert buck valid
      in if buck = length buckets
         then place_sentences buckets invalid_label rest (data, valid, ndiscard + 1)
         else place_sentences buckets invalid_label rest
                (data[buck := data ! buck @ [pad_to invalid_label (buckets ! buck) sent]], valid, ndiscard))"

definition bucket_desc :: "string \<Rightarrow> int list \<Rightarrow> string \<Rightarrow> data_desc" where
  "bucket_desc name shape layout =
     \<lparr> dd_name = name, dd_shape = shape, dd_dtype = mx_real_t, dd_layout = Some layout \<rparr>"

text \<open>The arrays and labels of \<open>reset\<close>; \<open>label[:, -1]\<close> raises when the rows are empty.\<close>

fun fill_arrays :: "int list list list \<Rightarrow> bucket_iter \<Rightarrow> (bucket_iter, unit) outcome" where
  "fill_arrays [] s = (s, Inr ())"
| "fill_arrays (buck # rest) s =
     (if hd buck = [] then (s, Inl IndexError)
      else fill_arrays rest
             (s\<lparr> nddata := nddata s @ [buck],
                 ndlabel := ndlabel s @ [map (\<lambda>r. tl r @ [bi_invalid_label s]) buck] \<rparr>))"

definition BucketSentenceIter_reset ::
  "(nat \<Rightarrow> (nat \<times> int) list \<Rightarrow> (nat \<times> int) list) \<Rightarrow> (nat \<Rightarrow> int list list \<Rightarrow> int list list) \<Rightarrow>
   bucket_iter \<Rightarrow> (bucket_iter, unit) outcome" where
  "BucketSentenceIter_reset shuf_idx shuf_rows s =
     (let data = map2 (\<lambda>k. shuf_rows (bi_draws s + k)) [0..<length (bi_data s)] (bi_data s)
      in fill_arrays data
           (s\<lparr> curr_idx := 0, bi_idx := shuf_idx (bi_draws s) (bi_idx s), bi_data := data,
               bi_draws := bi_draws s + length data + 1, nddata := [], ndlabel := [] \<rparr>))"

definition batch_starts :: "int \<Rightarrow> int list list list \<Rightarrow> (nat \<times> int) list result" where
  "batch_starts bsize data =
     rbind (mapM (\<lambda>i. rbind (py_range3 0 (int (length (data ! i)) - bsize + 1) bsize)
                        (\<lambda>js. Inr (map (Pair i) js))) [0..<length data])
       (\<lambda>ps. Inr (concat ps))"

definition BucketSentenceIter_init ::
  "(nat \<Rightarrow> (nat \<times> int) list \<Rightarrow> (nat \<times> int) list) \<Rightarrow> (nat \<Rightarrow> int list list \<Rightarrow> int list list) \<Rightarrow>
   int list list \<Rightarrow> int \<Rightarrow> int list option \<Rightarrow> int \<Rightarrow> string \<Rightarrow> string \<Rightarrow> string \<Rightarrow> string \<Rightarrow> bucket_iter result" where
  "BucketSentenceIter_init shuf_idx shuf_rows sentences bsize buckets invalid_label dname lname dt layout =
     (let sorted_buckets = chosen_buckets sentences bsize buckets
      in case place_sentences sorted_buckets invalid_label sentences (map (\<lambda>_. []) sorted_buckets, {}, 0) of
           (data, valid, ndiscard) \<Rightarrow>
             (let kept = map (\<lambda>i. sorted_buckets ! i) (filter (\<lambda>i. i \<in> valid) [0..<length sorted_buckets]);
                  data = filter (\<lambda>d. d \<noteq> []) data
              in if kept = [] then Inl ValueError
                 else
                   (let key = Max (set kept); axis = str_find layout CHR ''N'';
                        shape = (if axis = 0 then [bsize, key] else [key, bsize])
                    in if axis \<noteq> 0 \<and> axis \<noteq> 1 then Inl ValueError
                       else rbind (batch_starts bsize data) (\<lambda>idx.
                         case BucketSentenceIter_reset shuf_idx shuf_rows
                                \<lparr> bi_data = data, bi_batch_size = bsize, bi_buckets = kept,
                                  data_name = dname, label_name = lname, bi_dtype = dt,
                                  bi_invalid_label = invalid_label, nddata = [], ndlabel = [],
                                  major_axis = axis, bi_layout = layout, default_bucket_key = key,
                                  bi_provide_data = [bucket_desc dname shape layout],
                                  bi_provide_label = [bucket_desc lname shape layout],
                                  bi_idx = idx, curr_idx = 0, bi_draws = 0 \<rparr> of
                           (s, r) \<Rightarrow> rbind r (\<lambda>_. Inr s)))))"

record bucket_batch =
  bb_data :: "int list list"
  bb_label :: "int list list"
  bb_pad :: int
  bb_key :: int
  bb_provide_data :: "data_desc list"
  bb_provide_label :: "data_desc list"

definition array_shape :: "int list list \<Rightarrow> int list" where
  "array_shape a = [int (length a), int (length (hd a))]"

definition BucketSentenceIter_next :: "bucket_iter \<Rightarrow> (bucket_iter, bucket_batch) outcome" where
  "BucketSentenceIter_next s =
     (if curr_idx s = length (bi_idx s) then (s, Inl StopIteration)
      else
        (case bi_idx s ! curr_idx s of (i, j) \<Rightarrow>
           (let cut = (\<lambda>a. let rows = take (nat (bi_batch_size s)) (drop (nat j) (a ! i))
                           in if major_axis s = 1 then transpose rows else rows);
                data = cut (nddata s); label = cut (ndlabel s)
            in (s\<lparr> curr_idx := curr_idx s + 1 \<rparr>,
                Inr \<lparr> bb_data = data, bb_label = label, bb_pad = 0, bb_key = bi_buckets s ! i,
                      bb_provide_data = [bucket_desc (data_name s) (array_shape data) (bi_layout s)],
                      bb_provide_label = [bucket_desc (label_name s) (array_shape label) (bi_layout s)] \<rparr>))))"

section \<open>Codes\<close>

text \<open>A vocabulary that is being built: codes are distinct, below the next index, and none but that of the
  invalid key is the invalid label.\<close>

definition codes_ok :: "int \<Rightarrow> string \<Rightarrow> encoder \<Rightarrow> bool" where
  "codes_ok il key e \<longleftrightarrow>
     (case e of (idx, vocab) \<Rightarrow> vocab key = Some il \<and> inj_on vocab (dom vocab)
        \<and> (\<forall>w c. vocab w = Some c \<longrightarrow> w \<noteq> key \<longrightarrow> c < idx \<and> c \<noteq> il))"

lemma encode_word_new:
  assumes "codes_ok il key e" "\<not> truthy unk"
  shows "\<exists>e' c. encode_word True il unk e w = (e', Inr c) \<and> codes_ok il key e' \<and> snd e \<subseteq>\<^sub>m snd e' \<and> snd e' w = Some c
    \<and> dom (snd e') = insert w (dom (snd e))"
proof (cases e)
  case (Pair idx vocab)
  show ?thesis
  proof (cases "vocab w")
    case None
    define i where "i = (if idx = il then idx + 1 else idx)"
    have fresh: "vocab u \<noteq> Some i" for u
    proof
      assume u: "vocab u = Some i"
      show False
      proof (cases "u = key")
        case True
        with u assms(1) Pair show False by (auto simp: codes_ok_def i_def split: if_splits)
      next
        case False
        with u assms(1) Pair have "i < idx" by (auto simp: codes_ok_def)
        then show False by (simp add: i_def split: if_splits)
      qed
    qed
    have "inj_on (vocab(w \<mapsto> i)) (dom (vocab(w \<mapsto> i)))"
      using assms(1) Pair fresh unfolding codes_ok_def inj_on_def by (auto split: if_splits)
    moreover have "w \<noteq> key" using None assms(1) Pair by (auto simp: codes_ok_def)
    ultimately have "codes_ok il key (i + 1, vocab(w \<mapsto> i))"
      using assms(1) Pair by (fastforce simp: codes_ok_def i_def)
    then show ?thesis using None Pair assms(2) by (auto simp: encode_word_def Let_def i_def map_le_def)
  next
    case (Some c)
    then show ?thesis using Pair assms(1) by (auto simp: encode_word_def)
  qed
qed

lemma encode_loop_new:
  assumes step: "\<And>e x. P e \<Longrightarrow> \<exists>e' c. f e x = (e', Inr c) \<and> P e' \<and> snd e \<subseteq>\<^sub>m snd e' \<and> (\<forall>v. snd e' \<subseteq>\<^sub>m v \<longrightarrow> good v x c)"
    and "P e"
  shows "\<exists>e' cs. encode_loop f e xs = (e', Inr cs) \<and> P e' \<and> snd e \<subseteq>\<^sub>m snd e' \<and> (\<forall>v. snd e' \<subseteq>\<^sub>m v \<longrightarrow> list_all2 (good v) xs cs)"
  using assms(2)
proof (induction xs arbitrary: e)
  case (Cons x xs)
  from step [OF Cons.prems] obtain e1 c where e1: "f e x = (e1, Inr c)" "P e1" "snd e \<subseteq>\<^sub>m snd e1"
    "\<forall>v. snd e1 \<subseteq>\<^sub>m v \<longrightarrow> good v x c" by blast
  from Cons.IH [OF e1(2)] obtain e2 cs where e2: "encode_loop f e1 xs = (e2, Inr cs)" "P e2" "snd e1 \<subseteq>\<^sub>m snd e2"
    "\<forall>v. snd e2 \<subseteq>\<^sub>m v \<longrightarrow> list_all2 (good v) xs cs" by blast
  have "encode_loop f e (x # xs) = (e2, Inr (c # cs))" using e1(1) e2(1) by simp
  moreover have "snd e \<subseteq>\<^sub>m snd e2" "\<forall>v. snd e2 \<subseteq>\<^sub>m v \<longrightarrow> list_all2 (good v) (x # xs) (c # cs)"
    using e1(3,4) e2(3,4) map_le_trans by (blast, auto intro: map_le_trans)
  ultimately show ?case using e2(2) by blast
qed auto



text \<open>With a given vocabulary, unknown words are to share the code of the unknown token, but the test looks
  for the word and not for the token: each unknown word gets a new code, and the vocabulary keeps the last one.\<close>

lemma encode_unknown_differ:
  assumes "u \<noteq> []" "vocab w1 = None" "vocab w2 = None" "w2 \<noteq> u" "start \<noteq> il" "start + 1 \<noteq> il"
  shows "encode_sentences [[w1, w2]] (Some vocab) il key start (Some u)
       = (vocab(u \<mapsto> start + 1), Inr [[start, start + 1]])"
  using assms by (simp add: encode_sentences_def encode_word_def truthy_def Let_def)

section \<open>Buckets\<close>

text \<open>The bucket of a sentence: the smallest one that is long enough.\<close>

definition bucket_fits :: "int list \<Rightarrow> int list \<Rightarrow> int \<Rightarrow> bool" where
  "bucket_fits buckets sent b \<longleftrightarrow> b \<in> set buckets \<and> int (length sent) \<le> b
     \<and> (\<forall>b' \<in> set buckets. int (length sent) \<le> b' \<longrightarrow> b \<le> b')"

definition bucket_rows :: "int \<Rightarrow> int list \<Rightarrow> int list list \<Rightarrow> int \<Rightarrow> int list list" where
  "bucket_rows il buckets sentences b = map (pad_to il b) (filter (\<lambda>s. bucket_fits buckets s b) sentences)"

definition bucket_hits :: "int list \<Rightarrow> int list list \<Rightarrow> nat \<Rightarrow> int list list" where
  "bucket_hits B sentences i = filter (\<lambda>s. bisect_left B (int (length s)) = i) sentences"

lemma bisect_left_split:
  assumes "sorted B"
  shows "i < bisect_left B x \<Longrightarrow> B ! i < x" "bisect_left B x \<le> i \<Longrightarrow> i < length B \<Longrightarrow> x \<le> B ! i"
    "bisect_left B x \<le> length B"
proof -
  show "bisect_left B x \<le> length B" by (simp add: bisect_left_def length_takeWhile_le)
  show "B ! i < x" if "i < bisect_left B x" using that nth_mem [of i "takeWhile (\<lambda>b. b < x) B"]
    by (metis bisect_left_def set_takeWhileD takeWhile_nth)
  assume le: "bisect_left B x \<le> i" and i: "i < length B"
  then have "x \<le> B ! bisect_left B x"
    using nth_length_takeWhile [of "\<lambda>b. b < x" B] by (simp add: bisect_left_def)
  also have "\<dots> \<le> B ! i" using assms le i by (rule sorted_nth_mono)
  finally show "x \<le> B ! i" .
qed

lemma bucket_fits_bisect:
  assumes "sorted B"
  shows "bucket_fits B s b \<longleftrightarrow> bisect_left B (int (length s)) < length B \<and> B ! bisect_left B (int (length s)) = b"
proof -
  let ?k = "bisect_left B (int (length s))"
  note split = bisect_left_split [OF assms]
  have least: "B ! ?k \<le> b'" if "b' \<in> set B" "int (length s) \<le> b'" for b'
  proof -
    from that(1) obtain i where i: "i < length B" "B ! i = b'" by (auto simp: in_set_conv_nth)
    then have "?k \<le> i" using split(1) [of i "int (length s)"] that(2) by (meson linorder_not_le)
    then show ?thesis using sorted_nth_mono [OF assms _ i(1)] i(2) by blast
  qed
  show ?thesis
  proof (cases "?k < length B")
    case True
    then have "B ! ?k \<in> set B" "int (length s) \<le> B ! ?k" using split(2) [OF order_refl True] by simp_all
    with True least show ?thesis unfolding bucket_fits_def by (auto intro: antisym)
  next
    case False
    then have "\<not> int (length s) \<le> b" if "b \<in> set B"
      using that split(1) by (metis in_set_conv_nth linorder_not_le order_less_le_trans)
    with False show ?thesis by (auto simp: bucket_fits_def)
  qed
qed

lemma bisect_left_inj:
  assumes "sorted B" "bisect_left B x < length B" "bisect_left B y < length B"
    and eq: "B ! bisect_left B x = B ! bisect_left B y"
  shows "bisect_left B x = bisect_left B y"
proof -
  note split = bisect_left_split [OF assms(1)]
  have "\<not> bisect_left B x < bisect_left B y"
    using split(1) [of "bisect_left B x" y] split(2) [OF order_refl assms(3)] eq by auto
  moreover have "\<not> bisect_left B y < bisect_left B x"
    using split(1) [of "bisect_left B y" x] split(2) [OF order_refl assms(2)] eq by auto
  ultimately show ?thesis by simp
qed

lemma hits_someE:
  assumes "bucket_hits B sentences i \<noteq> []"
  obtains s where "s \<in> set sentences" "i = bisect_left B (int (length s))"
  using assms by (auto simp: bucket_hits_def filter_empty_conv)

lemma hits_bucket_rows:
  assumes "sorted B" "bucket_hits B sentences i \<noteq> []" "i < length B"
  shows "map (pad_to il (B ! i)) (bucket_hits B sentences i) = bucket_rows il B sentences (B ! i)"
proof -
  from assms(2) obtain s0 :: "int list" where s0: "i = bisect_left B (int (length s0))" by (rule hits_someE)
  have "bucket_fits B s (B ! i) \<longleftrightarrow> bisect_left B (int (length s)) = i" for s
    using bucket_fits_bisect [OF assms(1), of s "B ! i"] bisect_left_inj [OF assms(1)] assms(3) unfolding s0 by auto
  then show ?thesis by (simp add: bucket_hits_def bucket_rows_def)
qed

lemma place_sentences_hits:
  assumes "length data = length B" "sorted B"
    and "place_sentences B il sentences (data, valid, n) = (data', valid', n')"
  shows "data' = map (\<lambda>i. data ! i @ map (pad_to il (B ! i)) (bucket_hits B sentences i)) [0..<length B]
    \<and> valid' = valid \<union> {i. bucket_hits B sentences i \<noteq> []}"
  using assms(1,3)
proof (induction sentences arbitrary: data valid n)
  case Nil
  then show ?case by (auto simp: bucket_hits_def intro: nth_equalityI)
next
  case (Cons s sentences)
  let ?k = "bisect_left B (int (length s))"
  have valid: "{i. bucket_hits B (s # sentences) i \<noteq> []} = insert ?k {i. bucket_hits B sentences i \<noteq> []}" by (auto simp: bucket_hits_def)
  show ?case
  proof (cases "?k = length B")
    case True
    with Cons.prems have "place_sentences B il sentences (data, insert ?k valid, n + 1) = (data', valid', n')" by simp
    from Cons.IH [OF Cons.prems(1) this] True show ?thesis unfolding valid by (auto simp: bucket_hits_def)
  next
    case False
    then have k: "?k < length B" using bisect_left_split(3) [OF assms(2)] le_neq_implies_less by blast
    let ?data = "data[?k := data ! ?k @ [pad_to il (B ! ?k) s]]"
    from False Cons.prems have "place_sentences B il sentences (?data, insert ?k valid, n) = (data', valid', n')"
      by (simp add: Let_def)
    from Cons.IH [OF _ this] Cons.prems(1) k show ?thesis unfolding valid
      by (auto simp: bucket_hits_def nth_list_update)
  qed
qed

section \<open>One epoch\<close>

definition grid :: "nat \<Rightarrow> 'x list list \<Rightarrow> (nat \<times> int) list" where
  "grid n D = concat (map (\<lambda>i. map (Pair i) (map (\<lambda>k. int (k * n)) [0..<length (D ! i) div n])) [0..<length D])"

lemma batch_starts_grid: "0 < n \<Longrightarrow> batch_starts (int n) D = Inr (grid n D)"
  unfolding batch_starts_def grid_def
  by (subst mapM_Inr [where g = "\<lambda>i. map (Pair i) (map (\<lambda>k. int (k * n)) [0..<length (D ! i) div n])"])
    (simp_all add: py_range3_def nat_div_distrib)

lemma grid_filter:
  "filter (\<lambda>p. fst p = i) (concat (map (\<lambda>i. map (Pair i) (h i)) [0..<m])) = (if i < m then map (Pair i) (h i) else [])"
  by (induction m) (auto simp: filter_map o_def less_Suc_eq)

lemma mset_concat_map: "mset xs = mset ys \<Longrightarrow> mset (concat (map f xs)) = mset (concat (map f ys))"
  by (simp add: mset_concat flip: sum_mset_sum_list)

lemma fill_arrays_ok:
  "fill_arrays bs s = (t, Inr ()) \<Longrightarrow>
   t = s\<lparr> nddata := nddata s @ bs, ndlabel := ndlabel s @ map (map (\<lambda>r. tl r @ [bi_invalid_label s])) bs \<rparr>"
  by (induction bs s rule: fill_arrays.induct) (auto split: if_splits)

definition bi_ok :: "nat \<Rightarrow> int list list list \<Rightarrow> bucket_iter \<Rightarrow> bool" where
  "bi_ok n D s \<longleftrightarrow> bi_batch_size s = int n \<and> length (bi_buckets s) = length D \<and> distinct (bi_buckets s)
     \<and> map mset (bi_data s) = map mset D \<and> mset (bi_idx s) = mset (grid n D)"

definition arrays_ok :: "bucket_iter \<Rightarrow> bool" where
  "arrays_ok s \<longleftrightarrow> nddata s = bi_data s \<and> ndlabel s = map (map (\<lambda>r. tl r @ [bi_invalid_label s])) (bi_data s)
     \<and> curr_idx s = 0"

lemma reset_ok:
  assumes "bi_ok n D s" "\<And>k xs. mset (shuf_idx k xs) = mset xs" "\<And>k xs. mset (shuf_rows k xs) = mset xs"
    and "BucketSentenceIter_reset shuf_idx shuf_rows s = (t, Inr ())"
  shows "bi_ok n D t \<and> arrays_ok t \<and> bi_buckets t = bi_buckets s \<and> major_axis t = major_axis s
    \<and> bi_invalid_label t = bi_invalid_label s"
proof -
  let ?data = "map2 (\<lambda>k. shuf_rows (bi_draws s + k)) [0..<length (bi_data s)] (bi_data s)"
  have "map mset ?data = map mset (bi_data s)" by (rule nth_equalityI) (simp_all add: assms(3))
  with assms(1) fill_arrays_ok [OF assms(4) [unfolded BucketSentenceIter_reset_def Let_def]] assms(2) show ?thesis
    by (simp add: bi_ok_def arrays_ok_def)
qed

definition batch_at :: "bucket_iter \<Rightarrow> nat \<times> int \<Rightarrow> bucket_batch" where
  "batch_at s p = (case snd (BucketSentenceIter_next (s\<lparr> bi_idx := [p], curr_idx := 0 \<rparr>)) of Inr b \<Rightarrow> b)"

lemma next_batch_at:
  assumes "curr_idx s < length (bi_idx s)"
  shows "BucketSentenceIter_next s = (s\<lparr> curr_idx := curr_idx s + 1 \<rparr>, Inr (batch_at s (bi_idx s ! curr_idx s)))"
  using assms by (simp add: BucketSentenceIter_next_def batch_at_def Let_def split: prod.split)

lemma batch_at_curr [simp]: "batch_at (s\<lparr> curr_idx := k \<rparr>) p = batch_at s p"
  by (simp add: batch_at_def BucketSentenceIter_next_def Let_def split: prod.split)

lemma drain_buckets:
  assumes "curr_idx s \<le> length (bi_idx s)" "length (bi_idx s) - curr_idx s < fuel"
  shows "\<exists>t. drain fuel BucketSentenceIter_next s = Some (t, map (batch_at s) (drop (curr_idx s) (bi_idx s)), StopIteration)"
  using assms
proof (induction fuel arbitrary: s)
  case (Suc fuel)
  show ?case
  proof (cases "curr_idx s = length (bi_idx s)")
    case True
    then show ?thesis by (simp add: BucketSentenceIter_next_def)
  next
    case False
    then have lt: "curr_idx s < length (bi_idx s)" using Suc.prems by simp
    have "\<exists>t. drain fuel BucketSentenceIter_next (s\<lparr> curr_idx := curr_idx s + 1 \<rparr>)
        = Some (t, map (batch_at s) (drop (curr_idx s + 1) (bi_idx s)), StopIteration)"
      using Suc.IH [of "s\<lparr> curr_idx := curr_idx s + 1 \<rparr>"] Suc.prems lt by simp
    then show ?thesis using next_batch_at [OF lt] lt by (auto simp flip: Cons_nth_drop_Suc)
  qed
qed simp

lemma batch_at_rows:
  assumes "arrays_ok s" "major_axis s = 0" "bi_batch_size s = int n" "i < length (bi_data s)"
  shows "bb_data (batch_at s (i, int m)) = take n (drop m (bi_data s ! i))"
    "bb_label (batch_at s (i, int m)) = map (\<lambda>r. tl r @ [bi_invalid_label s]) (bb_data (batch_at s (i, int m)))"
    "bb_key (batch_at s (i, int m)) = bi_buckets s ! i"
  using assms by (simp_all add: batch_at_def BucketSentenceIter_next_def Let_def arrays_ok_def take_map drop_map)

lemma init_ok:
  assumes "BucketSentenceIter_init shuf_idx shuf_rows sentences (int n) buckets il dname lname dt layout = Inr s" "0 < n"
    and shuf: "\<And>k xs. mset (shuf_idx k xs) = mset xs" "\<And>k xs. mset (shuf_rows k xs) = mset xs"
  defines "B \<equiv> chosen_buckets sentences (int n) buckets"
  shows "bi_ok n (map (bucket_rows il B sentences) (bi_buckets s)) s \<and> arrays_ok s \<and> bi_invalid_label s = il
    \<and> major_axis s = str_find layout CHR ''N'' \<and> (\<forall>key. key \<notin> set (bi_buckets s) \<longrightarrow> bucket_rows il B sentences key = [])"
proof -
  have sorted: "sorted B" by (simp add: B_def chosen_buckets_def Let_def)
  obtain data valid nd where place: "place_sentences B il sentences (map (\<lambda>_. []) B, {}, 0) = (data, valid, nd)"
    by (cases "place_sentences B il sentences (map (\<lambda>_. []) B, {}, 0)")
  define sel where "sel = filter (\<lambda>i. bucket_hits B sentences i \<noteq> []) [0..<length B]"
  define kept where "kept = map (\<lambda>i. B ! i) sel"
  note bucket_hits = place_sentences_hits [OF _ sorted place]
  have valid: "filter (\<lambda>i. i \<in> valid) [0..<length B] = sel" using bucket_hits by (simp add: sel_def)
  have data: "filter (\<lambda>d. d \<noteq> []) data = map (bucket_rows il B sentences) kept"
  proof -
    have "data = map (\<lambda>i. map (pad_to il (B ! i)) (bucket_hits B sentences i)) [0..<length B]" using bucket_hits by simp
    then have "filter (\<lambda>d. d \<noteq> []) data = map (\<lambda>i. map (pad_to il (B ! i)) (bucket_hits B sentences i)) sel"
      by (simp add: filter_map o_def sel_def)
    also have "\<dots> = map (\<lambda>i. bucket_rows il B sentences (B ! i)) sel"
      by (rule map_cong [OF refl], rule hits_bucket_rows [OF sorted]) (simp_all add: sel_def)
    finally show ?thesis by (simp add: kept_def)
  qed
  have "inj_on ((!) B) (set sel)"
  proof (rule inj_onI)
    fix i j assume i: "i \<in> set sel" and j: "j \<in> set sel" and eq: "B ! i = B ! j"
    from i obtain x :: "int list" where x: "i = bisect_left B (int (length x))" by (auto simp: sel_def elim: hits_someE)
    from j obtain y :: "int list" where y: "j = bisect_left B (int (length y))" by (auto simp: sel_def elim: hits_someE)
    show "i = j" using bisect_left_inj [OF sorted] i j eq unfolding x y by (simp add: sel_def)
  qed
  then have dist: "distinct kept" by (simp add: kept_def distinct_map sel_def)
  obtain u where u: "BucketSentenceIter_reset shuf_idx shuf_rows u = (s, Inr ())"
    "bi_data u = map (bucket_rows il B sentences) kept" "bi_batch_size u = int n" "bi_buckets u = kept"
    "bi_idx u = grid n (map (bucket_rows il B sentences) kept)" "bi_invalid_label u = il" "major_axis u = str_find layout CHR ''N''"
    using assms(1) unfolding BucketSentenceIter_init_def B_def [symmetric] Let_def place prod.case
      valid kept_def [symmetric] data batch_starts_grid [OF assms(2)]
    by (auto split: if_splits)
  have "bi_ok n (map (bucket_rows il B sentences) kept) u" using u dist by (simp add: bi_ok_def)
  from reset_ok [OF this shuf u(1)] u have "bi_ok n (map (bucket_rows il B sentences) (bi_buckets s)) s \<and> arrays_ok s
    \<and> bi_invalid_label s = il \<and> major_axis s = str_find layout CHR ''N''" and "bi_buckets s = kept" by simp_all
  moreover have "bucket_rows il B sentences key = []" if "key \<notin> set kept" for key
  proof -
    have "\<not> bucket_fits B x key" if "x \<in> set sentences" for x
      using that \<open>key \<notin> set kept\<close> bucket_fits_bisect [OF sorted, of x key]
      by (auto simp: kept_def sel_def bucket_hits_def filter_empty_conv)
    then show ?thesis by (simp add: bucket_rows_def filter_empty_conv)
  qed
  ultimately show ?thesis by blast
qed

lemma bucket_rows_width: "r \<in> set (bucket_rows il B sentences b) \<Longrightarrow> length r = nat b"
  by (auto simp: bucket_rows_def pad_to_def bucket_fits_def)

text \<open>C18. An epoch of a \<open>BucketSentenceIter\<close> in layout NT: every batch consists of \<open>batch_size\<close> rows of one bucket, all
  of the bucket's length, with labels that are the rows moved by one position; and for every bucket the rows
  delivered are, up to order, among the padded sentences whose smallest sufficient bucket it is, each at most
  once, with fewer than \<open>batch_size\<close> of them left out.\<close>

theorem BucketSentenceIter_epoch:
  assumes init: "BucketSentenceIter_init shuf_idx shuf_rows sentences (int n) buckets il dname lname dt ''NT'' = Inr s"
    and n: "0 < n" and fuel: "length (bi_idx s) < fuel"
    and shuf: "\<And>k xs. mset (shuf_idx k xs) = mset xs" "\<And>k xs. mset (shuf_rows k xs) = mset xs"
  defines "R \<equiv> bucket_rows il (chosen_buckets sentences (int n) buckets) sentences"
  shows "\<exists>t batches. drain fuel BucketSentenceIter_next s = Some (t, batches, StopIteration)
    \<and> (\<forall>b \<in> set batches. length (bb_data b) = n \<and> (\<forall>r \<in> set (bb_data b). length r = nat (bb_key b))
         \<and> bb_label b = map (\<lambda>r. tl r @ [il]) (bb_data b))
    \<and> (\<forall>key. mset (concat (map bb_data (filter (\<lambda>b. bb_key b = key) batches))) \<subseteq># mset (R key)
         \<and> length (filter (\<lambda>b. bb_key b = key) batches) = length (R key) div n)"
proof -
  let ?D = "map R (bi_buckets s)"
  from init_ok [OF init n shuf] have ok: "bi_ok n ?D s" and arr: "arrays_ok s" and il: "bi_invalid_label s = il"
    and axis: "major_axis s = 0" and out: "\<And>key. key \<notin> set (bi_buckets s) \<Longrightarrow> R key = []"
    by (auto simp: R_def)
  have len: "length (bi_data s) = length (bi_buckets s)" and idx: "mset (bi_idx s) = mset (grid n ?D)"
    and bs: "bi_batch_size s = int n" and dist: "distinct (bi_buckets s)"
    using ok unfolding bi_ok_def by (metis length_map, simp_all)
  have rows: "mset (bi_data s ! i) = mset (R (bi_buckets s ! i))" if "i < length (bi_buckets s)" for i
    using ok that len unfolding bi_ok_def by (metis (no_types, lifting) length_map nth_map)
  let ?batches = "map (batch_at s) (bi_idx s)"
  from drain_buckets [of s fuel] fuel arr obtain t where
    t: "drain fuel BucketSentenceIter_next s = Some (t, ?batches, StopIteration)" by (auto simp: arrays_ok_def)
  have elem: "\<exists>i k. p = (i, int (k * n)) \<and> i < length (bi_buckets s) \<and> k < length (bi_data s ! i) div n"
    if "p \<in> set (bi_idx s)" for p
    using that mset_eq_setD [OF idx] rows mset_eq_length by (fastforce simp: grid_def)
  have width: "length r = nat (bi_buckets s ! i)" if "i < length (bi_buckets s)" "r \<in> set (bi_data s ! i)" for i r
    using that rows bucket_rows_width by (metis R_def mset_eq_setD)
  note at = batch_at_rows [OF arr axis bs]
  have full: "length (bb_data b) = n \<and> (\<forall>r \<in> set (bb_data b). length r = nat (bb_key b))
      \<and> bb_label b = map (\<lambda>r. tl r @ [il]) (bb_data b)" if b: "b \<in> set ?batches" for b
  proof -
    from b elem obtain i k where bik: "b = batch_at s (i, int (k * n))" "i < length (bi_buckets s)"
      "k < length (bi_data s ! i) div n" by fastforce
    have "length (bi_data s ! i) div n * n \<le> length (bi_data s ! i)" by simp
    from length_blocks [OF this bik(3)] width [OF bik(2)] at [of i "k * n"] bik(1,2) len il show ?thesis
      by (auto dest: in_set_takeD in_set_dropD simp del: of_nat_mult)
  qed
  have "mset (concat (map bb_data (filter (\<lambda>b. bb_key b = key) ?batches))) \<subseteq># mset (R key)
      \<and> length (filter (\<lambda>b. bb_key b = key) ?batches) = length (R key) div n" for key
  proof (cases "key \<in> set (bi_buckets s)")
    case False
    then have "filter (\<lambda>b. bb_key b = key) ?batches = []"
      using elem at(3) len by (fastforce simp: filter_empty_conv simp del: of_nat_mult)
    with out [OF False] show ?thesis by simp
  next
    case True
    then obtain i where i: "i < length (bi_buckets s)" "bi_buckets s ! i = key" by (auto simp: in_set_conv_nth)
    let ?k = "length (bi_data s ! i) div n" and ?P = "\<lambda>p. bb_key (batch_at s p) = key"
    have size: "length (R key) = length (bi_data s ! i)" using rows [OF i(1)] i(2) mset_eq_length by metis
    have P: "?P p \<longleftrightarrow> fst p = i" if "p \<in> set (bi_idx s)" for p
      using elem [OF that] at(3) len i dist by (auto simp: nth_eq_iff_index_eq simp del: of_nat_mult)
    have "filter ?P (grid n ?D) = filter (\<lambda>p. fst p = i) (grid n ?D)"
      using P mset_eq_setD [OF idx] by (intro filter_cong) auto
    also have "\<dots> = map (\<lambda>k. (i, int (k * n))) [0..<?k]"
      unfolding grid_def grid_filter using i size by simp
    finally have idx_i: "mset (filter ?P (bi_idx s)) = mset (map (\<lambda>k. (i, int (k * n))) [0..<?k])"
      using idx by (metis mset_filter)
    have "mset (concat (map (bb_data \<circ> batch_at s) (filter ?P (bi_idx s))))
        = mset (concat (map (\<lambda>k. take n (drop (k * n) (bi_data s ! i))) [0..<?k]))"
      using mset_concat_map [OF idx_i, of "bb_data \<circ> batch_at s"] at(1) i(1) len by (simp add: o_def del: of_nat_mult)
    also have "\<dots> = mset (take (?k * n) (bi_data s ! i))" by (subst concat_blocks [OF n]) simp_all
    also have "\<dots> \<subseteq># mset (R key)"
      using rows [OF i(1)] i(2) by (metis append_take_drop_id mset_append mset_subset_eq_add_left)
    finally show ?thesis using mset_eq_length [OF idx_i] size by (simp add: filter_map o_def)
  qed
  with t full show ?thesis by blast
qed

theorem BucketSentenceIter_epoch_witness:
  "\<exists>s t batches. BucketSentenceIter_init (\<lambda>_. rev) (\<lambda>_. rev) [[1, 2], [3], [4, 5], [6, 7, 8]] 2 (Some [2]) (-1)
       ''data'' ''softmax_label'' ''float32'' ''NT'' = Inr s
     \<and> drain 5 BucketSentenceIter_next s = Some (t, batches, StopIteration)
     \<and> length (filter (\<lambda>b. bb_key b = 2) batches) = 1
     \<and> mset (concat (map bb_data (filter (\<lambda>b. bb_key b = 2) batches))) \<subseteq># {#[1, 2], [3, -1], [4, 5]#}"
proof -
  let ?S = "[[1, 2], [3], [4, 5], [6, 7, 8]] :: int list list"
  obtain s where s: "BucketSentenceIter_init (\<lambda>_. rev) (\<lambda>_. rev) ?S (int 2) (Some [2]) (-1)
       ''data'' ''softmax_label'' ''float32'' ''NT'' = Inr s" "length (bi_idx s) = 1"
    by (simp add: BucketSentenceIter_init_def chosen_buckets_def Let_def bisect_left_def pad_to_def
        batch_starts_def py_range3_def BucketSentenceIter_reset_def)
  have R: "bucket_rows (-1) (chosen_buckets ?S (int 2) (Some [2])) ?S 2 = [[1, 2], [3, -1], [4, 5]]"
    by (simp add: bucket_rows_def chosen_buckets_def bucket_fits_def pad_to_def)
  from BucketSentenceIter_epoch [OF s(1), of 5] s obtain t batches where
    t: "drain 5 BucketSentenceIter_next s = Some (t, batches, StopIteration)" and
    k: "\<forall>key. mset (concat (map bb_data (filter (\<lambda>b. bb_key b = key) batches)))
          \<subseteq># mset (bucket_rows (-1) (chosen_buckets ?S (int 2) (Some [2])) ?S key)
        \<and> length (filter (\<lambda>b. bb_key b = key) batches) = length (bucket_rows (-1) (chosen_buckets ?S (int 2) (Some [2])) ?S key) div 2"
    by auto
  from k [rule_format, of 2] have "length (filter (\<lambda>b. bb_key b = 2) batches) = 1"
    "mset (concat (map bb_data (filter (\<lambda>b. bb_key b = 2) batches))) \<subseteq># {#[1, 2], [3, -1], [4, 5]#}"
    unfolding R by (simp_all add: add_mset_commute)
  with s(1) t show ?thesis by auto
qed

end
