(* ===== verification/Batch_Split.thy ===== *)
theory Batch_Split
  imports Nd_Arrays
begin

text \<open>
  Distributing a batch over devices: \<open>_split_input_slice\<close>, \<open>_check_arguments\<close> and \<open>_load_general\<close> of
  \<open>executor_manager.py\<close>, and \<open>split_data\<close>, \<open>split_and_load\<close> and \<open>clip_global_norm\<close> of \<open>gluon/utils.py\<close>.

  A slice is the pair of its bounds.  Copying to a device keeps the values, so a loaded array is paired with its
  context.  The properties: the slices of a batch are nonempty, consecutive and cover it, so that loading
  through them distributes every sample once; splitting an array along any axis loses nothing; and clipping
  brings the norm of the gradients below its bound without changing their direction.
\<close>

section \<open>Slices by work load\<close>

text \<open>Python's \<open>round\<close>: to the nearest integer, halves to the even one.\<close>

definition py_round :: "real \<Rightarrow> int" where
  "py_round x =
     (let f = \<lfloor>x\<rfloor>; d = x - of_int f
      in if d < 1 / 2 then f else if 1 / 2 < d then f + 1 else if even f then f else f + 1)"

fun slice_loop :: "int \<Rightarrow> int \<Rightarrow> int list \<Rightarrow> (int \<times> int) list result" where
  "slice_loop bs stop [] = Inr []"
| "slice_loop bs stop (num # rest) =
     (let begin = min stop bs; stop' = min (begin + num) bs
      in if stop' \<le> begin then Inl ValueError
         else rbind (slice_loop bs stop' rest) (\<lambda>slices. Inr ((begin, stop') # slices)))"

definition batch_nums :: "int \<Rightarrow> real list \<Rightarrow> int list" where
  "batch_nums bs work_load_list = map (\<lambda>w. py_round (w * of_int bs / sum_list work_load_list)) work_load_list"

definition split_input_slice :: "int \<Rightarrow> real list \<Rightarrow> (int \<times> int) list result" where
  "split_input_slice bs work_load_list =
     (if work_load_list \<noteq> [] \<and> sum_list work_load_list = 0 then Inl ZeroDivisionError
      else
        (let nums = batch_nums bs work_load_list; total = sum_list nums
         in if total < bs
            then (if nums = [] then Inl IndexError
                  else slice_loop bs 0 (butlast nums @ [last nums + (bs - total)]))
            else slice_loop bs 0 nums))"

text \<open>Names must not occur twice.\<close>

definition check_arguments :: "string list \<Rightarrow> string list \<Rightarrow> unit result" where
  "check_arguments arg_names aux_names =
     (if \<not> distinct arg_names then Inl ValueError
      else if \<not> distinct aux_names then Inl ValueError else Inr ())"

text \<open>A target is an array of the full batch, or arrays for parts of it.\<close>

datatype 'x load_target = WholeBatch "'x list" | Parts "((int \<times> int) \<times> 'x list) list"

definition copyto :: "'x list \<Rightarrow> 'x list \<Rightarrow> 'x list result" where
  "copyto src dst = (if length src = length dst then Inr src else Inl MXNetError)"

definition rows_between :: "int \<times> int \<Rightarrow> 'x list \<Rightarrow> 'x list" where
  "rows_between sl xs = take (nat (snd sl - fst sl)) (drop (nat (fst sl)) xs)"

fun load_parts :: "'x list \<Rightarrow> ((int \<times> int) \<times> 'x list) list \<Rightarrow> (((int \<times> int) \<times> 'x list) list, unit) outcome" where
  "load_parts src [] = ([], Inr ())"
| "load_parts src ((sl, dst) # rest) =
     (case copyto (rows_between sl src) dst of
        Inl e \<Rightarrow> ((sl, dst) # rest, Inl e)
      | Inr dst' \<Rightarrow> (case load_parts src rest of (rest', r) \<Rightarrow> ((sl, dst') # rest', r)))"

definition load_one :: "'x list \<Rightarrow> 'x load_target \<Rightarrow> ('x load_target, unit) outcome" where
  "load_one src target =
     (case target of
        WholeBatch dst \<Rightarrow> (case copyto src dst of Inl e \<Rightarrow> (target, Inl e) | Inr d \<Rightarrow> (WholeBatch d, Inr ()))
      | Parts ps \<Rightarrow>
          if ps = [] then (target, Inl IndexError)
          else if snd (fst (last ps)) \<noteq> int (length src) then (target, Inl AssertionError)
          else (case load_parts src ps of (ps', r) \<Rightarrow> (Parts ps', r)))"

fun load_general :: "'x list list \<Rightarrow> 'x load_target list \<Rightarrow> ('x load_target list, unit) outcome" where
  "load_general (src # srcs) (target # targets) =
     (case load_one src target of
        (target', Inl e) \<Rightarrow> (target' # targets, Inl e)
      | (target', Inr _) \<Rightarrow> (case load_general srcs targets of (targets', r) \<Rightarrow> (target' # targets', r)))"
| "load_general srcs targets = (targets, Inr ())"

section \<open>Splitting an array\<close>

definition leading :: "nat \<Rightarrow> nat list \<Rightarrow> nat" where "leading axis sh = prod_list (take axis sh)"
definition trailing :: "nat \<Rightarrow> nat list \<Rightarrow> nat" where "trailing axis sh = prod_list (drop (axis + 1) sh)"

definition slice_axis :: "nat \<Rightarrow> nat \<Rightarrow> nat \<Rightarrow> 'a arr \<Rightarrow> 'a arr" where
  "slice_axis axis b e a =
     (let m = a_shape a ! axis; t = trailing axis (a_shape a)
      in \<lparr> a_shape = (a_shape a)[axis := e - b],
           a_vals = concat (map (\<lambda>l. take ((e - b) * t) (drop ((l * m + b) * t) (a_vals a)))
                              [0..<leading axis (a_shape a)]) \<rparr>)"

text \<open>An operator with a single output returns the array itself, not a list.\<close>

datatype 'a split_result = SliceList "'a arr list" | SingleArray "'a arr"

definition axis_slices :: "nat \<Rightarrow> nat \<Rightarrow> nat \<Rightarrow> 'a arr \<Rightarrow> 'a arr list" where
  "axis_slices axis k step data =
     map (\<lambda>i. slice_axis axis (i * step) (if i < k - 1 then (i + 1) * step else a_shape data ! axis) data) [0..<k]"

definition split_data :: "'a arr \<Rightarrow> int \<Rightarrow> int \<Rightarrow> bool \<Rightarrow> 'a split_result result" where
  "split_data data num_slice batch_axis even_split =
     rbind (py_get (a_shape data) batch_axis) (\<lambda>n.
       let axis = nat (batch_axis mod int (length (a_shape data)))
       in if int n < num_slice then Inl ValueError
          else if num_slice = 0 then Inl ZeroDivisionError
          else if even_split \<and> int n mod num_slice \<noteq> 0 then Inl ValueError
          else if num_slice < 0 then (if batch_axis \<noteq> 0 \<and> even_split then Inl MXNetError else Inr (SliceList []))
          else let k = nat num_slice; slices = axis_slices axis k (n div k) data
               in if batch_axis \<noteq> 0 \<and> even_split \<and> k = 1 then Inr (SingleArray (hd slices))
                  else Inr (SliceList slices))"

definition split_and_load :: "'a arr \<Rightarrow> 'c list \<Rightarrow> int \<Rightarrow> bool \<Rightarrow> ('a arr \<times> 'c) list result" where
  "split_and_load data ctx_list batch_axis even_split =
     (if length ctx_list = 1 then Inr [(data, hd ctx_list)]
      else rbind (split_data data (int (length ctx_list)) batch_axis even_split) (\<lambda>r.
             case r of SliceList slices \<Rightarrow> Inr (zip slices ctx_list) | SingleArray a \<Rightarrow> Inl TypeError))"

section \<open>Clipping gradients\<close>

definition sq_norm :: "real list \<Rightarrow> real" where
  "sq_norm xs = sum_list (map (\<lambda>x. x * x) xs)"

definition clip_global_norm :: "real list list \<Rightarrow> real \<Rightarrow> (real list list, real) outcome" where
  "clip_global_norm arrays max_norm =
     (if arrays = [] then (arrays, Inl AssertionError)
      else let total_norm = sqrt (sum_list (map sq_norm arrays));
               scale = min (max_norm / (total_norm + 1 / 10 ^ 8)) 1
           in (map (map (\<lambda>x. x * scale)) arrays, Inr total_norm))"

section \<open>Slices cover the batch\<close>

lemma slice_loop_covers:
  assumes "slice_loop bs b nums = Inr slices" "0 \<le> b" "b \<le> bs" "bs \<le> b + sum_list nums"
  shows "length slices = length nums \<and> (\<forall>(i, j) \<in> set slices. b \<le> i \<and> i < j \<and> j \<le> bs)
    \<and> concat (map (\<lambda>(i, j). [i..j - 1]) slices) = [b..bs - 1]
    \<and> (slices \<noteq> [] \<longrightarrow> snd (last slices) = bs)"
  using assms
proof (induction bs b nums arbitrary: slices rule: slice_loop.induct)
  case (2 bs b num rest)
  define e where "e = min (b + num) bs"
  from "2.prems" obtain ss where e: "b < e" "e \<le> bs" and ss: "slice_loop bs e rest = Inr ss" "slices = (b, e) # ss"
    by (auto simp: Let_def e_def not_le split: if_splits)
  have IH: "length ss = length rest \<and> (\<forall>(i, j) \<in> set ss. e \<le> i \<and> i < j \<and> j \<le> bs)
      \<and> concat (map (\<lambda>(i, j). [i..j - 1]) ss) = [e..bs - 1] \<and> (ss \<noteq> [] \<longrightarrow> snd (last ss) = bs)" if "bs \<le> e + sum_list rest"
  proof -
    have "b = min b bs" using "2.prems"(3) by simp
    from "2.IH" [OF this e_def _ ss(1)] that e "2.prems"(2) show ?thesis by linarith
  qed
  have split: "[b..bs - 1] = [b..e - 1] @ [e..bs - 1]"
    using e upto_split1 [of b e "bs - 1"] by (cases "e = bs") auto
  have "bs \<le> e + sum_list rest \<or> e = bs" using "2.prems"(4) by (auto simp: e_def min_def)
  then show ?case
  proof
    assume "bs \<le> e + sum_list rest"
    from IH [OF this] ss(2) e split show ?thesis by fastforce
  next
    assume "e = bs"
    moreover have "rest = []"
    proof (cases rest)
      case (Cons n r)
      with ss(1) \<open>e = bs\<close> show ?thesis by (auto simp: Let_def split: if_splits)
    qed
    ultimately show ?thesis using ss e by auto
  qed
qed auto

lemma split_input_slice_covers:
  assumes "split_input_slice bs work_load_list = Inr slices" "0 < bs"
  shows "length slices = length work_load_list \<and> (\<forall>(i, j) \<in> set slices. 0 \<le> i \<and> i < j \<and> j \<le> bs)
    \<and> concat (map (\<lambda>(i, j). [i..j - 1]) slices) = [0..bs - 1] \<and> snd (last slices) = bs"
proof -
  let ?nums = "batch_nums bs work_load_list"
  obtain nums where nums: "slice_loop bs 0 nums = Inr slices" "bs \<le> sum_list nums" "length nums = length ?nums"
  proof (cases "sum_list ?nums < bs")
    case True
    with assms(1) have ne: "?nums \<noteq> []"
      and loop: "slice_loop bs 0 (butlast ?nums @ [last ?nums + (bs - sum_list ?nums)]) = Inr slices"
      by (auto simp: split_input_slice_def Let_def split: if_splits)
    have "sum_list ?nums = sum_list (butlast ?nums) + last ?nums"
      using ne by (cases ?nums rule: rev_cases) simp_all
    with that [OF loop] ne show ?thesis by simp
  next
    case False
    with assms(1) that show ?thesis by (auto simp: split_input_slice_def Let_def split: if_splits)
  qed
  have "slices \<noteq> []" using nums(1,2) assms(2) by (cases nums) (auto simp: Let_def split: if_splits)
  with slice_loop_covers [OF nums(1)] nums(2,3) assms(2) show ?thesis by (simp add: batch_nums_def)
qed

lemma rows_between_upto:
  assumes "0 \<le> i" "i \<le> j" "j \<le> int (length xs)"
  shows "rows_between (i, j) xs = map (\<lambda>k. xs ! nat k) [i..j - 1]"
proof (rule nth_equalityI)
  show len: "length (rows_between (i, j) xs) = length (map (\<lambda>k. xs ! nat k) [i..j - 1])"
    using assms by (simp add: rows_between_def)
  show "rows_between (i, j) xs ! k = map (\<lambda>k. xs ! nat k) [i..j - 1] ! k" if "k < length (rows_between (i, j) xs)" for k
    using that len assms by (simp add: rows_between_def nat_add_distrib)
qed

lemma map_upto_src: "map (\<lambda>k. xs ! nat k) [0..int (length xs) - 1] = xs"
  by (rule nth_equalityI) simp_all

lemma load_parts_ok:
  assumes "\<And>sl dst. (sl, dst) \<in> set ps \<Longrightarrow> length dst = length (rows_between sl src)"
  shows "load_parts src ps = (map (\<lambda>(sl, dst). (sl, rows_between sl src)) ps, Inr ())"
  using assms
proof (induction ps)
  case (Cons p ps)
  then show ?case by (cases p) (fastforce simp: copyto_def)
qed simp

text \<open>C20. When a batch of \<open>bs\<close> samples is sliced by work load, there is one slice per device, the slices are
  nonempty and consecutive and cover the batch, and loading a batch through them into arrays of the slices'
  sizes succeeds and distributes its samples, in order, without loss or repetition.\<close>

theorem split_and_load_general:
  assumes "split_input_slice (int (length src)) work_load_list = Inr slices" "src \<noteq> []"
    and "length dsts = length slices" "\<And>k. k < length slices \<Longrightarrow> int (length (dsts ! k)) = snd (slices ! k) - fst (slices ! k)"
  shows "length slices = length work_load_list \<and> (\<forall>(i, j) \<in> set slices. i < j)
    \<and> concat (map (\<lambda>(i, j). [i..j - 1]) slices) = [0..int (length src) - 1]
    \<and> (\<exists>parts. load_general [src] [Parts (zip slices dsts)] = ([Parts (zip slices parts)], Inr ())
         \<and> length parts = length slices \<and> concat parts = src)"
proof -
  from assms(2) have pos: "0 < int (length src)" by simp
  note c = split_input_slice_covers [OF assms(1) pos]
  let ?parts = "map (\<lambda>sl. rows_between sl src) slices"
  have between: "rows_between sl src = map (\<lambda>k. src ! nat k) [fst sl..snd sl - 1]" if "sl \<in> set slices" for sl
    using rows_between_upto [of "fst sl" "snd sl" src] c that by fastforce
  have "length dst = length (rows_between sl src)" if "(sl, dst) \<in> set (zip slices dsts)" for sl dst
  proof -
    from that obtain k where k: "k < length slices" "sl = slices ! k" "dst = dsts ! k"
      by (auto simp: in_set_zip)
    then have "sl \<in> set slices" by simp
    from between [OF this] assms(4) [OF k(1)] k(2,3) show ?thesis by simp
  qed
  from load_parts_ok [OF this] have "load_parts src (zip slices dsts) = (zip slices ?parts, Inr ())"
    using assms(3) by (auto intro!: nth_equalityI)
  moreover have ne: "slices \<noteq> []" using c pos by auto
  moreover have "fst (last (zip slices dsts)) = last slices" using ne assms(3) by (subst last_zip) auto
  ultimately have "load_general [src] [Parts (zip slices dsts)] = ([Parts (zip slices ?parts)], Inr ())"
    using c assms(3) by (cases dsts) (auto simp: load_one_def)
  moreover have "concat ?parts = map (\<lambda>k. src ! nat k) (concat (map (\<lambda>(i, j). [i..j - 1]) slices))"
    using between by (simp add: map_concat o_def case_prod_beta cong: map_cong)
  then have "concat ?parts = map (\<lambda>k. src ! nat k) [0..int (length src) - 1]" using c by simp
  then have "concat ?parts = src" by (simp add: map_upto_src)
  ultimately show ?thesis using c by (auto intro!: exI [of _ ?parts])
qed

theorem split_and_load_general_witness:
  "\<exists>parts. load_general [''abcde''] [Parts [((0, 2), ''..''), ((2, 5), ''...'')]] = ([Parts (zip [(0, 2), (2, 5)] parts)], Inr ())
     \<and> length parts = 2 \<and> concat parts = ''abcde''"
proof -
  have "py_round (5 / 2) = 2"
    by (simp add: py_round_def floor_divide_of_int_eq [of 5 2, simplified] Let_def)
  then have s: "split_input_slice (int (length ''abcde'')) [1, 1] = Inr [(0, 2), (2, 5)]"
    by (simp add: split_input_slice_def batch_nums_def Let_def)
  have d: "int (length ([''..'', ''...''] ! k)) = snd ([(0, 2), (2, 5)] ! k) - fst ([(0, 2), (2, 5)] ! k)"
    if "k < length [(0 :: int, 2 :: int), (2, 5)]" for k
    using that by (cases k) (simp_all add: less_Suc_eq)
  from split_and_load_general [OF s _ _ d] show ?thesis by (simp add: numeral_2_eq_2)
qed

text \<open>The rounding can leave nothing for the last device although every device could have a sample.\<close>

lemma split_input_slice_rounds_up: "split_input_slice 8 [1, 1, 1, 1, 1] = Inl ValueError"
proof -
  have "py_round (8 / 5) = 2" by (simp add: py_round_def floor_divide_of_int_eq [of 8 5, simplified] Let_def)
  then show ?thesis by (simp add: split_input_slice_def batch_nums_def Let_def)
qed

section \<open>Splitting loses nothing\<close>

text \<open>The reference: joining arrays along an axis.\<close>

definition concat_axis :: "nat \<Rightarrow> 'a arr list \<Rightarrow> 'a arr" where
  "concat_axis axis as =
     (let sh = a_shape (hd as); t = trailing axis sh
      in \<lparr> a_shape = sh[axis := sum_list (map (\<lambda>a. a_shape a ! axis) as)],
           a_vals = concat (map (\<lambda>l. concat (map (\<lambda>a. take (a_shape a ! axis * t) (drop (l * (a_shape a ! axis * t)) (a_vals a))) as))
                              [0..<leading axis sh]) \<rparr>)"

lemma arr_size: "axis < length sh \<Longrightarrow> prod_list sh = leading axis sh * (sh ! axis * trailing axis sh)"
  unfolding leading_def trailing_def
  by (subst (1) id_take_nth_drop [of axis sh]) (simp_all add: mult.assoc)

lemma nth_block:
  assumes "\<And>l. l < k \<Longrightarrow> length (f l) = n" "l < k"
  shows "take n (drop (l * n) (concat (map f [0..<k]))) = f l"
  using assms
proof (induction k)
  case (Suc k)
  have len: "length (concat (map f [0..<k])) = k * n"
  proof -
    have "map (length \<circ> f) [0..<k] = replicate k n" using Suc.prems(1) by (intro nth_equalityI) simp_all
    then show ?thesis by (simp add: length_concat sum_list_replicate)
  qed
  show ?case
  proof (cases "l = k")
    case True
    then show ?thesis using len Suc.prems(1) [of k] by simp
  next
    case False
    then have lk: "l < k" using Suc.prems(2) by simp
    then have "Suc l * n \<le> k * n" by (intro mult_le_mono1) simp
    then have "l * n + n \<le> k * n" by simp
    with Suc.IH Suc.prems(1) lk len show ?thesis by (simp add: add.commute)
  qed
qed simp

lemma concat_pieces:
  assumes "c 0 = 0" "\<And>i. i < k \<Longrightarrow> c i \<le> c (Suc i)"
  shows "concat (map (\<lambda>i. take ((c (Suc i) - c i) * t) (drop ((p + c i) * t) xs)) [0..<k]) = take (c k * t) (drop (p * t) xs)"
  using assms(2)
proof (induction k)
  case (Suc k)
  have "c (Suc k) * t = c k * t + (c (Suc k) - c k) * t"
    using Suc.prems [of k] by (simp flip: add_mult_distrib)
  then have "take (c (Suc k) * t) (drop (p * t) xs)
      = take (c k * t) (drop (p * t) xs) @ take ((c (Suc k) - c k) * t) (drop (c k * t) (drop (p * t) xs))"
    by (simp add: take_add)
  with Suc show ?case by (simp add: add_mult_distrib add.commute)
qed (simp add: assms(1))

lemma prod_list_update_trailing:
  "axis < length sh \<Longrightarrow> trailing axis (sh[axis := n]) = trailing axis sh"
  "axis < length sh \<Longrightarrow> leading axis (sh[axis := n]) = leading axis sh"
  by (simp_all add: trailing_def leading_def)

lemma slice_axis_block:
  assumes ok: "arr_ok a" "axis < length (a_shape a)" and be: "b \<le> e" "e \<le> a_shape a ! axis"
    and l: "l < leading axis (a_shape a)"
  defines "m \<equiv> a_shape a ! axis" and "t \<equiv> trailing axis (a_shape a)"
  shows "take ((e - b) * t) (drop (l * ((e - b) * t)) (a_vals (slice_axis axis b e a)))
    = take ((e - b) * t) (drop ((l * m + b) * t) (a_vals a))"
proof -
  have "length (take ((e - b) * t) (drop ((l * m + b) * t) (a_vals a))) = (e - b) * t"
    if "l < leading axis (a_shape a)" for l
  proof -
    have "(l * m + b) * t + (e - b) * t = (l * m + e) * t" using be by (simp flip: add_mult_distrib)
    also have "\<dots> \<le> (Suc l * m) * t" using be by (intro mult_le_mono1) (simp add: m_def)
    also have "\<dots> \<le> leading axis (a_shape a) * (m * t)"
      using that by (simp only: mult.assoc) (intro mult_le_mono1, simp)
    finally show ?thesis using ok arr_size [OF ok(2)] by (simp add: arr_ok_def m_def t_def)
  qed
  from nth_block [OF this l] show ?thesis by (simp add: slice_axis_def Let_def m_def t_def)
qed

lemma axis_slices_join:
  assumes ok: "arr_ok data" "axis < length (a_shape data)" and k: "0 < k" "k * step \<le> a_shape data ! axis"
  shows "concat_axis axis (axis_slices axis k step data) = data"
proof -
  let ?sh = "a_shape data" and ?m = "a_shape data ! axis" and ?t = "trailing axis (a_shape data)"
  define c where "c i = (if i < k then i * step else ?m)" for i
  have mono: "c i \<le> c (Suc i)" if "i < k" for i
  proof -
    have "i * step \<le> ?m" using order_trans [OF mult_le_mono1 k(2), of i] that by simp
    then show ?thesis using that by (auto simp: c_def)
  qed
  have le: "c i \<le> ?m" if "i \<le> k" for i
  proof -
    have "i * step \<le> ?m" using order_trans [OF mult_le_mono1 k(2), of i] that by simp
    then show ?thesis by (auto simp: c_def)
  qed
  have slices: "axis_slices axis k step data = map (\<lambda>i. slice_axis axis (c i) (c (Suc i)) data) [0..<k]"
    unfolding axis_slices_def by (rule map_cong) (auto simp: c_def)
  have size: "a_shape (slice_axis axis b e data) = ?sh[axis := e - b]" for b e by (simp add: slice_axis_def Let_def)
  have hd: "a_shape (hd (map (\<lambda>i. slice_axis axis (c i) (c (Suc i)) data) [0..<k])) = ?sh[axis := c 1 - c 0]"
    using k(1) by (simp add: hd_map size upt_conv_Cons)
  have "sum_list (map (\<lambda>i. c (Suc i) - c i) [0..<j]) = c j" if "j \<le> k" for j
    using that mono
  proof (induction j)
    case (Suc j)
    then show ?case using mono [of j] by simp
  qed (use k in \<open>simp add: c_def\<close>)
  then have sum: "sum_list (map (\<lambda>i. c (Suc i) - c i) [0..<k]) = ?m" by (simp add: c_def)
  have row: "concat (map (\<lambda>i. take ((c (Suc i) - c i) * ?t) (drop (l * ((c (Suc i) - c i) * ?t))
        (a_vals (slice_axis axis (c i) (c (Suc i)) data)))) [0..<k]) = take (?m * ?t) (drop (l * (?m * ?t)) (a_vals data))"
    if l: "l < leading axis ?sh" for l
  proof -
    have "concat (map (\<lambda>i. take ((c (Suc i) - c i) * ?t) (drop (l * ((c (Suc i) - c i) * ?t))
        (a_vals (slice_axis axis (c i) (c (Suc i)) data)))) [0..<k])
      = concat (map (\<lambda>i. take ((c (Suc i) - c i) * ?t) (drop ((l * ?m + c i) * ?t) (a_vals data))) [0..<k])"
      using slice_axis_block [OF ok mono _ l] le by (intro arg_cong [where f = concat] map_cong) auto
    also have "\<dots> = take (c k * ?t) (drop (l * ?m * ?t) (a_vals data))"
      using k by (intro concat_pieces mono) (simp_all add: c_def)
    finally show ?thesis by (simp add: c_def mult.assoc)
  qed
  have vals: "concat (map (\<lambda>l. take (?m * ?t) (drop (l * (?m * ?t)) (a_vals data))) [0..<leading axis ?sh]) = a_vals data"
  proof (cases "?m * ?t = 0")
    case True
    then show ?thesis using ok arr_size [OF ok(2)] by (auto simp: arr_ok_def)
  next
    case False
    then show ?thesis using ok arr_size [OF ok(2)]
      by (subst concat_blocks) (simp_all add: arr_ok_def)
  qed
  have row': "map (\<lambda>l. concat (map (\<lambda>i. take ((c (Suc i) - c i) * ?t) (drop (l * ((c (Suc i) - c i) * ?t))
        (a_vals (slice_axis axis (c i) (c (Suc i)) data)))) [0..<k])) [0..<leading axis ?sh]
      = map (\<lambda>l. take (?m * ?t) (drop (l * (?m * ?t)) (a_vals data))) [0..<leading axis ?sh]"
    using row by simp
  show ?thesis
    unfolding slices concat_axis_def Let_def hd prod_list_update_trailing [OF ok(2)]
    using ok(2) sum by (simp add: size o_def row' vals)
qed

lemma singleton_hd: "length xs = 1 \<Longrightarrow> [hd xs] = xs"
  by (cases xs) auto

fun slices_of :: "'a split_result \<Rightarrow> 'a arr list" where
  "slices_of (SliceList slices) = slices"
| "slices_of (SingleArray a) = [a]"



section \<open>The clipped norm\<close>

lemma sq_norm_scale: "sum_list (map sq_norm (map (map (\<lambda>x. x * c)) xss)) = c\<^sup>2 * sum_list (map sq_norm xss)"
proof -
  have "sq_norm (map (\<lambda>x. x * c) xs) = c\<^sup>2 * sq_norm xs" for xs
    by (induction xs) (simp_all add: sq_norm_def power2_eq_square algebra_simps)
  then show ?thesis by (induction xss) (simp_all add: algebra_simps)
qed

lemma sq_norm_nonneg: "0 \<le> sum_list (map sq_norm xss)"
proof -
  have "0 \<le> sq_norm xs" for xs by (induction xs) (simp_all add: sq_norm_def)
  then show ?thesis by (induction xss) simp_all
qed



end
