(* ===== verification/Scopes.thy ===== *)
theory Scopes
  imports Py_Text "HOL-Library.AList"
begin

text \<open>
  Automatic names and attributes: \<open>NameManager\<close> and \<open>Prefix\<close> of \<open>name.py\<close>, \<open>AttrScope\<close> of \<open>attribute.py\<close>.

  Both classes keep a thread's current object and replace it for the time of a \<open>with\<close> block.  Objects are
  numbered; \<open>scoped\<close> is the store of one thread, with its current object if there is one.  The \<open>with\<close> statement itself is
  \<open>run_scoped\<close>: it leaves the block also when the body raises.  The locale \<open>context_manager\<close> is the contract of
  \<open>__enter__\<close> and \<open>__exit__\<close>, under which nested blocks restore the current object; both classes interpret it.
\<close>

section \<open>Objects and the current one\<close>

record 'm scoped =
  objects :: "nat \<Rightarrow> 'm"
  next_object :: nat
  current :: "nat option"

section \<open>Name managers\<close>

record name_manager =
  nm_counter :: "string \<rightharpoonup> nat"
  nm_old :: "nat option"
  nm_prefix :: "string option"

definition NameManager_init :: name_manager where
  "NameManager_init = \<lparr> nm_counter = Map.empty, nm_old = None, nm_prefix = None \<rparr>"

definition Prefix_init :: "string \<Rightarrow> name_manager" where
  "Prefix_init prefix = NameManager_init\<lparr> nm_prefix := Some prefix \<rparr>"

definition NameManager_base_get :: "string option \<Rightarrow> string \<Rightarrow> name_manager \<Rightarrow> name_manager \<times> string" where
  "NameManager_base_get name hint m =
     (case name of
        Some (c # cs) \<Rightarrow> (m, c # cs)
      | _ \<Rightarrow>
          (let n = (case nm_counter m hint of None \<Rightarrow> 0 | Some n \<Rightarrow> n)
           in (m\<lparr> nm_counter := (nm_counter m)(hint \<mapsto> n + 1) \<rparr>, hint @ str_of_nat n)))"

definition NameManager_get :: "string option \<Rightarrow> string \<Rightarrow> name_manager \<Rightarrow> name_manager \<times> string" where
  "NameManager_get name hint m =
     (case NameManager_base_get name hint m of
        (m', full) \<Rightarrow> (m', (case nm_prefix m of None \<Rightarrow> full | Some p \<Rightarrow> p @ full)))"

text \<open>The default object of a thread that has none yet.\<close>

definition ensure_current :: "'m \<Rightarrow> 'm scoped \<Rightarrow> 'm scoped" where
  "ensure_current fresh s =
     (case current s of
        Some _ \<Rightarrow> s
      | None \<Rightarrow> s\<lparr> objects := (objects s)(next_object s := fresh), current := Some (next_object s),
                   next_object := next_object s + 1 \<rparr>)"

definition NameManager_enter :: "name_manager scoped \<Rightarrow> nat \<Rightarrow> name_manager scoped" where
  "NameManager_enter s i =
     (let s = ensure_current NameManager_init s
      in s\<lparr> objects := (objects s)(i := (objects s i)\<lparr> nm_old := current s \<rparr>), current := Some i \<rparr>)"

definition NameManager_exit :: "name_manager scoped \<Rightarrow> nat \<Rightarrow> (name_manager scoped, unit) outcome" where
  "NameManager_exit s i =
     (case nm_old (objects s i) of
        None \<Rightarrow> (s, Inl AssertionError)
      | Some old \<Rightarrow> (s\<lparr> current := Some old \<rparr>, Inr ()))"

section \<open>Attribute scopes\<close>

record attr_scope =
  as_attr :: "(string \<times> string) list"
  as_old :: "nat option"

datatype attr_value = Text string | Other

definition AttrScope_init :: "(string \<times> attr_value) list \<Rightarrow> attr_scope result" where
  "AttrScope_init kwargs =
     (if \<exists>v \<in> set (map snd kwargs). v = Other then Inl ValueError
      else Inr \<lparr> as_attr = map (\<lambda>(k, v). (k, case v of Text t \<Rightarrow> t)) kwargs, as_old = None \<rparr>)"

definition dict_update :: "('k \<times> 'v) list \<Rightarrow> ('k \<times> 'v) list \<Rightarrow> ('k \<times> 'v) list" where
  "dict_update d e = foldl (\<lambda>d kv. AList.update (fst kv) (snd kv) d) d e"

definition AttrScope_get :: "attr_scope \<Rightarrow> (string \<times> string) list option \<Rightarrow> (string \<times> string) list" where
  "AttrScope_get a attr =
     (let given = (case attr of None \<Rightarrow> [] | Some d \<Rightarrow> d)
      in if as_attr a \<noteq> [] then (if given \<noteq> [] then dict_update (as_attr a) given else as_attr a) else given)"

definition AttrScope_enter :: "attr_scope scoped \<Rightarrow> nat \<Rightarrow> attr_scope scoped" where
  "AttrScope_enter s i =
     (let s = ensure_current \<lparr> as_attr = [], as_old = None \<rparr> s;
          attr = dict_update (as_attr (objects s (the (current s)))) (as_attr (objects s i))
      in s\<lparr> objects := (objects s)(i := \<lparr> as_attr = attr, as_old = current s \<rparr>), current := Some i \<rparr>)"

definition AttrScope_exit :: "attr_scope scoped \<Rightarrow> nat \<Rightarrow> (attr_scope scoped, unit) outcome" where
  "AttrScope_exit s i =
     (case as_old (objects s i) of
        None \<Rightarrow> (s, Inl AssertionError)
      | Some old \<Rightarrow> (s\<lparr> current := Some old \<rparr>, Inr ()))"

section \<open>Nested blocks\<close>

datatype 'o scoped_block = Do 'o | With nat "'o scoped_block list"

fun run_scoped ::
  "('s \<Rightarrow> nat \<Rightarrow> 's) \<Rightarrow> ('s \<Rightarrow> nat \<Rightarrow> ('s, unit) outcome) \<Rightarrow> ('o \<Rightarrow> 's \<Rightarrow> ('s, unit) outcome) \<Rightarrow>
   'o scoped_block \<Rightarrow> 's \<Rightarrow> ('s, unit) outcome"
  and run_all ::
  "('s \<Rightarrow> nat \<Rightarrow> 's) \<Rightarrow> ('s \<Rightarrow> nat \<Rightarrow> ('s, unit) outcome) \<Rightarrow> ('o \<Rightarrow> 's \<Rightarrow> ('s, unit) outcome) \<Rightarrow>
   'o scoped_block list \<Rightarrow> 's \<Rightarrow> ('s, unit) outcome" where
  "run_scoped ent lea act (Do op) s = act op s"
| "run_scoped ent lea act (With i body) s =
     (case run_all ent lea act body (ent s i) of
        (s1, r) \<Rightarrow> (case lea s1 i of (s2, Inl e) \<Rightarrow> (s2, Inl e) | (s2, Inr _) \<Rightarrow> (s2, r)))"
| "run_all ent lea act [] s = (s, Inr ())"
| "run_all ent lea act (b # bs) s = sbind (run_scoped ent lea act b s) (\<lambda>s _. run_all ent lea act bs s)"

fun entered :: "'o scoped_block \<Rightarrow> nat set" where
  "entered (Do op) = {}"
| "entered (With i body) = insert i (\<Union>b \<in> set body. entered b)"

text \<open>No object is entered again inside its own block.\<close>

fun not_reentered :: "'o scoped_block \<Rightarrow> bool" where
  "not_reentered (Do op) = True"
| "not_reentered (With i body) \<longleftrightarrow> i \<notin> (\<Union>b \<in> set body. entered b) \<and> (\<forall>b \<in> set body. not_reentered b)"

locale context_manager =
  fixes ent :: "'m scoped \<Rightarrow> nat \<Rightarrow> 'm scoped"
    and lea :: "'m scoped \<Rightarrow> nat \<Rightarrow> ('m scoped, unit) outcome"
    and saved :: "'m \<Rightarrow> nat option"
  assumes enter_current: "current (ent s i) = Some i"
    and enter_saved: "current s = Some c \<Longrightarrow> saved (objects (ent s i) i) = Some c"
    and enter_other: "current s = Some c \<Longrightarrow> j \<noteq> i \<Longrightarrow> saved (objects (ent s i) j) = saved (objects s j)"
    and leave: "saved (objects s i) = Some c \<Longrightarrow> lea s i = (s\<lparr> current := Some c \<rparr>, Inr ())"
begin

definition keeps :: "('o \<Rightarrow> 'm scoped \<Rightarrow> ('m scoped, unit) outcome) \<Rightarrow> bool" where
  "keeps act \<longleftrightarrow> (\<forall>op s. current (fst (act op s)) = current s
     \<and> (\<forall>j. saved (objects (fst (act op s)) j) = saved (objects s j)))"

definition restored_by :: "('m scoped \<Rightarrow> ('m scoped, unit) outcome) \<Rightarrow> nat set \<Rightarrow> bool" where
  "restored_by run used \<longleftrightarrow> (\<forall>s c. current s = Some c \<longrightarrow> current (fst (run s)) = Some c
     \<and> (\<forall>j. j \<notin> used \<longrightarrow> saved (objects (fst (run s)) j) = saved (objects s j)))"

lemma run_all_restores:
  "(\<And>b. b \<in> set bs \<Longrightarrow> restored_by (run_scoped ent lea act b) (entered b)) \<Longrightarrow>
   restored_by (run_all ent lea act bs) (\<Union>b \<in> set bs. entered b)"
proof (induction bs)
  case Nil
  then show ?case by (simp add: restored_by_def)
next
  case (Cons b bs)
  then have b: "restored_by (run_scoped ent lea act b) (entered b)"
    and bs: "restored_by (run_all ent lea act bs) (\<Union>b \<in> set bs. entered b)" by simp_all
  show ?case unfolding restored_by_def
  proof (intro allI impI)
    fix s :: "'m scoped" and c assume c: "current s = Some c"
    obtain s1 r where s1: "run_scoped ent lea act b s = (s1, r)" by fastforce
    with b c have "current s1 = Some c" "\<And>j. j \<notin> entered b \<Longrightarrow> saved (objects s1 j) = saved (objects s j)"
      unfolding restored_by_def by (metis fst_conv)+
    then show "current (fst (run_all ent lea act (b # bs) s)) = Some c
      \<and> (\<forall>j. j \<notin> (\<Union>b \<in> set (b # bs). entered b) \<longrightarrow> saved (objects (fst (run_all ent lea act (b # bs) s)) j) = saved (objects s j))"
      using bs s1 unfolding restored_by_def by (cases r) auto
  qed
qed

lemma leave_after:
  assumes "restored_by (run_all ent lea act body) used" "i \<notin> used" "current s = Some c"
    and "run_all ent lea act body (ent s i) = (s1, r)"
  shows "run_scoped ent lea act (With i body) s = (s1\<lparr> current := Some c \<rparr>, r)"
proof -
  from assms(1,2,4) have "saved (objects s1 i) = saved (objects (ent s i) i)"
    unfolding restored_by_def by (metis enter_current fst_conv)
  with enter_saved [OF assms(3)] have "lea s1 i = (s1\<lparr> current := Some c \<rparr>, Inr ())" by (simp add: leave)
  with assms(4) show ?thesis by simp
qed

lemma run_restores:
  assumes "keeps act" "not_reentered b"
  shows "restored_by (run_scoped ent lea act b) (entered b)"
  using assms(2)
proof (induction b)
  case (Do op)
  then show ?case using assms(1) by (simp add: restored_by_def keeps_def)
next
  case (With i body)
  then have body: "restored_by (run_all ent lea act body) (\<Union>b \<in> set body. entered b)"
    by (intro run_all_restores) simp
  show ?case unfolding restored_by_def
  proof (intro allI impI)
    fix s :: "'m scoped" and c assume c: "current s = Some c"
    obtain s1 r where s1: "run_all ent lea act body (ent s i) = (s1, r)" by fastforce
    have "saved (objects s1 j) = saved (objects s j)" if "j \<notin> insert i (\<Union>b \<in> set body. entered b)" for j
      using body s1 that enter_current enter_other [OF c, of j i] unfolding restored_by_def by (metis fst_conv insertCI)
    then show "current (fst (run_scoped ent lea act (With i body) s)) = Some c
      \<and> (\<forall>j. j \<notin> entered (With i body) \<longrightarrow> saved (objects (fst (run_scoped ent lea act (With i body) s)) j) = saved (objects s j))"
      using leave_after [OF body _ c s1] With.prems by simp
  qed
qed

lemma with_block:
  assumes "keeps act" "not_reentered (With i body)" "current s = Some c"
  shows "current (fst (run_scoped ent lea act (With i body) s)) = Some c
    \<and> snd (run_scoped ent lea act (With i body) s) = snd (run_all ent lea act body (ent s i))"
proof -
  have "restored_by (run_all ent lea act body) (\<Union>b \<in> set body. entered b)"
    using assms(1,2) by (intro run_all_restores run_restores) simp_all
  from leave_after [OF this _ assms(3)] assms(2) show ?thesis by (cases "run_all ent lea act body (ent s i)") simp
qed

end

interpretation names: context_manager NameManager_enter NameManager_exit nm_old
  by unfold_locales (auto simp: NameManager_enter_def NameManager_exit_def ensure_current_def Let_def)

interpretation attrs: context_manager AttrScope_enter AttrScope_exit as_old
  by unfold_locales (auto simp: AttrScope_enter_def AttrScope_exit_def ensure_current_def Let_def)

text \<open>What happens inside the blocks: names and attributes are asked for, and exceptions are raised.\<close>

datatype scope_op = GetName "string option" string | GetAttr "(string \<times> string) list option" | Raise exn

fun name_act :: "scope_op \<Rightarrow> name_manager scoped \<Rightarrow> (name_manager scoped, unit) outcome" where
  "name_act (GetName name hint) s =
     (let i = the (current s)
      in (s\<lparr> objects := (objects s)(i := fst (NameManager_get name hint (objects s i))) \<rparr>, Inr ()))"
| "name_act (GetAttr attr) s = (s, Inr ())"
| "name_act (Raise e) s = (s, Inl e)"

fun attr_act :: "scope_op \<Rightarrow> attr_scope scoped \<Rightarrow> (attr_scope scoped, unit) outcome" where
  "attr_act (Raise e) s = (s, Inl e)"
| "attr_act op s = (s, Inr ())"

lemma NameManager_get_old: "nm_old (fst (NameManager_get name hint m)) = nm_old m"
  by (simp add: NameManager_get_def NameManager_base_get_def Let_def split: option.split list.split)

lemma name_act_keeps: "names.keeps name_act"
  unfolding names.keeps_def
proof (intro allI)
  fix op s
  show "current (fst (name_act op s)) = current s \<and> (\<forall>j. nm_old (objects (fst (name_act op s)) j) = nm_old (objects s j))"
    by (cases op) (simp_all add: Let_def NameManager_get_old)
qed

lemma attr_act_keeps: "attrs.keeps attr_act"
  unfolding attrs.keeps_def
proof (intro allI)
  fix op s
  show "current (fst (attr_act op s)) = current s \<and> (\<forall>j. as_old (objects (fst (attr_act op s)) j) = as_old (objects s j))"
    by (cases op) simp_all
qed

text \<open>C19. A \<open>with\<close> block of a name manager or an attribute scope, with further blocks nested in it and
  whether or not its body raises, ends with the object current that was current before it, and with the
  outcome of its body, provided that no object is entered again inside its own block.\<close>

theorem with_blocks_restore:
  assumes "not_reentered (With i body)" "current s = Some c" "current t = Some d"
  shows "current (fst (run_scoped NameManager_enter NameManager_exit name_act (With i body) s)) = Some c
    \<and> snd (run_scoped NameManager_enter NameManager_exit name_act (With i body) s)
       = snd (run_all NameManager_enter NameManager_exit name_act body (NameManager_enter s i))
    \<and> current (fst (run_scoped AttrScope_enter AttrScope_exit attr_act (With i body) t)) = Some d
    \<and> snd (run_scoped AttrScope_enter AttrScope_exit attr_act (With i body) t)
       = snd (run_all AttrScope_enter AttrScope_exit attr_act body (AttrScope_enter t i))"
  using names.with_block [OF name_act_keeps assms(1,2)] attrs.with_block [OF attr_act_keeps assms(1,3)] by blast

theorem with_blocks_restore_witness:
  "let s = \<lparr> objects = (\<lambda>_. NameManager_init), next_object = 3, current = Some 0 \<rparr>;
       t = \<lparr> objects = (\<lambda>_. \<lparr> as_attr = [], as_old = None \<rparr>), next_object = 3, current = Some 0 \<rparr>;
       b = With 1 [With 2 [Do (GetName None ''fc''), Do (Raise KeyError)]]
   in current (fst (run_scoped NameManager_enter NameManager_exit name_act b s)) = Some 0
      \<and> current (fst (run_scoped AttrScope_enter AttrScope_exit attr_act b t)) = Some 0"
  unfolding Let_def
  using with_blocks_restore [of 1 "[With 2 [Do (GetName None ''fc''), Do (Raise KeyError)]]"
      "\<lparr> objects = (\<lambda>_. NameManager_init), next_object = 3, current = Some 0 \<rparr>" 0
      "\<lparr> objects = (\<lambda>_. \<lparr> as_attr = [], as_old = None \<rparr>), next_object = 3, current = Some 0 \<rparr>" 0]
  by simp

text \<open>Entered inside its own block, a manager forgets what was current before and stays current.\<close>

lemma reentered_stays:
  assumes "current s = Some c"
  shows "current (fst (run_scoped NameManager_enter NameManager_exit name_act (With i [With i []]) s)) = Some i"
  using assms by (simp add: NameManager_enter_def NameManager_exit_def ensure_current_def Let_def)

section \<open>Unique names\<close>

declare str_of_nat.simps [simp del]

text \<open>The names for hints given one after another, without a name of the user's own.\<close>

fun auto_names :: "name_manager \<Rightarrow> string list \<Rightarrow> string list" where
  "auto_names m [] = []"
| "auto_names m (hint # hints) = (case NameManager_get None hint m of (m', name) \<Rightarrow> name # auto_names m' hints)"

definition no_digit_end :: "string \<Rightarrow> bool" where
  "no_digit_end h \<longleftrightarrow> h = [] \<or> \<not> digit_char (last h)"

lemma digit_char_code: "digit_char c \<Longrightarrow> (of_char c :: nat) < 58"
  by (auto simp: digit_char_def)

lemma takeWhile_digits:
  assumes "no_digit_end h"
  shows "takeWhile digit_char (rev (h @ str_of_nat n)) = rev (str_of_nat n)"
proof -
  have "takeWhile digit_char (rev h) = []" using assms by (cases h rule: rev_cases) (simp_all add: no_digit_end_def)
  then show ?thesis
    using str_of_nat_digits [of n] takeWhile_append2 [of "rev (str_of_nat n)" digit_char "rev h"] by simp
qed

lemma hint_number_inj:
  assumes "no_digit_end h" "no_digit_end h'" "h @ str_of_nat n = h' @ str_of_nat n'"
  shows "h = h' \<and> n = n'"
proof -
  have "rev (str_of_nat n) = rev (str_of_nat n')"
    using takeWhile_digits [OF assms(1), of n] takeWhile_digits [OF assms(2), of n'] assms(3) by simp
  then have "parse_digits 0 (str_of_nat n) = parse_digits 0 (str_of_nat n')" by simp
  then have "n = n'" by (simp add: parse_str_of_nat)
  then show ?thesis using assms(3) by simp
qed

definition name_count :: "name_manager \<Rightarrow> string \<Rightarrow> nat" where
  "name_count m h = (case nm_counter m h of None \<Rightarrow> 0 | Some n \<Rightarrow> n)"

lemma auto_names_numbers:
  "x \<in> set (auto_names m hints) \<Longrightarrow>
   \<exists>h n. h \<in> set hints \<and> name_count m h \<le> n \<and> x = (case nm_prefix m of None \<Rightarrow> [] | Some p \<Rightarrow> p) @ h @ str_of_nat n"
proof (induction hints arbitrary: m)
  case (Cons h hints)
  let ?m = "m\<lparr> nm_counter := (nm_counter m)(h \<mapsto> name_count m h + 1) \<rparr>"
  let ?p = "case nm_prefix m of None \<Rightarrow> [] | Some p \<Rightarrow> p"
  have get: "NameManager_get None h m = (?m, ?p @ h @ str_of_nat (name_count m h))"
    by (simp add: NameManager_get_def NameManager_base_get_def Let_def name_count_def split: option.split)
  have le: "name_count m h' \<le> name_count ?m h'" for h' by (simp add: name_count_def)
  from Cons.prems get consider "x = ?p @ h @ str_of_nat (name_count m h)" | "x \<in> set (auto_names ?m hints)" by auto
  then show ?case
  proof cases
    case 2
    from Cons.IH [OF this] obtain h' n where "h' \<in> set hints" "name_count ?m h' \<le> n" "x = ?p @ h' @ str_of_nat n" by auto
    moreover from this(2) have "name_count m h' \<le> n" using le order_trans by blast
    ultimately show ?thesis by (intro exI [of _ h'] exI [of _ n]) simp
  qed auto
qed simp

text \<open>C40. The names a manager, with or without a prefix, makes up are all different, provided that no hint
  ends in a digit.\<close>

theorem NameManager_unique:
  assumes "\<forall>h \<in> set hints. no_digit_end h"
  shows "distinct (auto_names m hints)"
  using assms
proof (induction hints arbitrary: m)
  case (Cons h hints)
  let ?m = "m\<lparr> nm_counter := (nm_counter m)(h \<mapsto> name_count m h + 1) \<rparr>"
  let ?p = "case nm_prefix m of None \<Rightarrow> [] | Some p \<Rightarrow> p"
  have get: "NameManager_get None h m = (?m, ?p @ h @ str_of_nat (name_count m h))"
    by (simp add: NameManager_get_def NameManager_base_get_def Let_def name_count_def split: option.split)
  have "?p @ h @ str_of_nat (name_count m h) \<notin> set (auto_names ?m hints)"
  proof
    assume "?p @ h @ str_of_nat (name_count m h) \<in> set (auto_names ?m hints)"
    from auto_names_numbers [OF this] obtain h' n where h': "h' \<in> set hints" "name_count ?m h' \<le> n"
      "h @ str_of_nat (name_count m h) = h' @ str_of_nat n" by auto
    with hint_number_inj [OF _ _ h'(3)] Cons.prems have "h = h'" "n = name_count m h" by auto
    with h'(2) show False by (simp add: name_count_def)
  qed
  with Cons get show ?case by simp
qed simp

theorem NameManager_unique_witness:
  "distinct (auto_names (Prefix_init ''net_'') [''conv'', ''fc'', ''conv''])"
  by (rule NameManager_unique) (auto simp: no_digit_end_def dest!: digit_char_code)

text \<open>With a hint that ends in a digit two names can be equal.\<close>

lemma NameManager_collision:
  "\<not> distinct (auto_names (NameManager_init\<lparr> nm_counter := [''conv'' \<mapsto> 10] \<rparr>) [''conv'', ''conv1''])"
proof -
  have "str_of_nat 10 = ''10''" "str_of_nat 0 = ''0''" by code_simp+
  then show ?thesis
    by (simp add: NameManager_get_def NameManager_base_get_def NameManager_init_def Let_def)
qed

section \<open>Attributes of nested scopes\<close>

lemma map_of_dict_update: "distinct (map fst e) \<Longrightarrow> map_of (dict_update d e) = map_of d ++ map_of e"
  unfolding dict_update_def
proof (induction e arbitrary: d)
  case (Cons kv e)
  have "map_of e (fst kv) = None" using Cons.prems by (simp add: map_of_eq_None_iff)
  then have "(map_of d)(fst kv \<mapsto> snd kv) ++ map_of e = map_of d ++ (map_of e)(fst kv \<mapsto> snd kv)"
    by (auto simp: map_add_def fun_eq_iff split: option.split)
  with Cons show ?case by (cases kv) (simp add: update_conv' del: fun_upd_apply)
qed simp

lemma AttrScope_get_merge:
  assumes "\<And>d. attr = Some d \<Longrightarrow> distinct (map fst d)"
  shows "map_of (AttrScope_get a attr) = map_of (as_attr a) ++ (case attr of None \<Rightarrow> Map.empty | Some d \<Rightarrow> map_of d)"
  using assms by (auto simp: AttrScope_get_def Let_def map_of_dict_update split: option.split)

text \<open>Inside nested attribute scopes a symbol gets the attributes of all of them together with its own; an
  inner scope overrides the outer ones, and the symbol's own attributes override all scopes.\<close>

theorem AttrScope_nested:
  assumes "current s = Some c" "distinct (c # is)" "\<forall>i \<in> set is. distinct (map fst (as_attr (objects s i)))"
    and "\<And>d. attr = Some d \<Longrightarrow> distinct (map fst d)"
  defines "t \<equiv> foldl AttrScope_enter s is"
  shows "map_of (AttrScope_get (objects t (the (current t))) attr)
    = foldl (++) (map_of (as_attr (objects s c))) (map (\<lambda>i. map_of (as_attr (objects s i))) is)
        ++ (case attr of None \<Rightarrow> Map.empty | Some d \<Rightarrow> map_of d)"
proof -
  have "map_of (as_attr (objects (foldl AttrScope_enter s is) (the (current (foldl AttrScope_enter s is)))))
      = foldl (++) (map_of (as_attr (objects s c))) (map (\<lambda>i. map_of (as_attr (objects s i))) is)"
    using assms(1-3)
  proof (induction "is" arbitrary: s c)
    case (Cons i "is")
    let ?s = "AttrScope_enter s i"
    have s: "current ?s = Some i" "map_of (as_attr (objects ?s i)) = map_of (as_attr (objects s c)) ++ map_of (as_attr (objects s i))"
      "\<And>j. j \<noteq> i \<Longrightarrow> objects ?s j = objects s j"
      using Cons.prems by (simp_all add: AttrScope_enter_def ensure_current_def Let_def map_of_dict_update)
    have other: "objects ?s j = objects s j" if "j \<in> set is" for j
      using s(3) [of j] that Cons.prems(2) by auto
    then have own: "map (\<lambda>j. map_of (as_attr (objects ?s j))) is = map (\<lambda>j. map_of (as_attr (objects s j))) is" by simp
    have "distinct (i # is)" "\<forall>j \<in> set is. distinct (map fst (as_attr (objects ?s j)))"
      using other Cons.prems(2,3) by auto
    from Cons.IH [OF s(1) this] show ?case unfolding own s(2) by simp
  qed simp
  then show ?thesis unfolding t_def using AttrScope_get_merge [OF assms(4)] by simp
qed

theorem AttrScope_nested_witness:
  "let objs = (\<lambda>_. \<lparr> as_attr = [], as_old = None \<rparr>)
         (1 := \<lparr> as_attr = [(''lr'', ''1''), (''ctx'', ''a'')], as_old = None \<rparr>, 2 := \<lparr> as_attr = [(''ctx'', ''b'')], as_old = None \<rparr>);
       t = foldl AttrScope_enter \<lparr> objects = objs, next_object = 3, current = Some 0 \<rparr> [1, 2]
   in map_of (AttrScope_get (objects t (the (current t))) (Some [(''lr'', ''7'')])) = [''lr'' \<mapsto> ''7'', ''ctx'' \<mapsto> ''b'']"
  unfolding Let_def
  by (subst AttrScope_nested [where c = 0]) (auto simp: fun_eq_iff map_add_def)

text \<open>\<open>__enter__\<close> stores the merged attributes in the scope itself, so a scope object used a second time still
  carries the attributes of the scope around its first use, and they override those around the second.\<close>

lemma AttrScope_reused:
  assumes "current s = Some c" "i \<noteq> c" "distinct (map fst (as_attr (objects s i)))"
  shows "map_of (as_attr (objects (fst (AttrScope_exit (AttrScope_enter s i) i)) i))
    = map_of (as_attr (objects s c)) ++ map_of (as_attr (objects s i))"
  using assms by (simp add: AttrScope_enter_def AttrScope_exit_def ensure_current_def Let_def map_of_dict_update)

end
