(* ===== verification/Dense_Arrays.thy ===== *)
theory Dense_Arrays
  imports Nd_Arrays NDArray_Index
begin

text \<open>
  Dense arrays with a shape and an element type: the methods of \<open>ndarray/ndarray.py\<close> that parameters and weights
  rest on (broadcasting assignment, slices of rows, \<open>concatenate\<close>) and the native \<open>NDArray::Reshape\<close> with its codes for
  dimensions (\<open>InferReshapeShape\<close> of \<open>src/operator/tensor/matrix_op-inl.h\<close>).  Sizes are 64 bit numbers and wrap.
\<close>

section \<open>Arrays\<close>

record darray =
  t_shape :: "nat list"
  t_dtype :: string
  t_vals :: "real list"

definition nd_zeros :: "nat list \<Rightarrow> string \<Rightarrow> darray" where
  "nd_zeros sh dt = \<lparr> t_shape = sh, t_dtype = dt, t_vals = replicate (prod_list sh) 0 \<rparr>"

definition astype :: "(string \<Rightarrow> real \<Rightarrow> real) \<Rightarrow> string \<Rightarrow> darray \<Rightarrow> darray" where
  "astype cast dt x = x\<lparr> t_dtype := dt, t_vals := map (cast dt) (t_vals x) \<rparr>"

text \<open>\<open>NDArray.broadcast_to\<close>, and \<open>arr[:] = data\<close>, which broadcasts and keeps the element type of the array.\<close>

definition broadcast_to :: "nat list \<Rightarrow> darray \<Rightarrow> darray result" where
  "broadcast_to sh x =
     (let cur = replicate (length sh - length (t_shape x)) 1 @ t_shape x
      in if length sh < length (t_shape x) then Inl ValueError
         else if \<not> list_all2 (\<lambda>c n. c = n \<or> c = 1) cur sh then Inl ValueError
         else Inr (x\<lparr> t_shape := sh,
                      t_vals := map (\<lambda>k. t_vals x ! ravel_bcast cur (unravel sh k)) [0..<prod_list sh] \<rparr>))"

definition assign :: "(string \<Rightarrow> real \<Rightarrow> real) \<Rightarrow> darray \<Rightarrow> darray \<Rightarrow> darray result" where
  "assign cast data arr =
     rbind (if t_shape data = t_shape arr then Inr data else broadcast_to (t_shape arr) data) (\<lambda>d.
       Inr (astype cast (t_dtype arr) d))"

definition darray_ok :: "darray \<Rightarrow> bool" where
  "darray_ok x \<longleftrightarrow> t_shape x \<noteq> [] \<and> length (t_vals x) = prod_list (t_shape x)"

section \<open>Rows\<close>

definition row_range :: "int \<Rightarrow> int \<Rightarrow> nat \<Rightarrow> (nat \<times> nat) result" where
  "row_range start stop n =
     rbind (get_index_range (Some start) (Some stop) (int n) (Some 1)) (\<lambda>(a, b, _).
       if a \<le> b then Inr (nat a, nat b) else Inl MXNetError)"

definition row_size :: "darray \<Rightarrow> nat" where
  "row_size x = prod_list (tl (t_shape x))"

definition slice_rows :: "int \<Rightarrow> int \<Rightarrow> darray \<Rightarrow> darray result" where
  "slice_rows start stop x =
     rbind (row_range start stop (hd (t_shape x))) (\<lambda>(a, b).
       Inr (x\<lparr> t_shape := (b - a) # tl (t_shape x),
               t_vals := take ((b - a) * row_size x) (drop (a * row_size x) (t_vals x)) \<rparr>))"

definition concatenate :: "darray list \<Rightarrow> darray result" where
  "concatenate arrays =
     (case arrays of
        [] \<Rightarrow> Inl AssertionError
      | a # rest \<Rightarrow>
          if \<exists>x \<in> set rest. tl (t_shape x) \<noteq> tl (t_shape a) \<or> t_dtype x \<noteq> t_dtype a then Inl AssertionError
          else Inr \<lparr> t_shape = sum_list (map (\<lambda>x. hd (t_shape x)) arrays) # tl (t_shape a), t_dtype = t_dtype a,
                     t_vals = concat (map t_vals arrays) \<rparr>)"

section \<open>Reshaping\<close>

definition usize :: "int list \<Rightarrow> int" where
  "usize dims = prod_list dims mod 2 ^ 64"

definition to_int64 :: "int \<Rightarrow> int" where
  "to_int64 x = (x + 2 ^ 63) mod 2 ^ 64 - 2 ^ 63"

text \<open>The division of an unsigned by a signed number, which becomes unsigned.\<close>

definition size_div :: "int \<Rightarrow> int \<Rightarrow> int result" where
  "size_div a b = (if b mod 2 ^ 64 = 0 then Inl NativeFault else Inr (to_int64 (a div (b mod 2 ^ 64))))"

definition split_dim :: "nat \<Rightarrow> int \<Rightarrow> int \<Rightarrow> (int \<times> int) result" where
  "split_dim d0 d1 d2 =
     (if d1 = -1 \<and> d2 = -1 then Inl MXNetError
      else
        rbind (if d1 = -1 then size_div (int d0) d2 else Inr d1) (\<lambda>d1'.
        rbind (if d2 = -1 then size_div (int d0) d1' else Inr d2) (\<lambda>d2'.
          if d1' * d2' = int d0 \<or> d0 = 0 then Inr (d1', d2') else Inl MXNetError)))"

text \<open>The loop over the proposed dimensions; \<open>src\<close> is what is left of the source shape, \<open>i\<close> the position among the
  proposed dimensions, which is also what is kept of a dimension to infer.\<close>

fun reshape_loop :: "int list \<Rightarrow> nat \<Rightarrow> nat list \<Rightarrow> nat option \<Rightarrow> int list \<Rightarrow> (nat option \<times> int list) result" where
  "reshape_loop [] i src hole tmp = Inr (hole, tmp)"
| "reshape_loop (d # ds) i src hole tmp =
     (if d = 0 then
        (case src of [] \<Rightarrow> Inl MXNetError | s # src' \<Rightarrow> reshape_loop ds (i + 1) src' hole (tmp @ [int s]))
      else if d = -1 then
        (if hole \<noteq> None then Inl MXNetError else reshape_loop ds (i + 1) (tl src) (Some i) (tmp @ [1]))
      else if d = -2 then reshape_loop ds (i + 1) [] hole (tmp @ map int src)
      else if d = -3 then
        (case src of s1 # s2 # src' \<Rightarrow> reshape_loop ds (i + 1) src' hole (tmp @ [int (s1 * s2)]) | _ \<Rightarrow> Inl MXNetError)
      else if d = -4 then
        (case ds of
           d1 # d2 # ds' \<Rightarrow>
             (case src of
                [] \<Rightarrow> Inl MXNetError
              | s # src' \<Rightarrow>
                  rbind (split_dim s d1 d2) (\<lambda>(e1, e2). reshape_loop ds' (i + 3) src' hole (tmp @ [e1, e2])))
         | _ \<Rightarrow> Inl MXNetError)
      else reshape_loop ds (i + 1) (tl src) hole (tmp @ [d]))"

definition infer_reshape_shape :: "int list \<Rightarrow> nat list \<Rightarrow> int list result" where
  "infer_reshape_shape dims dshape =
     rbind (reshape_loop dims 0 dshape None []) (\<lambda>(hole, tmp).
       case hole of
         None \<Rightarrow> Inr tmp
       | Some k \<Rightarrow>
           rbind (if 0 < usize (map int dshape) then size_div (usize (map int dshape)) (prod_list tmp) else Inr 0) (\<lambda>q.
             if k < length tmp then Inr (tmp[k := q]) else Inl NativeFault))"

text \<open>The checks of \<open>MXNDArrayReshape64\<close> and \<open>NDArray::Reshape\<close>; an array with a negative dimension is of no use.\<close>

definition reshape_shape :: "int list \<Rightarrow> nat list \<Rightarrow> nat list result" where
  "reshape_shape dims dshape =
     (if usize (map int dshape) = 0 then Inl MXNetError
      else rbind (infer_reshape_shape dims dshape) (\<lambda>sh.
             if usize (map int dshape) < usize sh then Inl MXNetError
             else if \<exists>d \<in> set sh. d < 0 then Inl NativeFault
             else Inr (map nat sh)))"

definition nd_reshape :: "int list \<Rightarrow> darray \<Rightarrow> darray result" where
  "nd_reshape dims x =
     rbind (reshape_shape dims (t_shape x)) (\<lambda>sh.
       Inr (x\<lparr> t_shape := sh, t_vals := take (prod_list sh) (t_vals x) \<rparr>))"

lemma reshape_loop_pos:
  "\<forall>d \<in> set ds. 0 < d \<Longrightarrow> reshape_loop (ds @ es) i src hole tmp = reshape_loop es (i + length ds) (drop (length ds) src) hole (tmp @ ds)"
  by (induction ds arbitrary: i src tmp) (simp_all add: drop_Suc)

lemma to_int64_small: "0 \<le> x \<Longrightarrow> x < 2 ^ 63 \<Longrightarrow> to_int64 x = x"
  by (simp add: to_int64_def)

lemma prod_list_pos: "\<forall>d \<in> set (ds :: nat list). 0 < d \<Longrightarrow> 0 < prod_list ds"
  by (induction ds) simp_all

lemma prod_list_int: "prod_list (map int ds) = int (prod_list ds)"
  by (induction ds) simp_all

lemma reshape_shape_pos:
  assumes "\<forall>d \<in> set ds. 0 < d" "prod_list ds = prod_list sh" "0 < prod_list sh" "prod_list sh < 2 ^ 63"
  shows "reshape_shape (map int ds) sh = Inr ds"
proof -
  have "reshape_loop (map int ds) 0 sh None [] = Inr (None, map int ds)"
    using reshape_loop_pos [of "map int ds" "[]"] assms(1) by simp
  with assms show ?thesis
    by (auto simp: reshape_shape_def infer_reshape_shape_def usize_def prod_list_int o_def)
qed

text \<open>C1. Reshaping to positive dimensions with one dimension left to infer, when they divide the size, keeps all
  elements in their order, fills in the quotient, and reshaping to the old shape gives the array back.\<close>

theorem reshape_round_trip:
  assumes ok: "darray_ok x" and pos: "\<forall>d \<in> set (t_shape x). 0 < d" "\<forall>d \<in> set (ds @ es). 0 < d"
    and size: "prod_list (t_shape x) < 2 ^ 63" and p: "p = prod_list (ds @ es)" "p dvd prod_list (t_shape x)"
  shows "\<exists>y. nd_reshape (map int ds @ -1 # map int es) x = Inr y
    \<and> t_shape y = ds @ prod_list (t_shape x) div p # es \<and> t_vals y = t_vals x \<and> t_dtype y = t_dtype x \<and> darray_ok y
    \<and> nd_reshape (map int (t_shape x)) y = Inr x"
proof -
  let ?n = "prod_list (t_shape x)" and ?sh = "ds @ prod_list (t_shape x) div p # es"
  have n: "0 < ?n" using pos(1) by (rule prod_list_pos)
  have p0: "0 < p" "p \<le> ?n" using pos(2) p n by (auto simp: prod_list_zero_iff intro: gr0I dvd_imp_le)
  have prod: "prod_list ?sh = ?n"
  proof -
    have "prod_list ?sh = p * (?n div p)" unfolding p(1) by simp
    then show ?thesis using p(2) by simp
  qed
  have "reshape_loop (map int ds @ -1 # map int es) 0 (t_shape x) None []
      = reshape_loop (map int es) (length ds + 1) (tl (drop (length ds) (t_shape x))) (Some (length ds)) (map int ds @ [1])"
    using reshape_loop_pos [of "map int ds" "-1 # map int es" 0 "t_shape x" None "[]"] pos(2) by simp
  also have "\<dots> = Inr (Some (length ds), map int ds @ 1 # map int es)"
    using reshape_loop_pos [of "map int es" "[]"] pos(2) by simp
  finally have loop: "reshape_loop (map int ds @ -1 # map int es) 0 (t_shape x) None [] = \<dots>" .
  have tmp: "prod_list (map int ds) * prod_list (map int es) = int p" using p(1) by (simp add: prod_list_int)
  have us: "usize (map int (t_shape x)) = int ?n" using size by (simp add: usize_def prod_list_int)
  have "int p mod 2 ^ 64 = int p" using p0 size by simp
  moreover have "to_int64 (int (?n div p)) = int (?n div p)"
    using size order_le_less_trans [OF div_le_dividend, of ?n "2 ^ 63" p] by (intro to_int64_small) simp_all
  ultimately have div: "size_div (int ?n) (int p) = Inr (int (?n div p))"
    using p0 by (simp add: size_div_def zdiv_int)
  have "infer_reshape_shape (map int ds @ -1 # map int es) (t_shape x) = Inr (map int ?sh)"
    using n by (simp add: infer_reshape_shape_def loop us tmp div list_update_append)
  moreover have "usize (map int ?sh) = int ?n" using prod size unfolding usize_def prod_list_int by simp
  ultimately have "reshape_shape (map int ds @ -1 # map int es) (t_shape x) = Inr ?sh"
    using us n by (auto simp: reshape_shape_def o_def)
  then have y: "nd_reshape (map int ds @ -1 # map int es) x = Inr (x\<lparr> t_shape := ?sh \<rparr>)"
    using ok prod by (simp add: nd_reshape_def darray_ok_def)
  have "reshape_shape (map int (t_shape x)) ?sh = Inr (t_shape x)"
    using pos(1) prod n size by (intro reshape_shape_pos) simp_all
  then have "nd_reshape (map int (t_shape x)) (x\<lparr> t_shape := ?sh \<rparr>) = Inr x"
    using ok by (simp add: nd_reshape_def darray_ok_def)
  with y prod ok show ?thesis by (auto simp: darray_ok_def)
qed

theorem reshape_round_trip_witness:
  "\<exists>y. nd_reshape [2, -1] \<lparr> t_shape = [3, 4], t_dtype = ''float32'', t_vals = map real [0..<12] \<rparr> = Inr y
     \<and> t_shape y = [2, 6] \<and> nd_reshape [3, 4] y = Inr \<lparr> t_shape = [3, 4], t_dtype = ''float32'', t_vals = map real [0..<12] \<rparr>"
  using reshape_round_trip [of "\<lparr> t_shape = [3, 4], t_dtype = ''float32'', t_vals = map real [0..<12] \<rparr>" "[2]" "[]" 2]
  by (auto simp: darray_ok_def)

text \<open>A smaller target is not refused: the array is cut off.\<close>

lemma reshape_truncates: "nd_reshape [2] \<lparr> t_shape = [3], t_dtype = dt, t_vals = [a, b, c] \<rparr> = Inr \<lparr> t_shape = [2], t_dtype = dt, t_vals = [a, b] \<rparr>"
  by (simp add: nd_reshape_def reshape_shape_def infer_reshape_shape_def usize_def numeral_2_eq_2)

text \<open>The dimension to infer is remembered by its place among the proposed dimensions, not by its place in the new
  shape.  After the code -2, which copies several dimensions, another dimension is overwritten; after the code -4,
  which takes three entries for two dimensions, the place may lie outside the new shape.\<close>

lemma reshape_wrong_place:
  "reshape_shape [-2, -1] [2, 3, 4] = Inr [2, 1, 4, 1]" "reshape_shape [-4, 2, 3, -1] [6, 5] = Inl NativeFault"
  by (simp_all add: reshape_shape_def infer_reshape_shape_def usize_def size_div_def to_int64_def split_dim_def)

end
