(* ===== verification/Gluon_Params.thy ===== *)
theory Gluon_Params
  imports Dense_Arrays "HOL-Library.Sublist"
begin

text \<open>
  \<open>gluon/parameter.py\<close>: \<open>Parameter\<close>, the container of a weight and its gradient on several devices with its
  deferred initialization, and \<open>ParameterDict\<close> with retrieving, saving and loading.

  The record \<open>param\<close> has the attributes of a parameter with dense storage that no trainer has taken over.
  A context is its device type and number.  Arguments of the model: \<open>run_init\<close>, the initializer called on a zero
  array; \<open>cast\<close>, the rounding of a number to an element type; \<open>cur\<close>, the current context.  A file of parameters is the
  dict written to it.
\<close>

section \<open>Contexts\<close>

datatype device = Context (device_typeid: nat) (device_id: nat)

section \<open>Parameters\<close>

type_synonym ctx_map = "nat option list \<times> nat option list"

record 'i param =
  p_name :: string
  p_shape :: "nat list option"
  p_dtype :: string
  p_lr_mult :: real
  p_wd_mult :: real
  p_init :: "'i option"
  p_grad_req :: "string option"
  p_data :: "darray list option"
  p_grad :: "darray list option"
  p_ctx_list :: "device list"
  p_ctx_map :: ctx_map
  p_deferred :: "('i \<times> device list \<times> 'i \<times> darray option) option"
  p_differentiable :: bool
  p_allow_deferred :: bool

definition init_grad :: "'i param \<Rightarrow> 'i param" where
  "init_grad p =
     (if p_grad_req p = Some ''null'' then p\<lparr> p_grad := None \<rparr>
      else p\<lparr> p_grad := map_option (map (\<lambda>d. nd_zeros (t_shape d) (t_dtype d))) (p_data p) \<rparr>)"

definition set_grad_req :: "string \<Rightarrow> 'i param \<Rightarrow> ('i param, unit) outcome" where
  "set_grad_req req p =
     (if req \<notin> {''write'', ''add'', ''null''} then (p, Inl AssertionError)
      else
        (let req = (if p_differentiable p then req else ''null'')
         in if p_grad_req p = Some req then (p, Inr ())
            else
              (let p = p\<lparr> p_grad_req := Some req \<rparr>
               in if req = ''null'' \<and> p_grad p \<noteq> None then (p\<lparr> p_grad := None \<rparr>, Inr ())
                  else if p_data p \<noteq> None then (init_grad p, Inr ())
                  else (p, Inr ()))))"

definition Parameter_init ::
  "string \<Rightarrow> string \<Rightarrow> nat list option \<Rightarrow> string \<Rightarrow> real \<Rightarrow> real \<Rightarrow> 'i option \<Rightarrow> bool \<Rightarrow> bool \<Rightarrow> 'i param result" where
  "Parameter_init name req sh dt lr_mult wd_mult ini allow_deferred diffable =
     (case set_grad_req req
             \<lparr> p_name = name, p_shape = sh, p_dtype = dt, p_lr_mult = lr_mult, p_wd_mult = wd_mult,
               p_init = ini, p_grad_req = None, p_data = None, p_grad = None, p_ctx_list = [], p_ctx_map = ([], []),
               p_deferred = None, p_differentiable = diffable, p_allow_deferred = allow_deferred \<rparr> of
        (p, r) \<Rightarrow> rbind r (\<lambda>_. Inr p))"

definition set_shape :: "nat list \<Rightarrow> 'i param \<Rightarrow> ('i param, unit) outcome" where
  "set_shape new_shape p =
     (case p_shape p of
        None \<Rightarrow> (p\<lparr> p_shape := Some new_shape \<rparr>, Inr ())
      | Some sh \<Rightarrow>
          if length sh = length new_shape \<and> list_all2 (\<lambda>i j. j = 0 \<or> j = i) new_shape sh
          then (p\<lparr> p_shape := Some new_shape \<rparr>, Inr ())
          else (p, Inl AssertionError))"

text \<open>The table from device numbers to copies, one for even and one for odd device types.\<close>

definition dev_set :: "nat \<Rightarrow> nat \<Rightarrow> nat option list \<Rightarrow> nat option list" where
  "dev_set d i devs = (devs @ replicate (d + 1 - length devs) None)[d := Some i]"

definition ctx_map_add :: "ctx_map \<Rightarrow> nat \<times> device \<Rightarrow> ctx_map" where
  "ctx_map_add m ic =
     (case ic of (i, c) \<Rightarrow>
        if even (device_typeid c) then (dev_set (device_id c) i (fst m), snd m)
        else (fst m, dev_set (device_id c) i (snd m)))"

definition ctx_map_of :: "device list \<Rightarrow> ctx_map" where
  "ctx_map_of ctxs = foldl ctx_map_add ([], []) (zip [0..<length ctxs] ctxs)"

definition init_impl :: "darray \<Rightarrow> device list \<Rightarrow> 'i param \<Rightarrow> 'i param" where
  "init_impl data ctxs p =
     init_grad (p\<lparr> p_ctx_list := ctxs, p_ctx_map := ctx_map_of ctxs, p_data := Some (map (\<lambda>_. data) ctxs) \<rparr>)"

definition unavailable :: "'i param \<Rightarrow> exn" where
  "unavailable p = (if p_deferred p \<noteq> None then DeferredInitializationError else RuntimeError)"

definition get_all :: "darray list option \<Rightarrow> 'i param \<Rightarrow> darray list result" where
  "get_all arrs p = (case arrs of None \<Rightarrow> Inl (unavailable p) | Some xs \<Rightarrow> Inr xs)"

definition dev_get :: "nat \<Rightarrow> nat option list \<Rightarrow> nat option" where
  "dev_get d devs = (if d < length devs then devs ! d else None)"

definition ctx_slot :: "ctx_map \<Rightarrow> device \<Rightarrow> nat option" where
  "ctx_slot m c =
     dev_get (device_id c) (if even (device_typeid c) then fst m else snd m)"

definition get_on :: "device \<Rightarrow> darray list option \<Rightarrow> device option \<Rightarrow> 'i param \<Rightarrow> darray result" where
  "get_on cur arrs c p =
     (case arrs of
        None \<Rightarrow> Inl (unavailable p)
      | Some xs \<Rightarrow>
          if c = None \<and> length xs = 1 then Inr (hd xs)
          else (case ctx_slot (p_ctx_map p) (case c of None \<Rightarrow> cur | Some c \<Rightarrow> c) of
                  None \<Rightarrow> Inl RuntimeError
                | Some i \<Rightarrow> py_get xs (int i)))"

definition Parameter_data :: "device \<Rightarrow> device option \<Rightarrow> 'i param \<Rightarrow> darray result" where
  "Parameter_data cur c p = get_on cur (p_data p) c p"

definition Parameter_list_data :: "'i param \<Rightarrow> darray list result" where
  "Parameter_list_data p = get_all (p_data p) p"

definition Parameter_grad :: "device \<Rightarrow> device option \<Rightarrow> 'i param \<Rightarrow> darray result" where
  "Parameter_grad cur c p =
     (if p_data p \<noteq> None \<and> p_grad p = None then Inl RuntimeError else get_on cur (p_grad p) c p)"

definition Parameter_list_grad :: "'i param \<Rightarrow> darray list result" where
  "Parameter_list_grad p =
     (if p_data p \<noteq> None \<and> p_grad p = None then Inl RuntimeError else get_all (p_grad p) p)"

definition Parameter_list_ctx :: "'i param \<Rightarrow> device list result" where
  "Parameter_list_ctx p =
     (if p_data p = None
      then (case p_deferred p of Some (i, ctxs, d, v) \<Rightarrow> Inr ctxs | None \<Rightarrow> Inl RuntimeError)
      else Inr (p_ctx_list p))"

definition zero_grad :: "'i param \<Rightarrow> 'i param" where
  "zero_grad p = p\<lparr> p_grad := map_option (map (\<lambda>g. nd_zeros (t_shape g) (t_dtype g))) (p_grad p) \<rparr>"

definition known_shape :: "nat list option \<Rightarrow> bool" where
  "known_shape sh \<longleftrightarrow> (case sh of None \<Rightarrow> False | Some s \<Rightarrow> s \<noteq> [] \<and> 0 < prod_list s)"

definition finish_deferred_init ::
  "('i \<Rightarrow> string \<Rightarrow> 'i \<Rightarrow> darray \<Rightarrow> darray) \<Rightarrow> 'i param \<Rightarrow> ('i param, unit) outcome" where
  "finish_deferred_init run_init p =
     (case p_deferred p of
        None \<Rightarrow> (p, Inr ())
      | Some (ini, ctxs, default_init, data) \<Rightarrow>
          (let p = p\<lparr> p_deferred := None \<rparr>
           in case p_shape p of
                None \<Rightarrow> (p, Inl AssertionError)
              | Some sh \<Rightarrow>
                  if prod_list sh = 0 then (p, Inl AssertionError)
                  else (init_impl (case data of Some d \<Rightarrow> d
                                   | None \<Rightarrow> run_init default_init (p_name p) ini (nd_zeros sh (p_dtype p))) ctxs p,
                        Inr ())))"

definition Parameter_initialize ::
  "('i \<Rightarrow> string \<Rightarrow> 'i \<Rightarrow> darray \<Rightarrow> darray) \<Rightarrow> device \<Rightarrow> 'i option \<Rightarrow> device list option \<Rightarrow> 'i \<Rightarrow> bool \<Rightarrow>
   'i param \<Rightarrow> ('i param, unit) outcome" where
  "Parameter_initialize run_init cur ini ctxs default_init force_reinit p =
     (if p_data p \<noteq> None \<and> \<not> force_reinit then (p, Inr ())
      else
        (let p = p\<lparr> p_data := None, p_grad := None \<rparr>;
             ctxs = (case ctxs of None \<Rightarrow> [cur] | Some cs \<Rightarrow> cs);
             ini = (case ini of Some i \<Rightarrow> i | None \<Rightarrow> (case p_init p of None \<Rightarrow> default_init | Some i \<Rightarrow> i))
         in if \<not> known_shape (p_shape p)
            then (if p_allow_deferred p then (p\<lparr> p_deferred := Some (ini, ctxs, default_init, None) \<rparr>, Inr ())
                  else (p, Inl ValueError))
            else finish_deferred_init run_init (p\<lparr> p_deferred := Some (ini, ctxs, default_init, None) \<rparr>)))"

text \<open>\<open>_reduce\<close>: the mean of the copies.\<close>

definition add_vals :: "real list \<Rightarrow> real list \<Rightarrow> real list" where
  "add_vals xs ys = map2 (+) xs ys"

definition Parameter_reduce :: "'i param \<Rightarrow> darray result" where
  "Parameter_reduce p =
     rbind (Parameter_list_data p) (\<lambda>ds.
       case ds of
         [] \<Rightarrow> Inl MXNetError
       | d # rest \<Rightarrow> Inr (d\<lparr> t_vals := map (\<lambda>v. v / real (length ds)) (foldl add_vals (t_vals d) (map t_vals rest)) \<rparr>))"

definition Parameter_reset_ctx :: "device \<Rightarrow> device list option \<Rightarrow> 'i param \<Rightarrow> ('i param, unit) outcome" where
  "Parameter_reset_ctx cur ctxs p =
     (let ctxs = (case ctxs of None \<Rightarrow> [cur] | Some cs \<Rightarrow> cs)
      in case p_data p of
           Some (d # ds) \<Rightarrow>
             (case Parameter_reduce p of Inl e \<Rightarrow> (p, Inl e) | Inr data \<Rightarrow> (init_impl data ctxs p, Inr ()))
         | _ \<Rightarrow>
             (case p_deferred p of
                Some (ini, old, default_init, data) \<Rightarrow> (p\<lparr> p_deferred := Some (ini, ctxs, default_init, data) \<rparr>, Inr ())
              | None \<Rightarrow> (p, Inl ValueError)))"

definition Parameter_set_data :: "(string \<Rightarrow> real \<Rightarrow> real) \<Rightarrow> darray \<Rightarrow> 'i param \<Rightarrow> ('i param, unit) outcome" where
  "Parameter_set_data cast data p =
     sbind (set_shape (t_shape data) p) (\<lambda>p _.
       case p_data p of
         None \<Rightarrow>
           (case p_deferred p of
              None \<Rightarrow> (p, Inl AssertionError)
            | Some (ini, ctxs, default_init, old) \<Rightarrow> (p\<lparr> p_deferred := Some (ini, ctxs, default_init, Some data) \<rparr>, Inr ()))
       | Some ds \<Rightarrow>
           (case mapM (assign cast data) ds of
              Inl e \<Rightarrow> (p, Inl e)
            | Inr ds' \<Rightarrow> (p\<lparr> p_data := Some ds' \<rparr>, Inr ())))"

definition Parameter_cast :: "(string \<Rightarrow> real \<Rightarrow> real) \<Rightarrow> string \<Rightarrow> 'i param \<Rightarrow> 'i param" where
  "Parameter_cast cast dt p =
     p\<lparr> p_dtype := dt, p_data := map_option (map (astype cast dt)) (p_data p),
        p_grad := (if p_data p = None then p_grad p else map_option (map (astype cast dt)) (p_grad p)) \<rparr>"

definition Parameter_load_init ::
  "(string \<Rightarrow> real \<Rightarrow> real) \<Rightarrow> device \<Rightarrow> darray \<Rightarrow> device list option \<Rightarrow> 'i param \<Rightarrow> ('i param, unit) outcome" where
  "Parameter_load_init cast cpu data ctxs p =
     sbind (case p_shape p of
              Some (s # sh) \<Rightarrow>
                if list_all (\<lambda>(a, b). a = 0 \<or> a = b) (zip (s # sh) (t_shape data))
                then set_shape (map2 (\<lambda>i j. if i \<noteq> 0 then i else j) (s # sh) (t_shape data)) p
                else (p, Inl AssertionError)
            | _ \<Rightarrow> (p, Inr ())) (\<lambda>p _.
       if p_dtype p \<noteq> [] \<and> p_dtype p \<noteq> t_dtype data then (p, Inl AssertionError)
       else
         sbind (case p_data p of
                  None \<Rightarrow>
                    (case p_deferred p of
                       Some (ini, dctxs, default_init, old) \<Rightarrow>
                         if ctxs = None \<or> set (the ctxs) = set dctxs then (init_impl data dctxs p, Inr ())
                         else (p, Inl AssertionError)
                     | None \<Rightarrow> (init_impl data (case ctxs of None \<Rightarrow> [cpu] | Some cs \<Rightarrow> cs) p, Inr ()))
                | Some ds \<Rightarrow>
                    if ctxs = None \<or> set (the ctxs) = set (p_ctx_list p) then Parameter_set_data cast data p
                    else (p, Inl AssertionError)) (\<lambda>p _.
           (p\<lparr> p_deferred := None \<rparr>, Inr ())))"

section \<open>Dictionaries of parameters\<close>

text \<open>Parameters are objects that dictionaries share; the store holds them by number.\<close>

record param_dict =
  pd_prefix :: string
  pd_params :: "(string \<times> nat) list"
  pd_shared :: "(string \<times> nat) list option"

definition get_impl :: "string \<Rightarrow> param_dict \<Rightarrow> param_dict \<times> nat option" where
  "get_impl name d =
     (case map_of (pd_params d) name of
        Some i \<Rightarrow> (d, Some i)
      | None \<Rightarrow>
          (case pd_shared d of
             None \<Rightarrow> (d, None)
           | Some shared \<Rightarrow>
               (case map_of shared name of
                  None \<Rightarrow> (d, None)
                | Some i \<Rightarrow> (d\<lparr> pd_params := AList.update name i (pd_params d) \<rparr>, Some i))))"

text \<open>Keyword arguments of \<open>get\<close>; those without an attribute of their name are only used for a new parameter.\<close>

datatype 'i attribute =
  Shape "nat list option" | Dtype string | Init "'i option" | LrMult real | WdMult real | GradReq string
  | AllowDeferred bool | Differentiable bool

fun infer_dims :: "nat list \<Rightarrow> nat list \<Rightarrow> nat list option" where
  "infer_dims (d1 # v) (d2 # existing) =
     (if d1 \<noteq> d2 \<and> d1 * d2 \<noteq> 0 then None
      else map_option ((#) (if d1 = d2 then d1 else if d1 = 0 then d2 else d1)) (infer_dims v existing))"
| "infer_dims _ _ = Some []"

fun merge_attr :: "'i attribute \<Rightarrow> 'i param \<Rightarrow> ('i param, unit) outcome" where
  "merge_attr (Shape v) p =
     (case p_shape p of
        None \<Rightarrow> (p\<lparr> p_shape := v \<rparr>, Inr ())
      | Some existing \<Rightarrow>
          (case v of
             None \<Rightarrow> (p, Inl TypeError)
           | Some sh \<Rightarrow>
               if length sh \<noteq> length existing then (p, Inl AssertionError)
               else (case infer_dims sh existing of
                       None \<Rightarrow> (p, Inl AssertionError)
                     | Some inferred \<Rightarrow> (p\<lparr> p_shape := Some inferred \<rparr>, Inr ()))))"
| "merge_attr (Dtype v) p = (p, if v = p_dtype p then Inr () else Inl AssertionError)"
| "merge_attr (Init v) p =
     (case p_init p of
        None \<Rightarrow> (p\<lparr> p_init := v \<rparr>, Inr ())
      | Some i \<Rightarrow> (p, if v = None \<or> v = Some i then Inr () else Inl AssertionError))"
| "merge_attr (LrMult v) p = (p, if v = p_lr_mult p then Inr () else Inl AssertionError)"
| "merge_attr (WdMult v) p = (p, if v = p_wd_mult p then Inr () else Inl AssertionError)"
| "merge_attr (GradReq v) p = (p, if Some v = p_grad_req p then Inr () else Inl AssertionError)"
| "merge_attr _ p = (p, Inr ())"

fun merge_attrs :: "'i attribute list \<Rightarrow> 'i param \<Rightarrow> ('i param, unit) outcome" where
  "merge_attrs [] p = (p, Inr ())"
| "merge_attrs (a # as) p = sbind (merge_attr a p) (\<lambda>p _. merge_attrs as p)"

definition last_attr :: "('i attribute \<Rightarrow> 'v option) \<Rightarrow> 'v \<Rightarrow> 'i attribute list \<Rightarrow> 'v" where
  "last_attr sel dflt kwargs = foldl (\<lambda>v a. case sel a of None \<Rightarrow> v | Some w \<Rightarrow> w) dflt kwargs"

definition new_param :: "string \<Rightarrow> 'i attribute list \<Rightarrow> 'i param result" where
  "new_param name kwargs =
     Parameter_init name
       (last_attr (\<lambda>a. case a of GradReq v \<Rightarrow> Some v | _ \<Rightarrow> None) ''write'' kwargs)
       (last_attr (\<lambda>a. case a of Shape v \<Rightarrow> Some v | _ \<Rightarrow> None) None kwargs)
       (last_attr (\<lambda>a. case a of Dtype v \<Rightarrow> Some v | _ \<Rightarrow> None) ''float32'' kwargs)
       (last_attr (\<lambda>a. case a of LrMult v \<Rightarrow> Some v | _ \<Rightarrow> None) 1 kwargs)
       (last_attr (\<lambda>a. case a of WdMult v \<Rightarrow> Some v | _ \<Rightarrow> None) 1 kwargs)
       (last_attr (\<lambda>a. case a of Init v \<Rightarrow> Some v | _ \<Rightarrow> None) None kwargs)
       (last_attr (\<lambda>a. case a of AllowDeferred v \<Rightarrow> Some v | _ \<Rightarrow> None) False kwargs)
       (last_attr (\<lambda>a. case a of Differentiable v \<Rightarrow> Some v | _ \<Rightarrow> None) True kwargs)"

record 'i params_state =
  ps_store :: "nat \<Rightarrow> 'i param"
  ps_next :: nat
  ps_dict :: param_dict

definition ParameterDict_get :: "string \<Rightarrow> 'i attribute list \<Rightarrow> 'i params_state \<Rightarrow> ('i params_state, nat) outcome" where
  "ParameterDict_get name kwargs s =
     (let full = pd_prefix (ps_dict s) @ name
      in case get_impl full (ps_dict s) of
           (d, None) \<Rightarrow>
             (case new_param full kwargs of
                Inl e \<Rightarrow> (s, Inl e)
              | Inr p \<Rightarrow>
                  (s\<lparr> ps_store := (ps_store s)(ps_next s := p), ps_next := ps_next s + 1,
                      ps_dict := d\<lparr> pd_params := AList.update full (ps_next s) (pd_params d) \<rparr> \<rparr>, Inr (ps_next s)))
         | (d, Some i) \<Rightarrow>
             (case merge_attrs kwargs (ps_store s i) of
                (p, r) \<Rightarrow> (s\<lparr> ps_store := (ps_store s)(i := p), ps_dict := d \<rparr>, rbind r (\<lambda>_. Inr i))))"

definition ParameterDict_update :: "(string \<times> nat) list \<Rightarrow> param_dict \<Rightarrow> (param_dict, unit) outcome" where
  "ParameterDict_update other d =
     (if \<exists>(k, i) \<in> set other. map_of (pd_params d) k \<noteq> None \<and> map_of (pd_params d) k \<noteq> Some i
      then (d, Inl AssertionError)
      else (d\<lparr> pd_params := foldl (\<lambda>ps kv. AList.update (fst kv) (snd kv) ps) (pd_params d) other \<rparr>, Inr ()))"

fun save_loop :: "string \<Rightarrow> (nat \<Rightarrow> 'i param) \<Rightarrow> (string \<times> nat) list \<Rightarrow> (string \<times> darray) list \<Rightarrow> (string \<times> darray) list result" where
  "save_loop strip_prefix store [] arg_dict = Inr arg_dict"
| "save_loop strip_prefix store ((k, i) # rest) arg_dict =
     rbind (Parameter_reduce (store i)) (\<lambda>weight.
       let name = p_name (store i)
       in if \<not> prefix strip_prefix name then Inl ValueError
          else save_loop strip_prefix store rest (AList.update (drop (length strip_prefix) name) weight arg_dict))"

definition ParameterDict_save :: "string \<Rightarrow> (nat \<Rightarrow> 'i param) \<Rightarrow> param_dict \<Rightarrow> (string \<times> darray) list result" where
  "ParameterDict_save strip_prefix store d = save_loop strip_prefix store (pd_params d) []"

definition plain_key :: "string \<Rightarrow> string" where
  "plain_key k = (if prefix ''arg:'' k \<or> prefix ''aux:'' k then drop 4 k else k)"

fun load_loop ::
  "(string \<Rightarrow> real \<Rightarrow> real) \<Rightarrow> device \<Rightarrow> device list option \<Rightarrow> bool \<Rightarrow> (string \<times> nat) list \<Rightarrow> (string \<times> darray) list \<Rightarrow>
   (nat \<Rightarrow> 'i param) \<Rightarrow> (nat \<Rightarrow> 'i param, unit) outcome" where
  "load_loop cast cpu ctxs ignore_extra params [] store = (store, Inr ())"
| "load_loop cast cpu ctxs ignore_extra params ((name, data) # rest) store =
     (case map_of params name of
        None \<Rightarrow>
          if ignore_extra then load_loop cast cpu ctxs ignore_extra params rest store else (store, Inl AssertionError)
      | Some i \<Rightarrow>
          (case Parameter_load_init cast cpu data ctxs (store i) of
             (p, Inl e) \<Rightarrow> (store(i := p), Inl e)
           | (p, Inr _) \<Rightarrow> load_loop cast cpu ctxs ignore_extra params rest (store(i := p))))"

definition ParameterDict_load ::
  "(string \<Rightarrow> real \<Rightarrow> real) \<Rightarrow> device \<Rightarrow> (string \<times> darray) list \<Rightarrow> device list option \<Rightarrow> bool \<Rightarrow> bool \<Rightarrow> string \<Rightarrow>
   param_dict \<Rightarrow> (nat \<Rightarrow> 'i param) \<Rightarrow> (nat \<Rightarrow> 'i param, unit) outcome" where
  "ParameterDict_load cast cpu file ctxs allow_missing ignore_extra restore_prefix d store =
     (if \<exists>(k, i) \<in> set (pd_params d). \<not> prefix restore_prefix k then (store, Inl AssertionError)
      else
        (let arg_dict = foldl (\<lambda>m kv. AList.update (restore_prefix @ plain_key (fst kv)) (snd kv) m) [] file
         in if \<not> allow_missing \<and> (\<exists>(k, i) \<in> set (pd_params d). map_of arg_dict k = None)
            then (store, Inl AssertionError)
            else load_loop cast cpu ctxs ignore_extra (pd_params d) arg_dict store))"

definition ParameterDict_each ::
  "('i param \<Rightarrow> ('i param, unit) outcome) \<Rightarrow> (string \<times> nat) list \<Rightarrow> (nat \<Rightarrow> 'i param) \<Rightarrow> (nat \<Rightarrow> 'i param, unit) outcome" where
  "ParameterDict_each f params store =
     foldl (\<lambda>r kv. sbind r (\<lambda>st _. case f (st (snd kv)) of (p, x) \<Rightarrow> (st(snd kv := p), x))) (store, Inr ()) params"

definition ParameterDict_initialize ::
  "('i \<Rightarrow> string \<Rightarrow> 'i \<Rightarrow> darray \<Rightarrow> darray) \<Rightarrow> device \<Rightarrow> 'i \<Rightarrow> device list option \<Rightarrow> bool \<Rightarrow> param_dict \<Rightarrow>
   (nat \<Rightarrow> 'i param) \<Rightarrow> (nat \<Rightarrow> 'i param, unit) outcome" where
  "ParameterDict_initialize run_init cur ini ctxs force_reinit d =
     ParameterDict_each (Parameter_initialize run_init cur None ctxs ini force_reinit) (pd_params d)"

definition ParameterDict_zero_grad :: "param_dict \<Rightarrow> (nat \<Rightarrow> 'i param) \<Rightarrow> (nat \<Rightarrow> 'i param, unit) outcome" where
  "ParameterDict_zero_grad d = ParameterDict_each (\<lambda>p. (zero_grad p, Inr ())) (pd_params d)"

definition ParameterDict_reset_ctx ::
  "device \<Rightarrow> device list option \<Rightarrow> param_dict \<Rightarrow> (nat \<Rightarrow> 'i param) \<Rightarrow> (nat \<Rightarrow> 'i param, unit) outcome" where
  "ParameterDict_reset_ctx cur ctxs d = ParameterDict_each (Parameter_reset_ctx cur ctxs) (pd_params d)"

fun param_setattr :: "'i attribute \<Rightarrow> 'i param \<Rightarrow> ('i param, unit) outcome" where
  "param_setattr (Shape v) p =
     (case v of
        Some sh \<Rightarrow> set_shape sh p
      | None \<Rightarrow> (p, if p_shape p = None then Inr () else Inl TypeError))"
| "param_setattr (Dtype v) p = (p\<lparr> p_dtype := v \<rparr>, Inr ())"
| "param_setattr (Init v) p = (p\<lparr> p_init := v \<rparr>, Inr ())"
| "param_setattr (LrMult v) p = (p\<lparr> p_lr_mult := v \<rparr>, Inr ())"
| "param_setattr (WdMult v) p = (p\<lparr> p_wd_mult := v \<rparr>, Inr ())"
| "param_setattr (GradReq v) p = set_grad_req v p"
| "param_setattr _ p = (p, Inr ())"

definition ParameterDict_setattr :: "'i attribute \<Rightarrow> param_dict \<Rightarrow> (nat \<Rightarrow> 'i param) \<Rightarrow> (nat \<Rightarrow> 'i param, unit) outcome" where
  "ParameterDict_setattr a d = ParameterDict_each (param_setattr a) (pd_params d)"

section \<open>The life of a parameter\<close>

text \<open>The methods that change a parameter, and any sequence of calls, failing ones included.\<close>

datatype 'i param_op =
  SetAttr "'i attribute" | Retrieve "'i attribute list" | FinishDeferred | Initialize "'i option" "device list option" 'i bool
  | ResetCtx "device list option" | SetData darray | ZeroGrad | Cast string | LoadInit darray "device list option"

fun param_step ::
  "('i \<Rightarrow> string \<Rightarrow> 'i \<Rightarrow> darray \<Rightarrow> darray) \<Rightarrow> (string \<Rightarrow> real \<Rightarrow> real) \<Rightarrow> device \<Rightarrow> 'i param \<Rightarrow> 'i param_op \<Rightarrow> 'i param" where
  "param_step run_init cast cur p (SetAttr a) = fst (param_setattr a p)"
| "param_step run_init cast cur p (Retrieve kwargs) = fst (merge_attrs kwargs p)"
| "param_step run_init cast cur p FinishDeferred = fst (finish_deferred_init run_init p)"
| "param_step run_init cast cur p (Initialize ini ctxs dini force) = fst (Parameter_initialize run_init cur ini ctxs dini force p)"
| "param_step run_init cast cur p (ResetCtx ctxs) = fst (Parameter_reset_ctx cur ctxs p)"
| "param_step run_init cast cur p (SetData data) = fst (Parameter_set_data cast data p)"
| "param_step run_init cast cur p ZeroGrad = zero_grad p"
| "param_step run_init cast cur p (Cast dt) = Parameter_cast cast dt p"
| "param_step run_init cast cur p (LoadInit data ctxs) = fst (Parameter_load_init cast cur data ctxs p)"

definition parameter_ok :: "'i param \<Rightarrow> bool" where
  "parameter_ok p \<longleftrightarrow> p_grad_req p \<noteq> None \<and>
     (case p_data p of
        None \<Rightarrow> p_grad p = None
      | Some ds \<Rightarrow> p_deferred p = None \<and> length ds = length (p_ctx_list p) \<and> p_ctx_map p = ctx_map_of (p_ctx_list p)
          \<and> (case p_grad p of
               None \<Rightarrow> p_grad_req p = Some ''null''
             | Some gs \<Rightarrow> p_grad_req p \<noteq> Some ''null'' \<and> map t_shape gs = map t_shape ds \<and> map t_dtype gs = map t_dtype ds))"

lemma init_grad_ok:
  assumes "p_grad_req p \<noteq> None" "p_data p = Some ds" "p_deferred p = None" "length ds = length (p_ctx_list p)"
    "p_ctx_map p = ctx_map_of (p_ctx_list p)"
  shows "parameter_ok (init_grad p)"
  using assms by (simp add: init_grad_def parameter_ok_def nd_zeros_def o_def)

lemma init_impl_ok: "p_grad_req p \<noteq> None \<Longrightarrow> p_deferred p = None \<Longrightarrow> parameter_ok (init_impl data ctxs p)"
  unfolding init_impl_def by (rule init_grad_ok [where ds = "map (\<lambda>_. data) ctxs"]) simp_all

lemma set_grad_req_ok:
  assumes "parameter_ok p"
  shows "parameter_ok (fst (set_grad_req req p))"
proof -
  let ?req = "if p_differentiable p then req else ''null''"
  show ?thesis
  proof (cases "p_data p")
    case None
    with assms have "p_grad p = None" by (simp add: parameter_ok_def)
    with None assms show ?thesis by (simp add: set_grad_req_def Let_def parameter_ok_def)
  next
    case (Some ds)
    with assms have "parameter_ok (init_grad (p\<lparr> p_grad_req := Some req' \<rparr>))" for req'
      by (intro init_grad_ok [where ds = ds]) (simp_all add: parameter_ok_def)
    moreover have "parameter_ok (p\<lparr> p_grad_req := Some ''null'', p_grad := None \<rparr>)"
      using Some assms by (simp add: parameter_ok_def)
    ultimately show ?thesis using Some assms by (simp add: set_grad_req_def Let_def)
  qed
qed

lemma set_shape_fields:
  "p_grad_req (fst (set_shape sh p)) = p_grad_req p" "p_data (fst (set_shape sh p)) = p_data p"
  "p_grad (fst (set_shape sh p)) = p_grad p" "p_deferred (fst (set_shape sh p)) = p_deferred p"
  "p_ctx_list (fst (set_shape sh p)) = p_ctx_list p" "p_ctx_map (fst (set_shape sh p)) = p_ctx_map p"
  by (simp_all add: set_shape_def split: option.split)

lemma set_shape_ok: "parameter_ok p \<Longrightarrow> parameter_ok (fst (set_shape sh p))"
  unfolding parameter_ok_def set_shape_fields .

lemma parameter_ok_req: "parameter_ok p \<Longrightarrow> p_grad_req p \<noteq> None"
  by (simp add: parameter_ok_def)

lemma finish_deferred_init_ok:
  assumes "parameter_ok p"
  shows "parameter_ok (fst (finish_deferred_init run_init p))"
proof (cases "p_deferred p")
  case None
  with assms show ?thesis by (simp add: finish_deferred_init_def)
next
  case (Some x)
  then have "p_data p = None" using assms by (auto simp: parameter_ok_def split: option.splits)
  then have "parameter_ok (p\<lparr> p_deferred := None \<rparr>)" using assms by (simp add: parameter_ok_def)
  moreover have "parameter_ok (init_impl d ctxs (p\<lparr> p_deferred := None \<rparr>))" for d ctxs
    using parameter_ok_req [OF assms] by (intro init_impl_ok) simp_all
  ultimately show ?thesis using Some
    by (cases x) (simp add: finish_deferred_init_def Let_def split: option.split)
qed

lemma Parameter_initialize_ok:
  assumes "parameter_ok p"
  shows "parameter_ok (fst (Parameter_initialize run_init cur ini ctxs dini force p))"
proof -
  let ?p = "\<lambda>d. p\<lparr> p_data := None, p_grad := None, p_deferred := d \<rparr>"
  have "parameter_ok (?p d)" for d using assms by (simp add: parameter_ok_def)
  then have "parameter_ok (fst (finish_deferred_init run_init (?p d)))" "parameter_ok (?p d)" for d
    by (simp_all add: finish_deferred_init_ok)
  moreover have "parameter_ok (p\<lparr> p_data := None, p_grad := None \<rparr>)" using assms by (simp add: parameter_ok_def)
  ultimately show ?thesis
    unfolding Parameter_initialize_def Let_def using assms by simp
qed

lemma assign_shape: "assign cast data arr = Inr x \<Longrightarrow> t_shape x = t_shape arr \<and> t_dtype x = t_dtype arr"
  by (auto simp: assign_def astype_def broadcast_to_def Let_def split: if_splits)

lemma Parameter_set_data_ok:
  assumes "parameter_ok p"
  shows "parameter_ok (fst (Parameter_set_data cast data p))"
proof -
  obtain q r where q: "set_shape (t_shape data) p = (q, r)" by fastforce
  with set_shape_ok [OF assms, of "t_shape data"] have ok: "parameter_ok q" by simp
  have shapes: "map t_shape ds' = map t_shape ds \<and> map t_dtype ds' = map t_dtype ds" if "mapM (assign cast data) ds = Inr ds'" for ds ds'
    using mapM_nth [OF that] mapM_length [OF that] assign_shape by (fastforce intro!: nth_equalityI)
  show ?thesis
  proof (cases "p_data q")
    case None
    then have "parameter_ok (q\<lparr> p_deferred := d \<rparr>)" for d using ok by (simp add: parameter_ok_def)
    with None ok show ?thesis
      unfolding Parameter_set_data_def q by (cases r) (simp_all split: option.split)
  next
    case (Some ds)
    have "parameter_ok (q\<lparr> p_data := Some ds' \<rparr>)" if "mapM (assign cast data) ds = Inr ds'" for ds'
    proof -
      from shapes [OF that] have "map t_shape ds' = map t_shape ds" "map t_dtype ds' = map t_dtype ds" by simp_all
      moreover have "length ds' = length ds" by (rule mapM_length [OF that])
      ultimately show ?thesis using ok Some by (cases "p_grad q") (simp_all add: parameter_ok_def)
    qed
    with Some ok show ?thesis
      unfolding Parameter_set_data_def q by (cases r) (simp_all split: sum.split)
  qed
qed

lemma Parameter_reset_ctx_ok:
  assumes "parameter_ok p"
  shows "parameter_ok (fst (Parameter_reset_ctx cur ctxs p))"
proof (cases "p_data p")
  case None
  then have "parameter_ok (p\<lparr> p_deferred := d \<rparr>)" for d using assms by (simp add: parameter_ok_def)
  with None assms show ?thesis by (simp add: Parameter_reset_ctx_def Let_def split: option.split)
next
  case (Some ds)
  then have d: "p_deferred p = None" using assms by (simp add: parameter_ok_def)
  then have "parameter_ok (init_impl data cs p)" for data cs using parameter_ok_req [OF assms] by (intro init_impl_ok) simp_all
  with Some d assms show ?thesis
    by (cases ds) (simp_all add: Parameter_reset_ctx_def Let_def split: sum.split)
qed

lemma Parameter_cast_ok: "parameter_ok p \<Longrightarrow> parameter_ok (Parameter_cast cast dt p)"
  by (cases "p_data p"; cases "p_grad p") (simp_all add: parameter_ok_def Parameter_cast_def astype_def o_def, metis length_map map_replicate_const)

lemma zero_grad_ok: "parameter_ok p \<Longrightarrow> parameter_ok (zero_grad p)"
  by (cases "p_data p"; cases "p_grad p") (simp_all add: parameter_ok_def zero_grad_def nd_zeros_def o_def)

lemma clear_deferred_ok: "parameter_ok p \<Longrightarrow> parameter_ok (p\<lparr> p_deferred := None \<rparr>)"
  by (cases "p_data p"; cases "p_grad p") (simp_all add: parameter_ok_def)

lemma Parameter_load_init_ok:
  assumes "parameter_ok p"
  shows "parameter_ok (fst (Parameter_load_init cast cpu data ctxs p))"
proof -
  define first where "first = (case p_shape p of
              Some (s # sh) \<Rightarrow>
                if list_all (\<lambda>(a, b). a = 0 \<or> a = b) (zip (s # sh) (t_shape data))
                then set_shape (map2 (\<lambda>i j. if i \<noteq> 0 then i else j) (s # sh) (t_shape data)) p
                else (p, Inl AssertionError)
            | _ \<Rightarrow> (p, Inr ()))"
  obtain q r where q: "first = (q, r)" by fastforce
  have "fst first = p \<or> (\<exists>sh. fst first = fst (set_shape sh p))"
    unfolding first_def by (auto split: option.split list.split)
  then have ok: "parameter_ok q" using assms set_shape_ok q by (metis fst_conv)
  define second where "second = (case p_data q of
                  None \<Rightarrow>
                    (case p_deferred q of
                       Some (ini, dctxs, default_init, old) \<Rightarrow>
                         if ctxs = None \<or> set (the ctxs) = set dctxs then (init_impl data dctxs q, Inr ())
                         else (q, Inl AssertionError)
                     | None \<Rightarrow> (init_impl data (case ctxs of None \<Rightarrow> [cpu] | Some cs \<Rightarrow> cs) q, Inr ()))
                | Some ds \<Rightarrow>
                    if ctxs = None \<or> set (the ctxs) = set (p_ctx_list q) then Parameter_set_data cast data q
                    else (q, Inl AssertionError))"
  have clear: "parameter_ok ((init_impl data cs q)\<lparr> p_deferred := None \<rparr>)" for cs
  proof -
    have "parameter_ok (init_impl data cs (q\<lparr> p_deferred := None \<rparr>))"
      using parameter_ok_req [OF ok] by (intro init_impl_ok) simp_all
    moreover have "init_impl data cs (q\<lparr> p_deferred := None \<rparr>) = (init_impl data cs q)\<lparr> p_deferred := None \<rparr>"
      by (simp add: init_impl_def init_grad_def)
    ultimately show ?thesis by simp
  qed
  have second: "case second of (t, Inl e) \<Rightarrow> parameter_ok t | (t, Inr _) \<Rightarrow> parameter_ok (t\<lparr> p_deferred := None \<rparr>)"
  proof (cases "p_data q")
    case None
    then show ?thesis using ok clear by (auto simp: second_def split: option.split)
  next
    case (Some ds)
    then show ?thesis using ok Parameter_set_data_ok [OF ok, of cast data] clear_deferred_ok
      by (cases "Parameter_set_data cast data q") (auto simp: second_def split: sum.split)
  qed
  show ?thesis
    unfolding Parameter_load_init_def first_def [symmetric] q
    using ok second unfolding second_def [symmetric]
    by (cases r; cases second; cases "snd second") (simp_all add: second_def [symmetric])
qed

lemma parameter_ok_other:
  "parameter_ok (p\<lparr> p_dtype := dt \<rparr>) = parameter_ok p" "parameter_ok (p\<lparr> p_init := ini \<rparr>) = parameter_ok p"
  "parameter_ok (p\<lparr> p_lr_mult := c \<rparr>) = parameter_ok p" "parameter_ok (p\<lparr> p_wd_mult := c \<rparr>) = parameter_ok p"
  "parameter_ok (p\<lparr> p_shape := sh \<rparr>) = parameter_ok p"
  by (simp_all add: parameter_ok_def cong: option.case_cong)

lemma param_setattr_ok:
  assumes "parameter_ok p"
  shows "parameter_ok (fst (param_setattr a p))"
proof (cases a)
  case (Shape v)
  with assms show ?thesis by (cases v) (simp_all add: set_shape_ok)
qed (use assms in \<open>simp_all add: set_grad_req_ok parameter_ok_other\<close>)

lemma merge_attr_ok: "parameter_ok p \<Longrightarrow> parameter_ok (fst (merge_attr a p))"
  by (cases a) (simp_all add: parameter_ok_other split: option.split)

lemma merge_attrs_ok: "parameter_ok p \<Longrightarrow> parameter_ok (fst (merge_attrs kwargs p))"
proof (induction kwargs arbitrary: p)
  case (Cons a kwargs)
  obtain q r where q: "merge_attr a p = (q, r)" by fastforce
  with merge_attr_ok [OF Cons.prems, of a] have "parameter_ok q" by simp
  with Cons.IH q show ?case by (cases r) simp_all
qed simp

lemma param_step_ok: "parameter_ok p \<Longrightarrow> parameter_ok (param_step run_init cast cur p op)"
  by (cases op) (simp_all add: param_setattr_ok merge_attrs_ok finish_deferred_init_ok Parameter_initialize_ok
      Parameter_reset_ctx_ok Parameter_set_data_ok zero_grad_ok Parameter_cast_ok Parameter_load_init_ok)

lemma Parameter_init_ok:
  assumes "Parameter_init name req sh dt lr wd ini allow diffable = Inr p"
  shows "parameter_ok p"
  using assms
  by (auto simp: Parameter_init_def set_grad_req_def Let_def parameter_ok_def split: if_splits)

section \<open>Finding the copy of a context\<close>

definition ctx_key :: "device \<Rightarrow> bool \<times> nat" where
  "ctx_key c = (even (device_typeid c), device_id c)"

lemma dev_get_set: "dev_get k (dev_set d i devs) = (if k = d then Some i else dev_get k devs)"
  by (auto simp: dev_set_def dev_get_def nth_list_update nth_append)

lemma ctx_slot_add: "ctx_slot (ctx_map_add m (i, c)) c' = (if ctx_key c' = ctx_key c then Some i else ctx_slot m c')"
  by (auto simp: ctx_slot_def ctx_map_add_def ctx_key_def dev_get_set)

lemma ctx_slot_map_of:
  assumes "distinct (map ctx_key cs)"
  shows "i < length cs \<Longrightarrow> ctx_slot (ctx_map_of cs) (cs ! i) = Some i"
    "ctx_key c \<notin> ctx_key ` set cs \<Longrightarrow> ctx_slot (ctx_map_of cs) c = None"
  using assms
proof (induction cs arbitrary: i c rule: rev_induct)
  case Nil
  case 2
  then show ?case by (simp add: ctx_map_of_def ctx_slot_def dev_get_def)
next
  case (snoc d cs)
  have add: "ctx_map_of (cs @ [d]) = ctx_map_add (ctx_map_of cs) (length cs, d)" by (simp add: ctx_map_of_def)
  case 1
  show ?case
  proof (cases "i = length cs")
    case False
    then have "cs ! i \<in> set cs" using 1 by simp
    then have "ctx_key (cs ! i) \<noteq> ctx_key d" using 1 by (metis distinct_append image_eqI list.set_map map_append
        disjoint_iff list.set_intros(1) list.simps(9))
    with False 1 snoc.IH(1) [of i] show ?thesis by (simp add: add ctx_slot_add nth_append)
  qed (simp add: add ctx_slot_add)
next
  case (snoc d cs)
  have add: "ctx_map_of (cs @ [d]) = ctx_map_add (ctx_map_of cs) (length cs, d)" by (simp add: ctx_map_of_def)
  case 2
  then show ?case using snoc.IH(2) [of c] by (simp add: add ctx_slot_add)
qed simp



section \<open>Shapes\<close>

text \<open>A shape refines another if it fills in some of its unknown (zero) dimensions.\<close>

definition refines :: "nat list \<Rightarrow> nat list \<Rightarrow> bool" where
  "refines s t \<longleftrightarrow> list_all2 (\<lambda>a b. b = 0 \<or> a = b) s t"

text \<open>C35. The shape \<open>ParameterDict.get\<close> infers from a requested and a stored shape of the same length is the
  least shape that fills in both; it fails exactly when no shape does, and does not depend on the order.\<close>

theorem infer_dims_join:
  assumes "length v = length existing"
  shows "(case infer_dims v existing of
       None \<Rightarrow> \<not> (\<exists>s. refines s v \<and> refines s existing)
     | Some s \<Rightarrow> refines s v \<and> refines s existing \<and> (\<forall>s'. refines s' v \<and> refines s' existing \<longrightarrow> refines s' s))
    \<and> infer_dims existing v = infer_dims v existing"
  using assms
proof (induction v existing rule: list_induct2)
  case Nil
  then show ?case by (simp add: refines_def)
next
  case (Cons a v b existing)
  show ?case
  proof (cases "a \<noteq> b \<and> a * b \<noteq> 0")
    case True
    then show ?thesis by (auto simp: refines_def list_all2_Cons2)
  next
    case False
    then show ?thesis using Cons.IH
      by (cases "infer_dims v existing") (auto simp: refines_def list_all2_Cons2)
  qed
qed

theorem infer_dims_join_witness:
  "infer_dims [2, 0, 0] [0, 3, 0] = Some [2, 3, 0] \<and> infer_dims [0, 3, 0] [2, 0, 0] = Some [2, 3, 0]
   \<and> \<not> (\<exists>s. refines s [2, 5] \<and> refines s [0, 3])"
  using infer_dims_join [of "[2, 0, 0]" "[0, 3, 0]"] infer_dims_join [of "[2, 5]" "[0, 3]"] by simp

text \<open>Loading compares only as many dimensions as the parameter has: an array with further dimensions is
  accepted, and the parameter then holds data of another shape than its own.\<close>

lemma load_init_extra_dims:
  assumes "p_shape p = Some [n]" "p_data p = None" "p_deferred p = None" "p_dtype p = t_dtype data" "t_shape data = [n, m]"
  shows "\<exists>q. Parameter_load_init cast cpu data None p = (q, Inr ()) \<and> p_shape q = Some [n] \<and> p_data q = Some [data]"
  using assms by (simp add: Parameter_load_init_def set_shape_def init_impl_def init_grad_def)

section \<open>Saving and loading\<close>

definition same_copies :: "darray \<Rightarrow> 'i param \<Rightarrow> bool" where
  "same_copies w p \<longleftrightarrow> (\<exists>n. p_data p = Some (replicate (Suc n) w))"

lemma foldl_add_same: "foldl add_vals (map (\<lambda>v. c * v) xs) (replicate n xs) = map (\<lambda>v. (c + real n) * v) xs"
proof (induction n arbitrary: c)
  case (Suc n)
  have "add_vals (map (\<lambda>v. c * v) xs) xs = map (\<lambda>v. (c + 1) * v) xs"
    unfolding add_vals_def by (rule nth_equalityI) (simp_all add: algebra_simps)
  with Suc [of "c + 1"] show ?case by (simp add: algebra_simps)
qed simp

lemma Parameter_reduce_same:
  assumes "same_copies w p"
  shows "Parameter_reduce p = Inr w"
proof -
  from assms obtain n where n: "p_data p = Some (replicate (Suc n) w)" by (auto simp: same_copies_def)
  have "foldl add_vals (t_vals w) (map t_vals (replicate n w)) = map (\<lambda>v. (1 + real n) * v) (t_vals w)"
    using foldl_add_same [of 1 "t_vals w" n] by simp
  then show ?thesis using n
    by (simp add: Parameter_reduce_def Parameter_list_data_def get_all_def o_def add.commute)
qed

definition loadable :: "darray \<Rightarrow> 'i param \<Rightarrow> bool" where
  "loadable w q \<longleftrightarrow> p_data q = None \<and> p_deferred q = None \<and> p_dtype q = t_dtype w
     \<and> (p_shape q = None \<or> p_shape q = Some (t_shape w))"

lemma Parameter_load_init_fresh:
  assumes "loadable w q"
  shows "\<exists>q'. Parameter_load_init cast cpu w (Some cs) q = (q', Inr ()) \<and> p_data q' = Some (map (\<lambda>_. w) cs)
    \<and> p_ctx_list q' = cs"
proof -
  have sh: "list_all (\<lambda>(a, b). a = 0 \<or> a = b) (zip sh sh)" "map2 (\<lambda>i j. if i \<noteq> 0 then i else j) sh sh = sh"
    "list_all2 (\<lambda>i j. j = 0 \<or> j = i) sh sh" for sh :: "nat list"
    by (induction sh) simp_all
  have "\<exists>r. (case p_shape q of
              Some (s # sh) \<Rightarrow>
                if list_all (\<lambda>(a, b). a = 0 \<or> a = b) (zip (s # sh) (t_shape w))
                then set_shape (map2 (\<lambda>i j. if i \<noteq> 0 then i else j) (s # sh) (t_shape w)) q
                else (q, Inl AssertionError)
            | _ \<Rightarrow> (q, Inr ())) = (q\<lparr> p_shape := r \<rparr>, Inr ())"
  proof (cases "p_shape q")
    case None
    then show ?thesis by (intro exI [of _ None]) simp
  next
    case (Some s)
    with assms have w: "t_shape w = s" by (simp add: loadable_def)
    show ?thesis
    proof (cases s)
      case Nil
      with Some show ?thesis by (intro exI [of _ "Some s"]) simp
    next
      case (Cons a l)
      with Some w sh [of s] show ?thesis by (intro exI [of _ "Some s"]) (simp add: set_shape_def)
    qed
  qed
  then obtain r where r: "(case p_shape q of
              Some (s # sh) \<Rightarrow>
                if list_all (\<lambda>(a, b). a = 0 \<or> a = b) (zip (s # sh) (t_shape w))
                then set_shape (map2 (\<lambda>i j. if i \<noteq> 0 then i else j) (s # sh) (t_shape w)) q
                else (q, Inl AssertionError)
            | _ \<Rightarrow> (q, Inr ())) = (q\<lparr> p_shape := r \<rparr>, Inr ())" by blast
  show ?thesis unfolding Parameter_load_init_def r using assms
    by (simp add: loadable_def init_impl_def init_grad_def)
qed

lemma load_loop_fresh:
  assumes "distinct (map fst entries)" "distinct (map snd params)" "distinct (map fst params)"
    and "\<And>k w. (k, w) \<in> set entries \<Longrightarrow> \<exists>i. (k, i) \<in> set params \<and> loadable w (store i)"
  shows "\<exists>store'. load_loop cast cpu (Some cs) ignore_extra params entries store = (store', Inr ())
    \<and> (\<forall>(k, w) \<in> set entries. \<forall>i. (k, i) \<in> set params \<longrightarrow> p_data (store' i) = Some (map (\<lambda>_. w) cs) \<and> p_ctx_list (store' i) = cs)
    \<and> (\<forall>i. i \<notin> snd ` {x \<in> set params. fst x \<in> fst ` set entries} \<longrightarrow> store' i = store i)"
  using assms(1,4)
proof (induction entries arbitrary: store)
  case (Cons kw entries)
  obtain k w where kw: "kw = (k, w)" by fastforce
  with Cons.prems(2) obtain i where i: "(k, i) \<in> set params" "loadable w (store i)" by (metis list.set_intros(1))
  have mk: "map_of params k = Some i" using i(1) assms(3) by simp
  from Parameter_load_init_fresh [OF i(2)] obtain q where
    q: "Parameter_load_init cast cpu w (Some cs) (store i) = (q, Inr ())" "p_data q = Some (map (\<lambda>_. w) cs)" "p_ctx_list q = cs"
    by blast
  have other: "j \<noteq> i" if "(k', j) \<in> set params" "k' \<noteq> k" for k' j
    using that i(1) assms(2) by (fastforce simp: distinct_map inj_on_def)
  have "\<exists>j. (k', j) \<in> set params \<and> loadable w' ((store(i := q)) j)" if "(k', w') \<in> set entries" for k' w'
  proof -
    have "k' \<noteq> k" using that Cons.prems(1) kw by force
    with other Cons.prems(2) that show ?thesis by (metis fun_upd_apply list.set_intros(2))
  qed
  moreover have "distinct (map fst entries)" using Cons.prems(1) by simp
  ultimately obtain store' where
    s: "load_loop cast cpu (Some cs) ignore_extra params entries (store(i := q)) = (store', Inr ())"
    "\<forall>(k, w) \<in> set entries. \<forall>i. (k, i) \<in> set params \<longrightarrow> p_data (store' i) = Some (map (\<lambda>_. w) cs) \<and> p_ctx_list (store' i) = cs"
    "\<forall>j. j \<notin> snd ` {x \<in> set params. fst x \<in> fst ` set entries} \<longrightarrow> store' j = (store(i := q)) j"
    using Cons.IH [of "store(i := q)"] by blast
  have uniq: "j = i" if "(k, j) \<in> set params" for j using that mk assms(3) by simp
  have "k \<notin> fst ` set entries" using Cons.prems(1) kw by auto
  then have "i \<notin> snd ` {x \<in> set params. fst x \<in> fst ` set entries}" using other by force
  with s(3) q have "p_data (store' i) = Some (map (\<lambda>_. w) cs) \<and> p_ctx_list (store' i) = cs" by simp
  moreover have "store' j = store j" if "j \<notin> snd ` {x \<in> set params. fst x \<in> fst ` set (kw # entries)}" for j
  proof -
    have "j \<noteq> i" using that i(1) kw by force
    moreover have "j \<notin> snd ` {x \<in> set params. fst x \<in> fst ` set entries}" using that by auto
    ultimately show ?thesis using s(3) by simp
  qed
  ultimately show ?case using s(1,2) mk q(1) kw uniq by auto
qed simp

lemma save_loop_same:
  assumes "\<forall>(k, i) \<in> set params. p_name (store i) = k \<and> prefix pre k \<and> same_copies (w i) (store i)"
    and "distinct (map (\<lambda>(k, i). drop (length pre) k) params)"
    and "fst ` set acc \<inter> (\<lambda>(k, i). drop (length pre) k) ` set params = {}"
  shows "save_loop pre store params acc = Inr (acc @ map (\<lambda>(k, i). (drop (length pre) k, w i)) params)"
  using assms
proof (induction params arbitrary: acc)
  case (Cons x params)
  obtain k i where x: "x = (k, i)" by fastforce
  have "save_loop pre store params (acc @ [(drop (length pre) k, w i)]) =
      Inr (acc @ [(drop (length pre) k, w i)] @ map (\<lambda>(k, i). (drop (length pre) k, w i)) params)"
    using Cons.IH [of "acc @ [(drop (length pre) k, w i)]"] Cons.prems x by auto
  moreover have "AList.update (drop (length pre) k) (w i) acc = acc @ [(drop (length pre) k, w i)]"
    using Cons.prems(3) x by (intro update_fresh) auto
  ultimately show ?case using Cons.prems(1) x by (auto simp: Parameter_reduce_same)
qed simp

lemma drop_prefix_distinct:
  assumes "distinct (map fst params)" "\<forall>(k, i) \<in> set params. prefix pre k"
  shows "distinct (map (\<lambda>(k, i). drop (length pre) k) params)"
proof -
  have "k = pre @ drop (length pre) k" if "k \<in> set (map fst params)" for k
    using that assms(2) by (auto simp: prefix_def)
  then have "inj_on (drop (length pre)) (set (map fst params))" by (metis inj_onI)
  with assms(1) have "distinct (map (drop (length pre)) (map fst params))" by (simp only: distinct_map)
  then show ?thesis by (simp add: o_def case_prod_unfold)
qed


definition demo_weight :: darray where
  "demo_weight = \<lparr> t_shape = [2], t_dtype = ''float32'', t_vals = [1, 2] \<rparr>"

definition demo_param :: "darray list option \<Rightarrow> unit param" where
  "demo_param ds =
     \<lparr> p_name = ''net_w'', p_shape = Some [2], p_dtype = ''float32'', p_lr_mult = 1, p_wd_mult = 1, p_init = None,
       p_grad_req = Some ''null'', p_data = ds, p_grad = None, p_ctx_list = [], p_ctx_map = ([], []), p_deferred = None,
       p_differentiable = True, p_allow_deferred = False \<rparr>"

definition demo_dict :: param_dict where
  "demo_dict = \<lparr> pd_prefix = ''net_'', pd_params = [(''net_w'', 7)], pd_shared = None \<rparr>"


end
