(* ===== verification/Spec2Isabelle.thy ===== *)
theory Spec2Isabelle
  imports Samplers NDArray_Index Prefetching LR_Schedulers Record_IO SGD_Updater
    Optimizer_Laws Data_Loader_V1 Binary_Laws Metric_Config Text_Vocab Bucketing Batch_Split Scopes Gluon_Params
begin

text \<open>
  A verification library for the Python front end of MXNet (\<open>python/mxnet\<close>): the code that feeds
  and steers training, and the native operators that carry out its parameter updates.

  \<^bold>\<open>Parts and theories.\<close>  Data reaches the training loop on two ways, through the data iterators
  of \<open>mx.io\<close> and through the data sets, samplers and loaders of \<open>gluon.data\<close>; it may come from
  record files.  Each step then calls the updater, which asks the learning rate scheduler for a
  rate and lets the optimizer change the weights, through native operators; the evaluation metrics
  follow the predictions.

  \<^item> \<open>Prelude\<close>: exceptions and results, method calls that keep their mutations when they raise
    (\<open>outcome\<close>), Python's \<open>range\<close> and indexing, dicts, loops over an iterator (\<open>drain\<close>), and the cutting
    of a list into consecutive blocks (\<open>chunks\<close>), the reference for everything that batches.
  \<^item> \<open>Samplers\<close>: \<open>gluon/data/sampler.py\<close>, \<open>gluon/contrib/data/sampler.py\<close>.  The locale
    \<open>index_sampler\<close> is the contract a batch sampler relies on.
  \<^item> \<open>Datasets\<close>: \<open>gluon/data/dataset.py\<close> and the batching functions of \<open>gluon/data/dataloader.py\<close>.
  \<^item> \<open>Data_Loader\<close>: \<open>DataLoader\<close> and \<open>DataLoaderV1\<close> from the constructor to a loop over them, and
    \<open>_MultiWorkerIter\<close>; a pool task is its result, since only the order of the replies is visible.
    \<open>Data_Loader_V1\<close>: \<open>_MultiWorkerIterV1\<close>, with its worker processes, its fetcher thread and its caller
    as steps that interleave in every order, proved by an invariant on the jobs in flight.
  \<^item> \<open>NDArray_Index\<close>: slice and broadcasting arithmetic of \<open>ndarray/ndarray.py\<close>.
  \<^item> \<open>Data_Iters\<close>, \<open>Data_Epochs\<close>: \<open>NDArrayIter\<close> of \<open>io/io.py\<close> with \<open>io/utils.py\<close>, operation by
    operation and over whole epochs.  \<open>Iter_Adapters\<close>: the locale \<open>data_iter\<close> (what a client of an
    iterator relies on) and \<open>ResizeIter\<close>.  \<open>Prefetching\<close>: \<open>PrefetchingIter\<close>, its threads as a step
    relation, refined to sequential reading in the locale \<open>prefetch\<close>.
  \<^item> \<open>LR_Schedulers\<close>: \<open>lr_scheduler.py\<close>; the locale \<open>decay_curve\<close> is shared by the polynomial and
    the cosine decay.
  \<^item> \<open>Py_Text\<close>, \<open>Record_Pack\<close>, \<open>Record_IO\<close>: \<open>recordio.py\<close>; number printing and parsing, records as
    bytes (locale \<open>fixed_width\<close> for the struct fields), and the record files over a file system.
  \<^item> \<open>Optimizer_Kernels\<close>: the kernels of \<open>src/operator/optimizer_op-inl.h\<close>.  \<open>Optimizer_Base\<close>,
    \<open>SGD_Updater\<close>, \<open>Optimizers\<close>, \<open>Optimizer_Laws\<close>: the classes of \<open>optimizer/optimizer.py\<close> over them.
  \<^item> \<open>Nd_Arrays\<close>: arrays with a shape, broadcasting, and the native \<open>argmax\<close> and \<open>pick\<close> of
    \<open>src/operator/tensor/broadcast_reduce_op.h\<close>.  \<open>Metrics\<close>: every class of \<open>metric.py\<close>.  \<open>Metric_Laws\<close>: what
    the metrics compute over any sequence of updates and resets, by the locale \<open>pair_metric\<close> of the classes
    that add up contributions per pair; accuracy, top-k accuracy and the mean errors.  \<open>Binary_Laws\<close>: F1 and
    the Matthews coefficient.  \<open>Metric_Config\<close>: \<open>registry.py\<close>, \<open>metric.create\<close> and \<open>get_config\<close>, and what a
    saved configuration restores.
  \<^item> \<open>Text_Vocab\<close>: \<open>contrib/text/vocab.py\<close> and the token counting of \<open>contrib/text/utils.py\<close>.  \<open>Bucketing\<close>: \<open>rnn/io.py\<close>, the
    encoding of sentences and the iterator over buckets of equal length.
  \<^item> \<open>Batch_Split\<close>: the division of a batch among devices in \<open>executor_manager.py\<close> and \<open>gluon/utils.py\<close>, with the native
    \<open>slice_axis\<close>, and the clipping of gradients.
  \<^item> \<open>Scopes\<close>: \<open>name.py\<close> and \<open>attribute.py\<close>; the locale \<open>context_manager\<close> is what a nested \<open>with\<close> statement relies
    on, interpreted for both classes.
  \<^item> \<open>Gluon_Params\<close>: \<open>gluon/parameter.py\<close>, the life of a parameter under any sequence of calls, and dictionaries of
    parameters with saving and loading.

  \<^bold>\<open>Correspondence.\<close>  An object is a record with the attributes of the class; a method \<open>m\<close> of a class
  \<open>K\<close> is the function \<open>K_m\<close> (leading underscores dropped) from the object to the object and its
  result or exception.  Python integers are \<open>int\<close>, strings are character lists, arrays are lists with
  a type tag, floating point numbers are real numbers.  Code outside the repository is an argument: the
  shuffle of \<open>numpy.random\<close>, \<open>argpartition\<close> and \<open>corrcoef\<close>, \<open>json.loads\<close>, \<open>re.split\<close>, the codecs of \<open>cv2\<close>, the record framing of the submodule \<open>dmlc-core\<close>, a
  user's callbacks.  So are the initializers of parameters and the rounding of a number to an element type.

  \<^bold>\<open>Loops and fuel.\<close>  Loops over lists are structural.  Loops that might not end are
  \<open>partial_function (option)\<close>, where \<open>None\<close> means no end, and the properties state that they do end:
  \<open>factor_loop\<close> and \<open>ds_collect\<close>.  The client loop \<open>drain\<close> has fuel; the
  theorems over it hold for every fuel above the number of batches.  The calls among \<open>create\<close> and the
  constructors (\<open>perform\<close>) have Python's recursion limit as fuel and raise \<open>RuntimeError\<close> beyond it;
  \<open>call_depth\<close> is a bound that is enough.

  \<^bold>\<open>Not modelled.\<close>  Rounding of floating point arithmetic; device placement and the asynchronous
  engine behind the arrays; the native core apart from the optimizer operators, two reductions and \<open>slice_axis\<close>; row-sparse parameters and constants, whose values the
  trainer and the key-value store keep; the transport of
  batches between processes (pickling, shared memory, pinned memory), which keeps their values; the other language
  bindings; symbol, module, executor, gluon blocks and the model zoo, ONNX import and export, which
  build and run native graphs; image decoding and augmentation, which is \<open>cv2\<close> and native code;
  downloads, logging and visualisation.
\<close>

end
